(* ===== verification/Prelude.thy ===== *)
theory Prelude
  imports "HOL-Library.Word" "HOL-Library.Multiset"
begin

text \<open>
  Shared vocabulary of the development: names for the machine types of the Rust sources, the
  standard-library types that every component mentions (\<open>Poll\<close>, panics, clocks, atomic
  counters), the theorem collections that the component proofs use, and the generic lemmas on
  lists, maps and words.

  Conventions.  Counters that the sources keep in an \<open>AtomicU64\<close> or an \<open>AtomicUsize\<close> are
  64-bit words, because their \<open>fetch_add\<close> wraps around.  Lengths, capacities and slot
  indices (\<open>usize\<close> values that are bounded by an allocation) are natural numbers.  A panic of
  the source is a value of type \<open>panic\<close> in the left summand of the result.
\<close>

named_theorems op_defs \<open>definitions of the small non-recursive operations\<close>
named_theorems wf_intros \<open>the operations preserve the invariants of their component\<close>

type_synonym u8 = "8 word"
type_synonym u16 = "16 word"
type_synonym u32 = "32 word"
type_synonym u64 = "64 word"
type_synonym usize = nat
type_synonym raw_fd = int

section \<open>Polling, panics, atomic counters\<close>

text \<open>\<open>std::task::Poll\<close>.\<close>

datatype 'a poll = Ready 'a | Pending

fun is_ready :: "'a poll \<Rightarrow> bool" where
  "is_ready (Ready _) = True"
| "is_ready Pending = False"

text \<open>The ways in which the modelled code can panic; \<open>UserPanic\<close> carries the payload of
  a panic raised by a user future.\<close>

datatype panic =
    DivisionByZero
  | RemainderByZero
  | IndexOutOfBounds
  | ArithmeticOverflow
  | ExpectFailed string
  | UserPanic nat

type_synonym 'a may_panic = "panic + 'a"

text \<open>\<open>fetch_add\<close> of the atomic integers: the old value is returned and the sum wraps.\<close>

definition fetch_add :: "'a::len word \<Rightarrow> 'a word \<Rightarrow> 'a word \<times> 'a word" where
  [op_defs]: "fetch_add c n = (c, c + n)"

section \<open>Decimal numbers\<close>

text \<open>The \<open>Display\<close> of the unsigned integers, and \<open>str::parse\<close> of a string of digits.\<close>

definition digit :: "nat \<Rightarrow> char" where
  "digit d = char_of (48 + d)"

fun decimal :: "nat \<Rightarrow> string" where
  "decimal n = (if n < 10 then [digit n] else decimal (n div 10) @ [digit (n mod 10)])"

declare decimal.simps [simp del]

definition is_digit :: "char \<Rightarrow> bool" where
  "is_digit c \<longleftrightarrow> 48 \<le> (of_char c :: nat) \<and> of_char c \<le> (57 :: nat)"

definition digit_value :: "char \<Rightarrow> nat" where
  "digit_value c = of_char c - 48"

definition undecimal :: "string \<Rightarrow> nat" where
  "undecimal cs = foldl (\<lambda>n c. 10 * n + digit_value c) 0 cs"

lemma digit_props:
  assumes "d < 10"
  shows "is_digit (digit d)" "digit_value (digit d) = d"
  using assms by (simp_all add: is_digit_def digit_def digit_value_def)

lemma undecimal_decimal: "undecimal (decimal n) = n"
proof (induction n rule: decimal.induct)
  case (1 n)
  then show ?case
    by (subst decimal.simps) (auto simp: undecimal_def digit_props)
qed

lemma decimal_digits: "c \<in> set (decimal n) \<Longrightarrow> is_digit c"
proof (induction n rule: decimal.induct)
  case (1 n)
  from 1(2) show ?case
    by (subst (asm) decimal.simps) (auto split: if_splits simp: digit_props 1(1))
qed

lemma decimal_nonempty [simp]: "decimal n \<noteq> []"
  by (subst decimal.simps) simp

section \<open>Clock readings\<close>

text \<open>
  An \<open>Instant\<close> is a number of nanoseconds on the monotonic clock and a \<open>Duration\<close> a number
  of nanoseconds.  On the supported platforms an \<open>Instant\<close> holds its seconds in a signed
  64-bit integer and adding a \<open>Duration\<close> panics when they overflow.
\<close>

type_synonym instant = nat
type_synonym duration = nat

definition instant_limit :: nat where
  "instant_limit = 2 ^ 63 * 10 ^ 9"

definition instant_add :: "instant \<Rightarrow> duration \<Rightarrow> instant may_panic" where
  [op_defs]: "instant_add t d =
    (if t + d < instant_limit then Inr (t + d) else Inl ArithmeticOverflow)"

definition saturating_duration_since :: "instant \<Rightarrow> instant \<Rightarrow> duration" where
  [op_defs]: "saturating_duration_since t s = t - s"

definition as_millis :: "duration \<Rightarrow> nat" where
  [op_defs]: "as_millis d = d div 1000000"

section \<open>Generic lemmas\<close>

lemma word_of_nat_add_inj:
  fixes c :: "'a::len word"
  assumes "i < 2 ^ LENGTH('a)" "j < 2 ^ LENGTH('a)" "c + of_nat i = c + of_nat j"
  shows "i = j"
proof -
  from assms(3) have "(of_nat i :: 'a word) = of_nat j" by simp
  then have "unat (of_nat i :: 'a word) = unat (of_nat j :: 'a word)" by simp
  with assms(1,2) show ?thesis by (simp add: unat_of_nat)
qed

lemma distinct_counter_values:
  fixes c :: "'a::len word"
  assumes "n \<le> 2 ^ LENGTH('a)"
  shows "distinct (map (\<lambda>k. c + of_nat k) [0..<n])"
  unfolding distinct_map
proof (intro conjI inj_onI)
  fix i j
  assume "i \<in> set [0..<n]" "j \<in> set [0..<n]" "c + of_nat i = c + of_nat j"
  with assms show "i = j" by (auto intro: word_of_nat_add_inj [of i j c])
qed simp

text \<open>
  The identifier generators of the program (\<open>TimerId::new\<close>, \<open>IoToken::new\<close>, the task-id
  counters) all take the value of a 64-bit counter and increment it.  Their contract: the
  identifiers issued by fewer than \<open>2 ^ 64\<close> consecutive calls are distinct.
\<close>

primrec issue :: "(u64 \<Rightarrow> 'i \<times> u64) \<Rightarrow> nat \<Rightarrow> u64 \<Rightarrow> 'i list" where
  "issue new 0 c = []"
| "issue new (Suc n) c = (let (i, c') = new c in i # issue new n c')"

locale id_counter =
  fixes new :: "u64 \<Rightarrow> 'i \<times> u64"
    and mk :: "u64 \<Rightarrow> 'i"
  assumes new_eq: "new c = (mk c, c + 1)"
    and mk_inj: "mk a = mk b \<Longrightarrow> a = b"
begin

lemma issue_eq: "issue new n c = map (\<lambda>k. mk (c + of_nat k)) [0..<n]"
proof (induction n arbitrary: c)
  case (Suc n)
  have "[0..<Suc n] = 0 # map Suc [0..<n]"
    by (simp add: upt_conv_Cons map_Suc_upt del: upt_Suc)
  with Suc show ?case by (simp add: new_eq ac_simps del: upt_Suc)
qed simp

lemma issue_distinct:
  assumes "n \<le> 2 ^ 64"
  shows "distinct (issue new n c)"
proof -
  have "distinct (map mk (map (\<lambda>k. c + of_nat k) [0..<n]))"
    using assms distinct_counter_values [of n c]
    by (subst distinct_map) (auto intro!: inj_onI dest: mk_inj)
  then show ?thesis by (simp add: issue_eq comp_def)
qed

end

lemma sum_list_map_update:
  fixes f :: "'a \<Rightarrow> nat"
  assumes "i < length xs"
  shows "sum_list (map f (xs[i := x])) + f (xs ! i) = sum_list (map f xs) + f x"
  using assms
proof (induction xs arbitrary: i)
  case Nil
  then show ?case by simp
next
  case (Cons y ys)
  then show ?case by (cases i) (auto simp: algebra_simps)
qed

lemma mset_concat_update:
  assumes "i < length xss"
  shows "mset (concat (xss[i := ys])) + mset (xss ! i) = mset (concat xss) + mset ys"
  using assms
proof (induction xss arbitrary: i)
  case Nil
  then show ?case by simp
next
  case (Cons zs zss)
  then show ?case by (cases i) (auto simp: algebra_simps)
qed

lemma div_add_one_period: "0 < (r :: nat) \<Longrightarrow> (a + r) div r = Suc (a div r)"
  by (simp add: div_add_self2)

lemma map_upd_same_dom: "k \<in> dom m \<Longrightarrow> dom (m(k \<mapsto> v)) = dom m"
  by auto

lemma rtranclp_three: "r a b \<Longrightarrow> r b c \<Longrightarrow> r c d \<Longrightarrow> r\<^sup>*\<^sup>* a d"
  by (blast intro: converse_rtranclp_into_rtranclp)

lemma fun_upd_const [simp]: "(\<lambda>_. c)(x := c) = (\<lambda>_. c)"
  by auto

end
