(* ===== verification/Timer.thy ===== *)
theory Timer
  imports Prelude
begin

text \<open>
  The hashed timer wheel of \<open>src/timer/mod.rs\<close>, with its entries (\<open>timer/entry.rs\<close>) and
  identifiers (\<open>timer/id.rs\<close>).  The type of wakers is a parameter.  The process-wide
  \<open>TIMER_COUNTER\<close> is passed explicitly.  Arithmetic panics (a wheel with no slots or with
  resolution zero) and index panics are results of the operations.
\<close>

section \<open>Identifiers and entries\<close>

datatype timer_id = TimerId u64

definition TIMER_COUNTER_init :: u64 where
  "TIMER_COUNTER_init = 1"

definition timer_id_new :: "u64 \<Rightarrow> timer_id \<times> u64" where
  "timer_id_new counter = (let (c, counter') = fetch_add counter 1 in (TimerId c, counter'))"

record 'w entry =
  entry_id :: timer_id
  entry_waker :: 'w

section \<open>The wheel\<close>

record 'w timer_wheel =
  slots :: "'w entry list list"
  resolution_ms :: u64
  num_slots :: usize
  current_slot :: usize
  start_time :: instant

definition wheel_new :: "usize \<Rightarrow> u64 \<Rightarrow> instant \<Rightarrow> 'w timer_wheel" where
  "wheel_new n res now =
    \<lparr>slots = replicate n [], resolution_ms = res, num_slots = n, current_slot = 0,
     start_time = now\<rparr>"

definition wheel_default :: "instant \<Rightarrow> 'w timer_wheel" where
  "wheel_default now = wheel_new 4096 1 now"

text \<open>\<open>elapsed.as_millis() as u64 / self.resolution_ms\<close>, for a non-zero resolution.\<close>

definition slot_offset :: "instant \<Rightarrow> 'w timer_wheel \<Rightarrow> usize" where
  "slot_offset t w =
    unat ((of_nat (as_millis (saturating_duration_since t (start_time w))) :: u64)
          div resolution_ms w)"

definition calculate_slot :: "instant \<Rightarrow> 'w timer_wheel \<Rightarrow> usize may_panic" where
  "calculate_slot at w =
    (if resolution_ms w = 0 then Inl DivisionByZero
     else if num_slots w = 0 then Inl RemainderByZero
     else Inr (slot_offset at w mod num_slots w))"

definition schedule ::
  "instant \<Rightarrow> 'w \<Rightarrow> u64 \<Rightarrow> 'w timer_wheel \<Rightarrow> (timer_id \<times> u64 \<times> 'w timer_wheel) may_panic" where
  "schedule at waker counter w =
    (let (timer_id, counter') = timer_id_new counter in
     case calculate_slot at w of
       Inl e \<Rightarrow> Inl e
     | Inr i \<Rightarrow>
         if i < length (slots w)
         then Inr (timer_id, counter',
           w\<lparr>slots := (slots w)[i := slots w ! i @ [\<lparr>entry_id = timer_id, entry_waker = waker\<rparr>]]\<rparr>)
         else Inl (ExpectFailed ''Timer slot index verified to be in bounds''))"

text \<open>\<open>slot.iter().position(..)\<close> and \<open>VecDeque::remove\<close>.\<close>

fun position :: "('a \<Rightarrow> bool) \<Rightarrow> 'a list \<Rightarrow> usize option" where
  "position P [] = None"
| "position P (x # xs) = (if P x then Some 0 else map_option Suc (position P xs))"

definition remove_at :: "usize \<Rightarrow> 'a list \<Rightarrow> 'a list" where
  "remove_at i xs = take i xs @ drop (Suc i) xs"

fun cancel_in_slots :: "timer_id \<Rightarrow> 'w entry list list \<Rightarrow> bool \<times> 'w entry list list" where
  "cancel_in_slots i [] = (False, [])"
| "cancel_in_slots i (slot # rest) =
    (case position (\<lambda>e. entry_id e = i) slot of
       Some pos \<Rightarrow> (True, remove_at pos slot # rest)
     | None \<Rightarrow> let (found, rest') = cancel_in_slots i rest in (found, slot # rest'))"

definition timer_cancel :: "timer_id \<Rightarrow> 'w timer_wheel \<Rightarrow> bool \<times> 'w timer_wheel" where
  "timer_cancel i w =
    (let (found, ss) = cancel_in_slots i (slots w) in (found, w\<lparr>slots := ss\<rparr>))"

text \<open>The inner loop that pops every entry of one slot.\<close>

primrec drain_slot :: "'w entry list \<Rightarrow> 'w list \<Rightarrow> 'w list" where
  "drain_slot [] ready = ready"
| "drain_slot (e # es) ready = drain_slot es (ready @ [entry_waker e])"

text \<open>One slot processed and the wheel advanced by one.\<close>

definition process_slot ::
  "'w timer_wheel \<Rightarrow> 'w list \<Rightarrow> ('w timer_wheel \<times> 'w list) may_panic" where
  "process_slot w ready =
    (if current_slot w < length (slots w)
     then Inr (w\<lparr>slots := (slots w)[current_slot w := []],
                 current_slot := (current_slot w + 1) mod num_slots w\<rparr>,
               drain_slot (slots w ! current_slot w) ready)
     else Inl IndexOutOfBounds)"

primrec expire_rotation ::
  "nat \<Rightarrow> 'w timer_wheel \<Rightarrow> 'w list \<Rightarrow> ('w timer_wheel \<times> 'w list) may_panic" where
  "expire_rotation 0 w ready = Inr (w, ready)"
| "expire_rotation (Suc k) w ready =
    (case process_slot w ready of
       Inl e \<Rightarrow> Inl e
     | Inr (w', ready') \<Rightarrow> expire_rotation k w' ready')"

text \<open>How many slots lie between two positions of a wheel with \<open>n\<close> slots, going forward.\<close>

definition slot_distance :: "nat \<Rightarrow> nat \<Rightarrow> nat \<Rightarrow> nat" where
  "slot_distance n c t =
    (if c < n then if c \<le> t then t - c else t + n - c else n)"

lemma slot_distance_decreases:
  assumes "t < n" "c \<noteq> t"
  shows "slot_distance n (Suc c mod n) t < slot_distance n c t"
proof (cases "c < n")
  case True
  with assms show ?thesis by (cases "Suc c = n") (auto simp: slot_distance_def)
next
  case False
  have "Suc c mod n < n" using assms by simp
  with assms False show ?thesis by (auto simp: slot_distance_def)
qed

text \<open>The outer \<open>while\<close> loop; \<open>off\<close> is \<open>target_slot_offset as usize\<close>.\<close>

function expire_loop ::
  "usize \<Rightarrow> 'w timer_wheel \<Rightarrow> 'w list \<Rightarrow> ('w timer_wheel \<times> 'w list) may_panic" where
  "expire_loop off w ready =
    (if current_slot w \<noteq> off mod num_slots w \<or> off \<ge> num_slots w
     then case process_slot w ready of
            Inl e \<Rightarrow> Inl e
          | Inr (w', ready') \<Rightarrow>
              if off \<ge> num_slots w then expire_rotation (num_slots w) w' ready'
              else expire_loop off w' ready'
     else Inr (w, ready))"
  by pat_completeness auto
termination
proof (relation "measure (\<lambda>(off, w, ready). slot_distance (num_slots w) (current_slot w) off)",
    goal_cases)
  case 1
  show ?case by simp
next
  case (2 off w ready b x y)
  from 2 have "off < num_slots w" "current_slot w \<noteq> off" "num_slots x = num_slots w"
    "current_slot x = Suc (current_slot w) mod num_slots w"
    by (auto simp: process_slot_def split: if_splits)
  then show ?case by (auto intro: slot_distance_decreases)
qed

definition expire ::
  "instant \<Rightarrow> 'w timer_wheel \<Rightarrow> 'w list \<Rightarrow> ('w timer_wheel \<times> 'w list) may_panic" where
  "expire now w ready =
    (if resolution_ms w = 0 then Inl DivisionByZero
     else if num_slots w = 0 then Inl RemainderByZero
     else expire_loop (slot_offset now w) w ready)"

definition pending_count :: "'w timer_wheel \<Rightarrow> usize" where
  "pending_count w = sum_list (map length (slots w))"

section \<open>Histories of a timer queue\<close>

datatype 'w timer_cmd = TSchedule instant 'w | TExpire instant

primrec timer_exec ::
  "(instant \<Rightarrow> 'w \<Rightarrow> u64 \<Rightarrow> 't \<Rightarrow> (timer_id \<times> u64 \<times> 't) may_panic)
   \<Rightarrow> (instant \<Rightarrow> 't \<Rightarrow> 'w list \<Rightarrow> ('t \<times> 'w list) may_panic)
   \<Rightarrow> 'w timer_cmd list \<Rightarrow> 't \<Rightarrow> u64 \<Rightarrow> 'w list \<Rightarrow> ('t \<times> u64 \<times> 'w list) may_panic" where
  "timer_exec sched expi [] t c ready = Inr (t, c, ready)"
| "timer_exec sched expi (cmd # cmds) t c ready =
    (case cmd of
       TSchedule at waker \<Rightarrow>
         (case sched at waker c t of
            Inl e \<Rightarrow> Inl e
          | Inr (_, c', t') \<Rightarrow> timer_exec sched expi cmds t' c' ready)
     | TExpire now \<Rightarrow>
         (case expi now t ready of
            Inl e \<Rightarrow> Inl e
          | Inr (t', ready') \<Rightarrow> timer_exec sched expi cmds t' c ready'))"

primrec scheduled :: "'w timer_cmd list \<Rightarrow> 'w multiset" where
  "scheduled [] = {#}"
| "scheduled (cmd # cmds) =
    (case cmd of TSchedule _ waker \<Rightarrow> {#waker#} | TExpire _ \<Rightarrow> {#}) + scheduled cmds"

text \<open>What the owner of a timer queue relies on: no operation panics, scheduling adds one
  waker, and expiry moves wakers to the ready list without losing or duplicating any.\<close>

locale timer_queue =
  fixes sched :: "instant \<Rightarrow> 'w \<Rightarrow> u64 \<Rightarrow> 't \<Rightarrow> (timer_id \<times> u64 \<times> 't) may_panic"
    and expi :: "instant \<Rightarrow> 't \<Rightarrow> 'w list \<Rightarrow> ('t \<times> 'w list) may_panic"
    and inv :: "'t \<Rightarrow> bool"
    and waiting :: "'t \<Rightarrow> 'w multiset"
  assumes sched_ok: "inv t \<Longrightarrow> \<exists>i c' t'. sched at waker c t = Inr (i, c', t') \<and> inv t'
      \<and> waiting t' = add_mset waker (waiting t)"
    and expi_ok: "inv t \<Longrightarrow> \<exists>t' r'. expi now t r = Inr (t', r') \<and> inv t'
      \<and> mset r' + waiting t' = mset r + waiting t"
begin

lemma exec_conserves:
  "inv t \<Longrightarrow> \<exists>t' c' r'. timer_exec sched expi cmds t c r = Inr (t', c', r') \<and> inv t'
    \<and> mset r' + waiting t' = mset r + waiting t + scheduled cmds"
proof (induction cmds arbitrary: t c r)
  case (Cons cmd cmds)
  show ?case
  proof (cases cmd)
    case (TSchedule at waker)
    obtain i c' t' where s: "sched at waker c t = Inr (i, c', t')" "inv t'"
      "waiting t' = add_mset waker (waiting t)"
      using sched_ok [OF Cons.prems] by blast
    from Cons.IH [OF s(2), of c' r] s TSchedule show ?thesis by auto
  next
    case (TExpire now)
    obtain t' r' where e: "expi now t r = Inr (t', r')" "inv t'"
      "mset r' + waiting t' = mset r + waiting t"
      using expi_ok [OF Cons.prems] by blast
    from Cons.IH [OF e(2), of c r'] e TExpire show ?thesis by auto
  qed
qed simp

end

section \<open>Invariant and vocabulary of the lemmas\<close>

definition wheel_wf :: "'w timer_wheel \<Rightarrow> bool" where
  "wheel_wf w \<longleftrightarrow> 0 < num_slots w \<and> length (slots w) = num_slots w
    \<and> current_slot w < num_slots w \<and> resolution_ms w \<noteq> 0"

definition wheel_entries :: "'w timer_wheel \<Rightarrow> 'w entry list" where
  "wheel_entries w = concat (slots w)"

definition wheel_wakers :: "'w timer_wheel \<Rightarrow> 'w multiset" where
  "wheel_wakers w = mset (map entry_waker (wheel_entries w))"

text \<open>The slots from position \<open>c\<close> forward to position \<open>t\<close>, exclusively.\<close>

definition slot_range :: "nat \<Rightarrow> nat \<Rightarrow> nat \<Rightarrow> nat list" where
  "slot_range n c t = (if c \<le> t then [c..<t] else [c..<n] @ [0..<t])"

definition clear_slots :: "nat list \<Rightarrow> 'a list list \<Rightarrow> 'a list list" where
  "clear_slots is ss = fold (\<lambda>i ss. ss[i := []]) is ss"

definition wakers_in :: "'w entry list list \<Rightarrow> nat list \<Rightarrow> 'w list" where
  "wakers_in ss is = concat (map (\<lambda>i. map entry_waker (ss ! i)) is)"

declare expire_loop.simps [simp del]

lemma drain_slot_eq [simp]: "drain_slot es ready = ready @ map entry_waker es"
  by (induction es arbitrary: ready) auto

lemma length_clear_slots [simp]: "length (clear_slots is ss) = length ss"
  by (induction "is" arbitrary: ss) (simp_all add: clear_slots_def)

lemma clear_slots_Cons [simp]: "clear_slots (i # is) ss = clear_slots is (ss[i := []])"
  by (simp add: clear_slots_def)

lemma clear_slots_Nil [simp]: "clear_slots [] ss = ss"
  by (simp add: clear_slots_def)

lemma nth_clear_slots:
  "i < length ss \<Longrightarrow> clear_slots is ss ! i = (if i \<in> set is then [] else ss ! i)"
proof (induction "is" arbitrary: ss)
  case Nil
  then show ?case by simp
next
  case (Cons j js)
  then show ?case by (cases "i = j") auto
qed

lemma wakers_in_simps [simp]:
  "wakers_in ss [] = []"
  "wakers_in ss (i # is) = map entry_waker (ss ! i) @ wakers_in ss is"
  by (simp_all add: wakers_in_def)

lemma wakers_in_update:
  "i \<notin> set is \<Longrightarrow> wakers_in (ss[i := es]) is = wakers_in ss is"
  by (induction "is") auto

lemma slot_range_step:
  assumes "c < n" "t < n" "c \<noteq> t"
  shows "slot_range n c t = c # slot_range n (Suc c mod n) t"
    and "c \<notin> set (slot_range n (Suc c mod n) t)"
  using assms by (auto simp: slot_range_def upt_conv_Cons mod_Suc)

lemma slot_range_same [simp]: "slot_range n c c = []"
  by (simp add: slot_range_def)

section \<open>One slot, one rotation, the loop\<close>

lemma process_slot_eq:
  assumes "wheel_wf w"
  shows "process_slot w ready =
    Inr (w\<lparr>slots := (slots w)[current_slot w := []],
           current_slot := Suc (current_slot w) mod num_slots w\<rparr>,
         ready @ map entry_waker (slots w ! current_slot w))"
  using assms by (simp add: process_slot_def wheel_wf_def)

lemma wheel_wf_advance [wf_intros]:
  "wheel_wf w \<Longrightarrow>
    wheel_wf (w\<lparr>slots := (slots w)[i := es], current_slot := Suc j mod num_slots w\<rparr>)"
  by (simp add: wheel_wf_def)

lemma wheel_wakers_clear:
  assumes "i < length (slots w)"
  shows "wheel_wakers (w\<lparr>slots := (slots w)[i := []], current_slot := j\<rparr>)
      + mset (map entry_waker (slots w ! i)) = wheel_wakers w"
proof -
  have "mset (concat ((slots w)[i := []])) + mset (slots w ! i) = mset (concat (slots w))"
    using mset_concat_update [OF assms, of "[]"] by simp
  from arg_cong [OF this, of "image_mset entry_waker"] show ?thesis
    by (simp add: wheel_wakers_def wheel_entries_def)
qed

lemma expire_rotation_ok:
  assumes "wheel_wf w"
  shows "\<exists>w' r'. expire_rotation k w ready = Inr (w', r') \<and> wheel_wf w'
    \<and> num_slots w' = num_slots w
    \<and> mset r' + wheel_wakers w' = mset ready + wheel_wakers w
    \<and> (\<forall>i < num_slots w. slots w ! i = [] \<longrightarrow> slots w' ! i = [])
    \<and> (\<forall>j < k. slots w' ! ((current_slot w + j) mod num_slots w) = [])"
  using assms
proof (induction k arbitrary: w ready)
  case 0
  then show ?case by simp
next
  case (Suc k)
  let ?c = "current_slot w" and ?n = "num_slots w"
  let ?w = "w\<lparr>slots := (slots w)[?c := []], current_slot := Suc ?c mod ?n\<rparr>"
  let ?r = "ready @ map entry_waker (slots w ! ?c)"
  have c: "?c < ?n" and len: "length (slots w) = ?n"
    using Suc.prems by (simp_all add: wheel_wf_def)
  obtain w' r' where IH: "expire_rotation k ?w ?r = Inr (w', r')" "wheel_wf w'"
    "num_slots w' = ?n" "mset r' + wheel_wakers w' = mset ?r + wheel_wakers ?w"
    "\<forall>i < ?n. slots ?w ! i = [] \<longrightarrow> slots w' ! i = []"
    "\<forall>j < k. slots w' ! ((Suc ?c mod ?n + j) mod ?n) = []"
    using Suc.IH [OF wheel_wf_advance [OF Suc.prems, where i = ?c and es = "[]" and j = ?c], of ?r]
    by auto
  have "\<forall>j < Suc k. slots w' ! ((?c + j) mod ?n) = []"
  proof (intro allI impI)
    fix j assume "j < Suc k"
    then show "slots w' ! ((?c + j) mod ?n) = []"
      using IH(5,6) c len by (cases j) (auto simp: mod_add_left_eq)
  qed
  moreover have "\<forall>i < ?n. slots w ! i = [] \<longrightarrow> slots w' ! i = []"
    using IH(5) c len by (auto simp: nth_list_update)
  moreover have "mset r' + wheel_wakers w' = mset ready + wheel_wakers w"
    using IH(4) wheel_wakers_clear [of ?c w "Suc ?c mod ?n"] c len by (simp add: ac_simps)
  ultimately show ?case
    using IH(1-3) by (simp add: process_slot_eq [OF Suc.prems])
qed

lemma expire_loop_first_rotation:
  assumes "wheel_wf w" "off < num_slots w"
  shows "expire_loop off w ready =
    Inr (w\<lparr>slots := clear_slots (slot_range (num_slots w) (current_slot w) off) (slots w),
           current_slot := off\<rparr>,
         ready @ wakers_in (slots w) (slot_range (num_slots w) (current_slot w) off))"
  using assms
proof (induction off w ready rule: expire_loop.induct)
  case (1 off w ready)
  show ?case
  proof (cases "current_slot w = off")
    case True
    with "1.prems" show ?thesis by (simp add: expire_loop.simps [of off w])
  next
    case False
    let ?w = "w\<lparr>slots := (slots w)[current_slot w := []],
                current_slot := Suc (current_slot w) mod num_slots w\<rparr>"
    have c: "current_slot w < num_slots w"
      using "1.prems" by (simp add: wheel_wf_def)
    note step = slot_range_step [OF c "1.prems"(2) False]
    have "expire_loop off ?w (ready @ map entry_waker (slots w ! current_slot w)) =
      Inr (?w\<lparr>slots := clear_slots (slot_range (num_slots w) (current_slot ?w) off) (slots ?w),
              current_slot := off\<rparr>,
           (ready @ map entry_waker (slots w ! current_slot w))
             @ wakers_in (slots ?w) (slot_range (num_slots w) (current_slot ?w) off))"
      using "1.IH" [OF _ process_slot_eq refl] "1.prems" False
        wheel_wf_advance [OF "1.prems"(1)] by simp
    with False "1.prems" step show ?thesis
      by (simp add: expire_loop.simps [of off w] process_slot_eq wakers_in_update)
  qed
qed

lemma slot_offset_frame [simp]:
  "slot_offset t (w\<lparr>slots := ss\<rparr>) = slot_offset t w"
  "slot_offset t (w\<lparr>slots := ss, current_slot := c\<rparr>) = slot_offset t w"
  by (simp_all add: slot_offset_def)

lemma expire_loop_conserves:
  assumes "wheel_wf w"
  shows "\<exists>w' r'. expire_loop off w ready = Inr (w', r') \<and> wheel_wf w'
    \<and> mset r' + wheel_wakers w' = mset ready + wheel_wakers w"
  using assms
proof (induction off w ready rule: expire_loop.induct)
  case (1 off w ready)
  let ?c = "current_slot w" and ?n = "num_slots w"
  let ?w = "w\<lparr>slots := (slots w)[?c := []], current_slot := Suc ?c mod ?n\<rparr>"
  let ?r = "ready @ map entry_waker (slots w ! ?c)"
  have wf: "wheel_wf ?w" by (rule wheel_wf_advance [OF "1.prems"])
  have cons: "mset ?r + wheel_wakers ?w = mset ready + wheel_wakers w"
    using wheel_wakers_clear [of ?c w "Suc ?c mod ?n"] "1.prems"
    by (simp add: wheel_wf_def ac_simps)
  note unfolded = expire_loop.simps [of off w ready] process_slot_eq [OF "1.prems"]
  consider (stop) "?c = off mod ?n" "off < ?n" | (rotate) "?n \<le> off"
    | (advance) "?c \<noteq> off mod ?n" "off < ?n" by linarith
  then show ?case
  proof cases
    case stop
    with "1.prems" show ?thesis by (simp add: unfolded)
  next
    case rotate
    with expire_rotation_ok [OF wf, of ?n ?r] cons show ?thesis by (auto simp: unfolded)
  next
    case advance
    with "1.IH" [OF _ process_slot_eq [OF "1.prems"] refl] wf cons
    show ?thesis by (auto simp: unfolded)
  qed
qed

lemma all_slots_reached:
  assumes "c < n" "i < (n :: nat)"
  shows "\<exists>j < n. (c + j) mod n = i"
proof (cases "c \<le> i")
  case True
  with assms show ?thesis by (intro exI [of _ "i - c"]) auto
next
  case False
  with assms show ?thesis by (intro exI [of _ "i + n - c"]) auto
qed

lemma no_entries_iff: "wheel_entries w = [] \<longleftrightarrow> (\<forall>i < length (slots w). slots w ! i = [])"
  by (auto simp: wheel_entries_def concat_eq_Nil_conv all_set_conv_all_nth)

lemma expire_loop_full_rotation:
  assumes "wheel_wf w" "num_slots w \<le> off"
  shows "\<exists>w' r'. expire_loop off w ready = Inr (w', r') \<and> wheel_wf w'
    \<and> wheel_entries w' = [] \<and> mset r' = mset ready + wheel_wakers w"
proof -
  let ?c = "current_slot w" and ?n = "num_slots w"
  let ?w = "w\<lparr>slots := (slots w)[?c := []], current_slot := Suc ?c mod ?n\<rparr>"
  let ?r = "ready @ map entry_waker (slots w ! ?c)"
  have wf: "wheel_wf ?w" by (rule wheel_wf_advance [OF assms(1)])
  obtain w' r' where rot: "expire_rotation ?n ?w ?r = Inr (w', r')" "wheel_wf w'"
    "num_slots w' = ?n" "mset r' + wheel_wakers w' = mset ?r + wheel_wakers ?w"
    "\<forall>j < ?n. slots w' ! ((current_slot ?w + j) mod ?n) = []"
    using expire_rotation_ok [OF wf, of ?n ?r] by auto
  have run: "expire_loop off w ready = Inr (w', r')"
    using assms rot(1) by (simp add: expire_loop.simps [of off w] process_slot_eq)
  have "wheel_entries w' = []"
    unfolding no_entries_iff
  proof (intro allI impI)
    fix i assume "i < length (slots w')"
    then have "i < ?n" using rot(2,3) by (simp add: wheel_wf_def)
    moreover have "current_slot ?w < ?n" using wf by (simp add: wheel_wf_def)
    ultimately obtain j where "j < ?n" "(current_slot ?w + j) mod ?n = i"
      using all_slots_reached by blast
    with rot(5) show "slots w' ! i = []" by blast
  qed
  moreover have "mset r' + wheel_wakers w' = mset ready + wheel_wakers w"
    using expire_loop_conserves [OF assms(1), of off ready] run by simp
  ultimately show ?thesis
    using run rot(2) by (simp add: wheel_wakers_def)
qed

section \<open>Scheduling and cancelling\<close>

lemma schedule_eq:
  assumes "wheel_wf w"
  shows "schedule at waker c w =
    (let i = slot_offset at w mod num_slots w in
     Inr (TimerId c, c + 1, w\<lparr>slots := (slots w)[i := slots w ! i
       @ [\<lparr>entry_id = TimerId c, entry_waker = waker\<rparr>]]\<rparr>))"
  using assms
  by (simp add: schedule_def timer_id_new_def fetch_add_def calculate_slot_def wheel_wf_def Let_def)

lemma wheel_wf_schedule [wf_intros]:
  "wheel_wf w \<Longrightarrow> wheel_wf (w\<lparr>slots := (slots w)[i := es]\<rparr>)"
  by (simp add: wheel_wf_def)

lemma mset_entries_append:
  assumes "i < length ss"
  shows "mset (concat (ss[i := ss ! i @ [e]])) = add_mset e (mset (concat ss))"
proof -
  have "mset (concat (ss[i := ss ! i @ [e]])) + mset (ss ! i)
      = add_mset e (mset (concat ss)) + mset (ss ! i)"
    using mset_concat_update [OF assms, of "ss ! i @ [e]"] by simp
  then show ?thesis by (rule add_right_imp_eq)
qed

lemma position_None_iff: "position P xs = None \<longleftrightarrow> (\<forall>x \<in> set xs. \<not> P x)"
  by (induction xs) auto

lemma position_SomeD: "position P xs = Some i \<Longrightarrow> i < length xs \<and> P (xs ! i)"
  by (induction xs arbitrary: i) (auto split: if_splits)

lemma position_append_last: "\<forall>x \<in> set xs. \<not> P x \<Longrightarrow> P e \<Longrightarrow> position P (xs @ [e]) = Some (length xs)"
  by (induction xs) auto

lemma mset_remove_at: "i < length xs \<Longrightarrow> add_mset (xs ! i) (mset (remove_at i xs)) = mset xs"
proof (induction xs arbitrary: i)
  case (Cons x xs)
  then show ?case by (cases i) (auto simp: remove_at_def add_mset_commute)
qed simp

lemma cancel_in_slots_present:
  "e \<in> set (concat ss) \<Longrightarrow> entry_id e = i \<Longrightarrow> fst (cancel_in_slots i ss)"
proof (induction i ss rule: cancel_in_slots.induct)
  case (2 i slot rest)
  show ?case
  proof (cases "position (\<lambda>e. entry_id e = i) slot")
    case None
    with 2 have "e \<in> set (concat rest)" by (auto simp: position_None_iff)
    with 2 None show ?thesis by (auto split: prod.split)
  qed simp
qed simp

lemma cancel_in_slots_removes:
  "cancel_in_slots i ss = (True, ss') \<Longrightarrow>
    \<exists>e. entry_id e = i \<and> mset (concat ss) = add_mset e (mset (concat ss'))"
proof (induction i ss arbitrary: ss' rule: cancel_in_slots.induct)
  case (1 i)
  then show ?case by simp
next
  case (2 i slot rest)
  show ?case
  proof (cases "position (\<lambda>e. entry_id e = i) slot")
    case None
    with 2 show ?thesis by (fastforce split: prod.splits)
  next
    case (Some pos)
    with 2 position_SomeD [OF Some] mset_remove_at [of pos slot] show ?thesis
      by (intro exI [of _ "slot ! pos"]) auto
  qed
qed

lemma cancel_in_slots_missing:
  "\<forall>e \<in> set (concat ss). entry_id e \<noteq> i \<Longrightarrow> cancel_in_slots i ss = (False, ss)"
  by (induction i ss rule: cancel_in_slots.induct) (auto simp: position_None_iff split: option.split)

lemma cancel_in_slots_append:
  assumes "k < length ss" "\<forall>e' \<in> set (concat ss). entry_id e' \<noteq> entry_id e"
  shows "cancel_in_slots (entry_id e) (ss[k := ss ! k @ [e]]) = (True, ss)"
  using assms
proof (induction ss arbitrary: k)
  case (Cons slot rest)
  show ?case
  proof (cases k)
    case 0
    with Cons.prems show ?thesis by (simp add: position_append_last remove_at_def)
  next
    case (Suc j)
    then have "cancel_in_slots (entry_id e) (rest[j := rest ! j @ [e]]) = (True, rest)"
      using Cons by simp
    moreover have "position (\<lambda>e'. entry_id e' = entry_id e) slot = None"
      using Cons.prems by (simp add: position_None_iff)
    ultimately show ?thesis using Suc by simp
  qed
qed simp

lemma wheel_wakers_schedule:
  assumes "wheel_wf w"
  shows "\<exists>i c' w'. schedule at waker c w = Inr (i, c', w') \<and> wheel_wf w'
    \<and> wheel_wakers w' = add_mset waker (wheel_wakers w)"
proof -
  let ?i = "slot_offset at w mod num_slots w"
  have "?i < length (slots w)" using assms by (simp add: wheel_wf_def)
  from mset_entries_append [OF this] wheel_wf_schedule [OF assms] show ?thesis
    by (simp add: schedule_eq [OF assms] Let_def wheel_wakers_def wheel_entries_def)
qed

lemma expire_conserves:
  assumes "wheel_wf w"
  shows "\<exists>w' r'. expire now w ready = Inr (w', r') \<and> wheel_wf w'
    \<and> mset r' + wheel_wakers w' = mset ready + wheel_wakers w"
  using assms expire_loop_conserves [OF assms] by (simp add: expire_def wheel_wf_def)

interpretation wheel: timer_queue schedule expire wheel_wf wheel_wakers
  by unfold_locales (auto intro: wheel_wakers_schedule expire_conserves)

interpretation timer_ids: id_counter timer_id_new TimerId
  by unfold_locales (auto simp: timer_id_new_def fetch_add_def)

lemma wheel_wf_new [wf_intros]: "0 < n \<Longrightarrow> res \<noteq> 0 \<Longrightarrow> wheel_wf (wheel_new n res now)"
  by (simp add: wheel_wf_def wheel_new_def)

lemma wheel_wakers_new [simp]: "wheel_wakers (wheel_new n res now) = {#}"
  by (simp add: wheel_wakers_def wheel_entries_def wheel_new_def concat_replicate_trivial)

section \<open>Offsets and times\<close>

lemma slot_offset_nat:
  assumes "as_millis (t - start_time w) < 2 ^ 64"
  shows "slot_offset t w = as_millis (t - start_time w) div unat (resolution_ms w)"
  using assms
  by (simp add: slot_offset_def saturating_duration_since_def unat_div unat_of_nat)

lemma slot_offset_mono:
  assumes "s \<le> t" "as_millis (t - start_time w) < 2 ^ 64"
  shows "slot_offset s w \<le> slot_offset t w"
proof -
  have "as_millis (s - start_time w) \<le> as_millis (t - start_time w)"
    using assms(1) by (simp add: as_millis_def div_le_mono diff_le_mono)
  with assms(2) show ?thesis by (simp add: slot_offset_nat div_le_mono)
qed

lemma slot_offset_after_tick:
  assumes "resolution_ms w \<noteq> 0" "start_time w \<le> s"
    and "s + unat (resolution_ms w) * 1000000 \<le> t" "as_millis (t - start_time w) < 2 ^ 64"
  shows "slot_offset s w < slot_offset t w"
proof -
  let ?res = "unat (resolution_ms w)"
  have res: "0 < ?res" using assms(1) by (simp add: unat_gt_0)
  have "(s - start_time w + ?res * 1000000) div 1000000 \<le> (t - start_time w) div 1000000"
    using assms(2,3) by (intro div_le_mono) simp
  then have ms: "as_millis (s - start_time w) + ?res \<le> as_millis (t - start_time w)"
    by (simp add: as_millis_def)
  then have "(as_millis (s - start_time w) + ?res) div ?res \<le> as_millis (t - start_time w) div ?res"
    by (rule div_le_mono)
  moreover have "(as_millis (s - start_time w) + ?res) div ?res
      = Suc (as_millis (s - start_time w) div ?res)"
    using res by (rule div_add_one_period)
  ultimately show ?thesis using ms assms(4) by (simp add: slot_offset_nat)
qed

lemma in_entries_iff: "e \<in> set (wheel_entries w) \<longleftrightarrow> (\<exists>i < length (slots w). e \<in> set (slots w ! i))"
  by (force simp: wheel_entries_def in_set_conv_nth)

text \<open>The entries that stay are those of the slots outside the processed range.\<close>

lemma expire_first_rotation_entries:
  assumes "wheel_wf w" "slot_offset now w < num_slots w" "current_slot w \<le> slot_offset now w"
    and "expire now w ready = Inr (w', ready')"
  shows "e \<in> set (wheel_entries w') \<longleftrightarrow>
    (\<exists>j < num_slots w. \<not> (current_slot w \<le> j \<and> j < slot_offset now w) \<and> e \<in> set (slots w ! j))"
proof -
  have len: "length (slots w) = num_slots w" using assms(1) by (simp add: wheel_wf_def)
  have "slots w' = clear_slots [current_slot w..<slot_offset now w] (slots w)"
    using assms expire_loop_first_rotation [OF assms(1,2), of ready]
    by (auto simp: expire_def wheel_wf_def slot_range_def)
  with len show ?thesis
    by (force simp: in_entries_iff nth_clear_slots split: if_splits)
qed

lemma scheduled_timer_fires_iff:
  assumes "wheel_wf w" "schedule at waker c w = Inr (i, c', w1)"
    and "\<forall>e \<in> set (wheel_entries w). entry_id e \<noteq> i"
    and "slot_offset at w < num_slots w" "current_slot w \<le> slot_offset at w"
    and "slot_offset now w < num_slots w" "current_slot w \<le> slot_offset now w"
    and "expire now w1 ready = Inr (w2, ready')"
  shows "i \<in> entry_id ` set (wheel_entries w2) \<longleftrightarrow> \<not> slot_offset at w < slot_offset now w"
proof -
  let ?k = "slot_offset at w"
  let ?e = "\<lparr>entry_id = i, entry_waker = waker\<rparr>"
  have len: "length (slots w) = num_slots w" using assms(1) by (simp add: wheel_wf_def)
  have w1: "w1 = w\<lparr>slots := (slots w)[?k := slots w ! ?k @ [?e]]\<rparr>"
    using assms(2,4) by (auto simp: schedule_eq [OF assms(1)] Let_def)
  then have wf1: "wheel_wf w1" using wheel_wf_schedule [OF assms(1)] by simp
  have old: "\<forall>e \<in> set (slots w ! j). entry_id e \<noteq> i" if "j < num_slots w" for j
    using that assms(3) len by (auto simp: in_entries_iff)
  have only: "(\<exists>e \<in> set (slots w1 ! j). entry_id e = i) \<longleftrightarrow> j = ?k" if "j < num_slots w" for j
    using old [OF that] that len w1 assms(4) by (auto simp: nth_list_update split: if_splits)
  have frame: "slot_offset now w1 = slot_offset now w" "num_slots w1 = num_slots w"
    "current_slot w1 = current_slot w"
    by (simp_all add: w1)
  have "e \<in> set (wheel_entries w2) \<longleftrightarrow> (\<exists>j < num_slots w.
      \<not> (current_slot w \<le> j \<and> j < slot_offset now w) \<and> e \<in> set (slots w1 ! j))" for e
    using expire_first_rotation_entries [OF wf1 _ _ assms(8), of e] assms(6,7)
    unfolding frame by blast
  then have "i \<in> entry_id ` set (wheel_entries w2) \<longleftrightarrow> (\<exists>j < num_slots w.
      \<not> (current_slot w \<le> j \<and> j < slot_offset now w) \<and> (\<exists>e \<in> set (slots w1 ! j). entry_id e = i))"
    unfolding image_iff by blast
  also have "\<dots> \<longleftrightarrow> \<not> ?k < slot_offset now w" using only assms(4,5) by auto
  finally show ?thesis .
qed

section \<open>Properties\<close>

text \<open>C5. For every history of scheduling and expiry calls on a wheel with at least one slot and
  a non-zero resolution, no call panics or diverges, and the wakers handed to the ready list
  together with those still in the wheel are exactly the wakers scheduled: none is lost and
  none is delivered twice.\<close>

theorem timer_history_conserves_wakers:
  assumes "0 < n" "res \<noteq> 0"
  shows "\<exists>w c' delivered.
    timer_exec schedule expire cmds (wheel_new n res t0) c [] = Inr (w, c', delivered)
    \<and> mset delivered + wheel_wakers w = scheduled cmds"
  using wheel.exec_conserves [OF wheel_wf_new [OF assms]] by fastforce

theorem timer_history_conserves_wakers_witness:
  "\<exists>w c' delivered. timer_exec schedule expire
      [TSchedule 1500000 (7::nat), TExpire 2500000, TSchedule 9000000 8]
      (wheel_new 4 1 0) 1 [] = Inr (w, c', delivered)
    \<and> mset delivered + wheel_wakers w
      = scheduled [TSchedule 1500000 (7::nat), TExpire 2500000, TSchedule 9000000 8]"
  by (rule timer_history_conserves_wakers) simp_all

text \<open>During the first rotation of the wheel an expiry call at time \<open>now\<close> fires exactly the
  timers of the slots from the current one up to, and excluding, the slot of \<open>now\<close>, in slot
  order and in scheduling order within a slot; all other slots are unchanged and the wheel
  stands at the slot of \<open>now\<close>.\<close>

theorem expire_first_rotation_exact:
  assumes "wheel_wf w" "slot_offset now w < num_slots w"
  shows "expire now w ready =
    (let range = slot_range (num_slots w) (current_slot w) (slot_offset now w) in
     Inr (w\<lparr>slots := clear_slots range (slots w), current_slot := slot_offset now w\<rparr>,
          ready @ wakers_in (slots w) range))"
  using assms expire_loop_first_rotation [OF assms] by (simp add: expire_def wheel_wf_def Let_def)

theorem expire_first_rotation_exact_witness:
  "expire 2500000 (wheel_new 4 1 0 \<lparr>slots := [[\<lparr>entry_id = TimerId 1, entry_waker = (7::nat)\<rparr>], [],
      [\<lparr>entry_id = TimerId 2, entry_waker = 8\<rparr>], []]\<rparr>) [] =
   Inr (wheel_new 4 1 0 \<lparr>slots := [[], [], [\<lparr>entry_id = TimerId 2, entry_waker = 8\<rparr>], []],
      current_slot := 2\<rparr>, [7])"
  by (subst expire_first_rotation_exact)
    (simp_all add: wheel_wf_def wheel_new_def slot_offset_def saturating_duration_since_def
      as_millis_def slot_range_def upt_rec clear_slots_def wakers_in_def)



text \<open>C26. Once the wheel is older than one rotation, every expiry call fires every timer in the
  wheel at once, whatever its deadline.\<close>

theorem expire_after_rotation_fires_everything:
  assumes "wheel_wf w" "num_slots w \<le> slot_offset now w"
  shows "\<exists>w' r'. expire now w ready = Inr (w', r') \<and> wheel_entries w' = []
    \<and> mset r' = mset ready + wheel_wakers w"
  using expire_loop_full_rotation [OF assms, of ready] assms by (auto simp: expire_def wheel_wf_def)

theorem expire_after_rotation_fires_everything_witness:
  "\<exists>w' r'. expire 5000000 (wheel_new 4 1 0 \<lparr>slots :=
      [[], [], [\<lparr>entry_id = TimerId 2, entry_waker = (8::nat)\<rparr>], []]\<rparr>) [] = Inr (w', r')
    \<and> wheel_entries w' = [] \<and> mset r' = {#8#}"
  using expire_after_rotation_fires_everything [of "wheel_new 4 1 0 \<lparr>slots :=
      [[], [], [\<lparr>entry_id = TimerId 2, entry_waker = (8::nat)\<rparr>], []]\<rparr>" 5000000 "[]"]
  by (simp add: wheel_wf_def wheel_new_def slot_offset_def saturating_duration_since_def
      as_millis_def wheel_wakers_def wheel_entries_def)

text \<open>Cancelling a freshly scheduled timer succeeds and restores the wheel exactly.\<close>

theorem cancel_undoes_schedule:
  assumes "wheel_wf w" "schedule at waker c w = Inr (i, c', w1)"
    and "\<forall>e \<in> set (wheel_entries w). entry_id e \<noteq> i"
  shows "timer_cancel i w1 = (True, w)"
  using assms cancel_in_slots_append [of "slot_offset at w mod num_slots w" "slots w"
      "\<lparr>entry_id = i, entry_waker = waker\<rparr>"]
  by (auto simp: timer_cancel_def schedule_eq [OF assms(1)] Let_def wheel_wf_def wheel_entries_def)

theorem cancel_undoes_schedule_witness:
  "\<exists>c' w1. schedule 1000000 (7::nat) 5 (wheel_new 4 1 0) = Inr (TimerId 5, c', w1)
    \<and> timer_cancel (TimerId 5) w1 = (True, wheel_new 4 1 0)"
proof -
  have wf: "wheel_wf (wheel_new 4 1 0 :: nat timer_wheel)" by (rule wheel_wf_new) simp_all
  obtain c' w1 where s: "schedule 1000000 7 5 (wheel_new 4 1 0 :: nat timer_wheel)
      = Inr (TimerId 5, c', w1)"
    by (simp add: schedule_eq [OF wf] Let_def)
  with cancel_undoes_schedule [OF wf s] show ?thesis
    by (auto simp: wheel_entries_def wheel_new_def)
qed

text \<open>\<open>cancel\<close> reports success exactly when a timer with that identifier is in the wheel;
  on success exactly one such entry is removed and on failure the wheel is unchanged.\<close>

theorem cancel_removes_one:
  "(if \<exists>e \<in> set (wheel_entries w). entry_id e = i
    then \<exists>w' e. timer_cancel i w = (True, w') \<and> entry_id e = i
      \<and> mset (wheel_entries w) = add_mset e (mset (wheel_entries w'))
    else timer_cancel i w = (False, w))"
proof (cases "\<exists>e \<in> set (wheel_entries w). entry_id e = i")
  case True
  then have "fst (cancel_in_slots i (slots w))"
    unfolding wheel_entries_def by (blast intro: cancel_in_slots_present)
  then obtain ss where ss: "cancel_in_slots i (slots w) = (True, ss)"
    by (cases "cancel_in_slots i (slots w)") auto
  from cancel_in_slots_removes [OF ss] True show ?thesis
    by (auto simp: timer_cancel_def ss wheel_entries_def)
next
  case False
  then show ?thesis
    using cancel_in_slots_missing [of "slots w" i] by (auto simp: timer_cancel_def wheel_entries_def)
qed

text \<open>The identifiers issued by fewer than \<open>2 ^ 64\<close> consecutive calls of \<open>TimerId::new\<close> are
  pairwise distinct.\<close>

theorem timer_ids_distinct:
  "n \<le> 2 ^ 64 \<Longrightarrow> distinct (issue timer_id_new n TIMER_COUNTER_init)"
  by (rule timer_ids.issue_distinct)

theorem timer_ids_distinct_witness: "distinct (issue timer_id_new 3 TIMER_COUNTER_init)"
  by (rule timer_ids_distinct) simp

end
