(* ===== verification/Crossbeam.thy ===== *)
theory Crossbeam
  imports Prelude
begin

text \<open>
  The two third-party data structures through which the runtime communicates:
  \<open>crossbeam_queue::SegQueue\<close> and the bounded channels of \<open>crossbeam_channel\<close>.  Their code is
  not part of the repository, so they are parameters: a record of operations that the model
  calls, and a locale with the documented laws that the proofs use.  A queue is an unbounded
  FIFO queue.  A channel is a bounded FIFO buffer with a number of senders and of receivers;
  its laws say that the operations act on this view of it as the reference operations
  \<open>view_send\<close>, \<open>view_try_recv\<close>, \<open>view_drop_tx\<close> do.
\<close>

section \<open>SegQueue\<close>

record ('q, 'a) queue_ops =
  q_new :: 'q
  q_push :: "'q \<Rightarrow> 'a \<Rightarrow> 'q"
  q_pop :: "'q \<Rightarrow> 'a option \<times> 'q"
  q_is_empty :: "'q \<Rightarrow> bool"

primrec q_push_all :: "('q, 'a) queue_ops \<Rightarrow> 'q \<Rightarrow> 'a list \<Rightarrow> 'q" where
  "q_push_all Q q [] = q"
| "q_push_all Q q (x # xs) = q_push_all Q (q_push Q q x) xs"

locale seg_queue =
  fixes Q :: "('q, 'a) queue_ops"
    and items :: "'q \<Rightarrow> 'a list"
  assumes items_new: "items (q_new Q) = []"
    and items_push: "items (q_push Q q x) = items q @ [x]"
    and pop_empty: "items q = [] \<Longrightarrow> fst (q_pop Q q) = None \<and> items (snd (q_pop Q q)) = []"
    and pop_first: "items q = x # xs \<Longrightarrow> fst (q_pop Q q) = Some x \<and> items (snd (q_pop Q q)) = xs"
    and is_empty_iff: "q_is_empty Q q \<longleftrightarrow> items q = []"
begin

lemma items_push_all [simp]: "items (q_push_all Q q xs) = items q @ xs"
  by (induction xs arbitrary: q) (simp_all add: items_push)

lemma pop_cases:
  obtains (empty) q' where "q_pop Q q = (None, q')" "items q = []" "items q' = []"
  | (item) x xs q' where "q_pop Q q = (Some x, q')" "items q = x # xs" "items q' = xs"
proof (cases "items q")
  case Nil
  with pop_empty [OF Nil] that(1) show ?thesis by (cases "q_pop Q q") auto
next
  case (Cons x xs)
  with pop_first [OF Cons] that(2) show ?thesis by (cases "q_pop Q q") auto
qed

lemma pop_NoneD: "q_pop Q q = (None, q') \<Longrightarrow> items q = [] \<and> items q' = []"
  by (cases rule: pop_cases [of q]) auto

lemma pop_SomeD: "q_pop Q q = (Some x, q') \<Longrightarrow> items q = x # items q'"
  by (cases rule: pop_cases [of q]) auto

end

text \<open>A list with its newest element last satisfies the laws.\<close>

definition list_queue :: "('a list, 'a) queue_ops" where
  "list_queue = \<lparr>q_new = [], q_push = (\<lambda>q x. q @ [x]),
     q_pop = (\<lambda>q. case q of [] \<Rightarrow> (None, []) | x # xs \<Rightarrow> (Some x, xs)),
     q_is_empty = (\<lambda>q. q = [])\<rparr>"

interpretation list_queue: seg_queue list_queue "\<lambda>q. q"
  by unfold_locales (auto simp: list_queue_def)

section \<open>Bounded channels\<close>

datatype send_result = SendOk | SendDisconnected | SendBlocked

datatype 'a try_recv = RecvOk 'a | RecvEmpty | RecvDisconnected

record ('c, 'a) chan_ops =
  ch_bounded :: "usize \<Rightarrow> 'c"
  ch_send :: "'c \<Rightarrow> 'a \<Rightarrow> send_result \<times> 'c"
  ch_try_recv :: "'c \<Rightarrow> 'a try_recv \<times> 'c"
  ch_drop_tx :: "'c \<Rightarrow> 'c"
  ch_drop_rx :: "'c \<Rightarrow> 'c"

record 'a chan_view =
  queued :: "'a list"
  chan_cap :: usize
  senders :: nat
  receivers :: nat

text \<open>\<open>send\<close> blocks on a full channel, fails when every receiver is gone, and otherwise
  enqueues.  \<open>try_recv\<close> reports disconnection only when the channel is empty.\<close>

definition view_send :: "'a chan_view \<Rightarrow> 'a \<Rightarrow> send_result \<times> 'a chan_view" where
  "view_send v x =
    (if receivers v = 0 then (SendDisconnected, v)
     else if length (queued v) < chan_cap v then (SendOk, v\<lparr>queued := queued v @ [x]\<rparr>)
     else (SendBlocked, v))"

definition view_try_recv :: "'a chan_view \<Rightarrow> 'a try_recv \<times> 'a chan_view" where
  "view_try_recv v =
    (case queued v of
       x # xs \<Rightarrow> (RecvOk x, v\<lparr>queued := xs\<rparr>)
     | [] \<Rightarrow> (if senders v = 0 then RecvDisconnected else RecvEmpty, v))"

definition view_drop_tx :: "'a chan_view \<Rightarrow> 'a chan_view" where
  "view_drop_tx v = v\<lparr>senders := senders v - 1\<rparr>"

definition view_drop_rx :: "'a chan_view \<Rightarrow> 'a chan_view" where
  "view_drop_rx v = v\<lparr>receivers := receivers v - 1,
     queued := (if receivers v = 1 then [] else queued v)\<rparr>"

definition view_bounded :: "usize \<Rightarrow> 'a chan_view" where
  "view_bounded n = \<lparr>queued = [], chan_cap = n, senders = 1, receivers = 1\<rparr>"

lemmas view_defs = view_send_def view_try_recv_def view_drop_tx_def view_drop_rx_def view_bounded_def

locale channel =
  fixes C :: "('c, 'a) chan_ops"
    and view :: "'c \<Rightarrow> 'a chan_view"
  assumes view_ch_bounded: "view (ch_bounded C n) = view_bounded n"
    and view_ch_send: "map_prod id view (ch_send C c x) = view_send (view c) x"
    and view_ch_try_recv: "map_prod id view (ch_try_recv C c) = view_try_recv (view c)"
    and view_ch_drop_tx: "view (ch_drop_tx C c) = view_drop_tx (view c)"
    and view_ch_drop_rx: "view (ch_drop_rx C c) = view_drop_rx (view c)"
begin

lemma view_snd_send: "view (snd (ch_send C c x)) = snd (view_send (view c) x)"
  by (metis view_ch_send snd_map_prod)

lemma fst_send: "fst (ch_send C c x) = fst (view_send (view c) x)"
  by (metis view_ch_send fst_map_prod id_apply)

lemma view_snd_try_recv: "view (snd (ch_try_recv C c)) = snd (view_try_recv (view c))"
  by (metis view_ch_try_recv snd_map_prod)

lemma fst_try_recv: "fst (ch_try_recv C c) = fst (view_try_recv (view c))"
  by (metis view_ch_try_recv fst_map_prod id_apply)

lemmas view_simps = view_ch_bounded view_snd_send fst_send view_snd_try_recv fst_try_recv
  view_ch_drop_tx view_ch_drop_rx

end

text \<open>The view itself, with the reference operations, satisfies the laws.\<close>

definition view_channel :: "('a chan_view, 'a) chan_ops" where
  "view_channel = \<lparr>ch_bounded = view_bounded, ch_send = view_send, ch_try_recv = view_try_recv,
     ch_drop_tx = view_drop_tx, ch_drop_rx = view_drop_rx\<rparr>"

interpretation view_channel: channel view_channel "\<lambda>v. v"
  by unfold_locales (auto simp: view_channel_def map_prod_def split: prod.split)

end
