(* ===== verification/Waker.thy ===== *)
theory Waker
  imports Crossbeam
begin

text \<open>
  Task identifiers and wakers of \<open>src/waker.rs\<close>.

  \<open>MinissWaker\<close> is reference counted by hand: the data pointer of the raw waker owns one
  strong count of an \<open>Arc\<close>, and the four functions of the vtable convert it back and forth.
  The model of one such allocation keeps the strong count, the task it wakes and the run queue
  it pushes to; touching a freed allocation is the result \<open>None\<close>.  The schedulers, which only
  see wakers through \<open>wake\<close>, use the type \<open>waker\<close>.
\<close>

datatype task_id = TaskId u64

fun task_id_word :: "task_id \<Rightarrow> u64" where
  "task_id_word (TaskId n) = n"

fun cpu_id :: "task_id \<Rightarrow> usize" where
  "cpu_id (TaskId n) = unat (drop_bit 32 n)"

section \<open>The reference-counted allocation\<close>

record 'q arc_waker =
  aw_task :: task_id
  aw_queue :: 'q
  strong :: nat

definition create_waker :: "task_id \<Rightarrow> 'q \<Rightarrow> 'q arc_waker" where
  "create_waker t q = \<lparr>aw_task = t, aw_queue = q, strong = 1\<rparr>"

text \<open>\<open>Arc::clone\<close> and the drop of an \<open>Arc\<close>; \<open>Arc::from_raw\<close>, \<open>Arc::into_raw\<close> and
  \<open>mem::forget\<close> leave the count alone.\<close>

definition arc_clone :: "'q arc_waker \<Rightarrow> 'q arc_waker option" where
  "arc_clone a = (if strong a = 0 then None else Some (a\<lparr>strong := strong a + 1\<rparr>))"

definition arc_drop :: "'q arc_waker \<Rightarrow> 'q arc_waker option" where
  "arc_drop a = (if strong a = 0 then None else Some (a\<lparr>strong := strong a - 1\<rparr>))"

definition wake_impl :: "('q, task_id) queue_ops \<Rightarrow> 'q arc_waker \<Rightarrow> 'q arc_waker option" where
  "wake_impl Q a =
    (if strong a = 0 then None else Some (a\<lparr>aw_queue := q_push Q (aw_queue a) (aw_task a)\<rparr>))"

definition waker_clone :: "'q arc_waker \<Rightarrow> 'q arc_waker option" where
  "waker_clone a = arc_clone a"

definition waker_wake :: "('q, task_id) queue_ops \<Rightarrow> 'q arc_waker \<Rightarrow> 'q arc_waker option" where
  "waker_wake Q a = (case wake_impl Q a of None \<Rightarrow> None | Some a' \<Rightarrow> arc_drop a')"

definition waker_wake_by_ref :: "('q, task_id) queue_ops \<Rightarrow> 'q arc_waker \<Rightarrow> 'q arc_waker option" where
  "waker_wake_by_ref Q a = wake_impl Q a"

definition waker_drop :: "'q arc_waker \<Rightarrow> 'q arc_waker option" where
  "waker_drop a = arc_drop a"

text \<open>Calls of the vtable, and the number of \<open>Waker\<close> handles that safe code holds: a clone
  adds one, \<open>wake\<close> and the drop of a handle consume one.\<close>

datatype vtable_call = VClone | VWake | VWakeByRef | VDrop

fun vtable_step ::
  "('q, task_id) queue_ops \<Rightarrow> vtable_call \<Rightarrow> 'q arc_waker \<Rightarrow> 'q arc_waker option" where
  "vtable_step Q VClone a = waker_clone a"
| "vtable_step Q VWake a = waker_wake Q a"
| "vtable_step Q VWakeByRef a = waker_wake_by_ref Q a"
| "vtable_step Q VDrop a = waker_drop a"

primrec vtable_run ::
  "('q, task_id) queue_ops \<Rightarrow> vtable_call list \<Rightarrow> 'q arc_waker \<Rightarrow> 'q arc_waker option" where
  "vtable_run Q [] a = Some a"
| "vtable_run Q (c # cs) a =
    (case vtable_step Q c a of None \<Rightarrow> None | Some a' \<Rightarrow> vtable_run Q cs a')"

fun handles_after :: "nat \<Rightarrow> vtable_call list \<Rightarrow> nat option" where
  "handles_after n [] = Some n"
| "handles_after 0 (c # cs) = None"
| "handles_after (Suc n) (c # cs) =
    handles_after (case c of VClone \<Rightarrow> Suc (Suc n) | VWakeByRef \<Rightarrow> Suc n | _ \<Rightarrow> n) cs"

fun wake_count :: "vtable_call list \<Rightarrow> nat" where
  "wake_count [] = 0"
| "wake_count (c # cs) = (if c = VWake \<or> c = VWakeByRef then Suc (wake_count cs) else wake_count cs)"

section \<open>Wakers as the schedulers see them\<close>

text \<open>A waker pushes its task on the run queue, or does nothing (\<open>dummy_waker\<close> and the
  \<open>noop_waker\<close> of the futures crate).\<close>

datatype waker = TaskWaker task_id | DummyWaker

definition dummy_waker :: waker where
  "dummy_waker = DummyWaker"

fun wake :: "('q, task_id) queue_ops \<Rightarrow> waker \<Rightarrow> 'q \<Rightarrow> 'q" where
  "wake Q (TaskWaker t) q = q_push Q q t"
| "wake Q DummyWaker q = q"

primrec wake_all :: "('q, task_id) queue_ops \<Rightarrow> waker list \<Rightarrow> 'q \<Rightarrow> 'q" where
  "wake_all Q [] q = q"
| "wake_all Q (w # ws) q = wake_all Q ws (wake Q w q)"

fun woken_task :: "waker \<Rightarrow> task_id list" where
  "woken_task (TaskWaker t) = [t]"
| "woken_task DummyWaker = []"

definition woken :: "waker list \<Rightarrow> task_id list" where
  "woken ws = concat (map woken_task ws)"

section \<open>Lemmas\<close>

lemmas arc_defs = arc_clone_def arc_drop_def wake_impl_def waker_clone_def waker_wake_def
  waker_wake_by_ref_def waker_drop_def

lemma woken_simps [simp]:
  "woken [] = []" "woken (w # ws) = woken_task w @ woken ws" "woken (ws @ ws') = woken ws @ woken ws'"
  by (simp_all add: woken_def)

locale run_queue = seg_queue Q items
  for Q :: "('q, task_id) queue_ops" and items :: "'q \<Rightarrow> task_id list"
begin

lemma items_wake: "items (wake Q w q) = items q @ woken_task w"
  by (cases w) (simp_all add: items_push)

lemma items_wake_all [simp]: "items (wake_all Q ws q) = items q @ woken ws"
  by (induction ws arbitrary: q) (simp_all add: items_wake)

lemma vtable_run_balanced:
  assumes "handles_after (strong a) cs = Some n"
  shows "\<exists>a'. vtable_run Q cs a = Some a' \<and> strong a' = n \<and> aw_task a' = aw_task a
    \<and> items (aw_queue a') = items (aw_queue a) @ replicate (wake_count cs) (aw_task a)"
  using assms
proof (induction cs arbitrary: a)
  case (Cons c cs)
  then obtain m where m: "strong a = Suc m" by (cases "strong a") auto
  obtain a1 where step: "vtable_step Q c a = Some a1" "aw_task a1 = aw_task a"
    "handles_after (strong a1) cs = Some n"
    "items (aw_queue a1) = items (aw_queue a) @ replicate (wake_count [c]) (aw_task a)"
    using Cons.prems m by (cases c) (auto simp: arc_defs items_push)
  from Cons.IH [OF step(3)] step show ?case by auto
qed simp

end

interpretation list_run_queue: run_queue list_queue "\<lambda>q. q"
  by unfold_locales

section \<open>Properties\<close>

text \<open>C14. Memory safety of the hand-written vtable.  For every sequence of calls that safe code
  can make on the handles of one waker (it never uses more handles than it holds), no call
  touches a freed allocation, the strong count always equals the number of live handles, so
  that the allocation is freed exactly when the last handle is gone, and the run queue has
  received the task once per \<open>wake\<close> or \<open>wake_by_ref\<close>.\<close>

theorem waker_vtable_balanced:
  assumes "seg_queue Q items" "handles_after 1 cs = Some n"
  shows "\<exists>a. vtable_run Q cs (create_waker t q) = Some a \<and> strong a = n
    \<and> items (aw_queue a) = items q @ replicate (wake_count cs) t"
  using run_queue.vtable_run_balanced [of Q items "create_waker t q" cs n] assms
  by (auto simp: run_queue_def create_waker_def)

theorem waker_vtable_balanced_witness:
  "\<exists>a. vtable_run list_queue [VClone, VWakeByRef, VWake, VDrop] (create_waker (TaskId 42) [])
      = Some a \<and> strong a = 0 \<and> aw_queue a = [] @ replicate 2 (TaskId 42)"
  using waker_vtable_balanced [of list_queue "\<lambda>q. q" "[VClone, VWakeByRef, VWake, VDrop]" 0
      "TaskId 42" "[]"] list_queue.seg_queue_axioms
  by (simp add: numeral_2_eq_2)

end
