(* ===== verification/Task.thy ===== *)
theory Task
  imports Waker
begin

text \<open>
  Futures, tasks and join handles: \<open>src/task.rs\<close>, and the asynchronous wrapper that
  \<open>Executor::spawn\<close> and \<open>Cpu::spawn\<close> put around a user future.

  A user future is code outside the repository.  It is a parameter: a type of states, a poll
  function and a drop function.  Polling may change an outside world (everything the future
  shares with other code), may call wakers, and returns \<open>Ready\<close> or \<open>Pending\<close> or panics with a
  payload.  Result channels live in a store and are referred to by index, because a task and
  its join handle share one.
\<close>

section \<open>Errors and user futures\<close>

datatype task_error = TaskPanic nat | Cancelled

type_synonym 'v task_result = "task_error + 'v"

record ('f, 'v, 'w) future_ops =
  fo_poll :: "waker \<Rightarrow> 'f \<Rightarrow> 'w \<Rightarrow> (nat + 'v poll) \<times> 'f \<times> 'w \<times> waker list"
  fo_drop :: "'f \<Rightarrow> 'w \<Rightarrow> 'w \<times> waker list"

section \<open>The store of result channels\<close>

record 'c chan_store =
  cells :: "nat \<rightharpoonup> 'c"
  next_cell :: nat

definition store_empty :: "'c chan_store" where
  "store_empty = \<lparr>cells = Map.empty, next_cell = 0\<rparr>"

definition store_alloc :: "'c \<Rightarrow> 'c chan_store \<Rightarrow> nat \<times> 'c chan_store" where
  "store_alloc c st =
    (next_cell st, st\<lparr>cells := (cells st)(next_cell st \<mapsto> c), next_cell := Suc (next_cell st)\<rparr>)"

definition store_update :: "nat \<Rightarrow> ('c \<Rightarrow> 'c) \<Rightarrow> 'c chan_store \<Rightarrow> 'c chan_store" where
  "store_update r f st = st\<lparr>cells := (cells st)(r := map_option f (cells st r))\<rparr>"

section \<open>Tasks\<close>

text \<open>A boxed future of a task: a user future as it was submitted, or the wrapper
  \<open>async move { let result = future.await; let _ = sender.send(Ok(result)); }\<close> that owns the
  user future and the sender.  \<open>Completed\<close> is a wrapper that has run to its end; polling it
  again panics.\<close>

datatype 'f task_future = Raw 'f | Wrapped 'f nat | Completed

record 'f task =
  t_id :: task_id
  t_future :: "'f task_future"

definition task_new :: "task_id \<Rightarrow> 'f task_future \<Rightarrow> 'f task" where
  "task_new i f = \<lparr>t_id = i, t_future = f\<rparr>"

definition from_pinned :: "task_id \<Rightarrow> 'f task_future \<Rightarrow> 'f task" where
  "from_pinned i f = \<lparr>t_id = i, t_future = f\<rparr>"

text \<open>The end of the wrapper: the result is sent (a failed send is ignored) and the sender is
  dropped.  A send on a full channel would block the thread
  for ever; that is the result \<open>None\<close>.\<close>

definition wrapper_complete ::
  "('c, 'v task_result) chan_ops \<Rightarrow> nat \<Rightarrow> 'v \<Rightarrow> 'c chan_store \<Rightarrow> 'c chan_store option" where
  "wrapper_complete C r v st =
    (case cells st r of
       None \<Rightarrow> Some st
     | Some c \<Rightarrow>
         (case ch_send C c (Inr v) of
            (SendBlocked, _) \<Rightarrow> None
          | (_, c') \<Rightarrow> Some (store_update r (\<lambda>_. ch_drop_tx C c') st)))"

definition resumed_after_completion :: nat where
  "resumed_after_completion = 0"

text \<open>\<open>Task::poll\<close>.  When the user future of a wrapper is ready it is dropped before the
  result is sent.  A panic unwinds through the wrapper; what the wrapper owned is dropped
  together with the task.\<close>

fun task_poll ::
  "('f, 'v, 'w) future_ops \<Rightarrow> ('c, 'v task_result) chan_ops \<Rightarrow> waker \<Rightarrow> 'f task
   \<Rightarrow> 'c chan_store \<Rightarrow> 'w
   \<Rightarrow> ((nat + unit poll) \<times> 'f task \<times> 'c chan_store \<times> 'w \<times> waker list) option" where
  "task_poll F C wk t st w =
    (case t_future t of
       Raw f \<Rightarrow>
         (case fo_poll F wk f w of
            (Inl p, f', w', ws) \<Rightarrow> Some (Inl p, t\<lparr>t_future := Raw f'\<rparr>, st, w', ws)
          | (Inr Pending, f', w', ws) \<Rightarrow> Some (Inr Pending, t\<lparr>t_future := Raw f'\<rparr>, st, w', ws)
          | (Inr (Ready v), f', w', ws) \<Rightarrow>
              Some (Inr (Ready ()), t\<lparr>t_future := Raw f'\<rparr>, st, w', ws))
     | Wrapped f r \<Rightarrow>
         (case fo_poll F wk f w of
            (Inl p, f', w', ws) \<Rightarrow> Some (Inl p, t\<lparr>t_future := Wrapped f' r\<rparr>, st, w', ws)
          | (Inr Pending, f', w', ws) \<Rightarrow>
              Some (Inr Pending, t\<lparr>t_future := Wrapped f' r\<rparr>, st, w', ws)
          | (Inr (Ready v), f', w', ws) \<Rightarrow>
              (let (w'', ws') = fo_drop F f' w' in
               case wrapper_complete C r v st of
                 None \<Rightarrow> None
               | Some st' \<Rightarrow>
                   Some (Inr (Ready ()), t\<lparr>t_future := Completed\<rparr>, st', w'', ws @ ws')))
     | Completed \<Rightarrow> Some (Inl resumed_after_completion, t, st, w, []))"

text \<open>Dropping a task drops the user future and, for a wrapper that has not completed, the
  sender.\<close>

fun task_drop ::
  "('f, 'v, 'w) future_ops \<Rightarrow> ('c, 'v task_result) chan_ops \<Rightarrow> 'f task
   \<Rightarrow> 'c chan_store \<Rightarrow> 'w \<Rightarrow> 'c chan_store \<times> 'w \<times> waker list" where
  "task_drop F C t st w =
    (case t_future t of
       Raw f \<Rightarrow> (let (w', ws) = fo_drop F f w in (st, w', ws))
     | Wrapped f r \<Rightarrow>
         (let (w', ws) = fo_drop F f w in (store_update r (ch_drop_tx C) st, w', ws))
     | Completed \<Rightarrow> (st, w, []))"

section \<open>Join handles\<close>

record join_handle =
  jh_task_id :: task_id
  jh_receiver :: nat
  jh_waker :: "waker option"

definition join_handle_new :: "task_id \<Rightarrow> nat \<Rightarrow> join_handle" where
  "join_handle_new i r = \<lparr>jh_task_id = i, jh_receiver = r, jh_waker = None\<rparr>"

definition jh_try_recv ::
  "('c, 'a) chan_ops \<Rightarrow> join_handle \<Rightarrow> 'c chan_store \<Rightarrow> 'a try_recv \<times> 'c chan_store" where
  "jh_try_recv C h st =
    (case cells st (jh_receiver h) of
       None \<Rightarrow> (RecvDisconnected, st)
     | Some c \<Rightarrow> (let (r, c') = ch_try_recv C c in (r, store_update (jh_receiver h) (\<lambda>_. c') st)))"

definition jh_poll ::
  "('c, 'v task_result) chan_ops \<Rightarrow> waker \<Rightarrow> join_handle \<Rightarrow> 'c chan_store
   \<Rightarrow> 'v task_result poll \<times> join_handle \<times> 'c chan_store" where
  "jh_poll C wk h st =
    (case jh_try_recv C h st of
       (RecvOk result, st') \<Rightarrow> (Ready result, h, st')
     | (RecvEmpty, st') \<Rightarrow> (Pending, h\<lparr>jh_waker := Some wk\<rparr>, st')
     | (RecvDisconnected, st') \<Rightarrow> (Ready (Inl Cancelled), h, st'))"

definition jh_is_finished ::
  "('c, 'a) chan_ops \<Rightarrow> join_handle \<Rightarrow> 'c chan_store \<Rightarrow> bool \<times> 'c chan_store" where
  "jh_is_finished C h st =
    (case jh_try_recv C h st of
       (RecvOk _, st') \<Rightarrow> (True, st')
     | (RecvDisconnected, st') \<Rightarrow> (True, st')
     | (RecvEmpty, st') \<Rightarrow> (False, st'))"

text \<open>\<open>JoinHandle::cancel\<close> logs and always succeeds; its only effect is that of the call of
  \<open>is_finished\<close>.\<close>

definition jh_cancel :: "('c, 'a) chan_ops \<Rightarrow> join_handle \<Rightarrow> 'c chan_store \<Rightarrow> 'c chan_store" where
  "jh_cancel C h st = snd (jh_is_finished C h st)"

section \<open>States of a result channel\<close>

definition task_ref :: "'f task \<Rightarrow> nat option" where
  "task_ref t = (case t_future t of Wrapped f r \<Rightarrow> Some r | _ \<Rightarrow> None)"

text \<open>The sender is alive and nothing was sent; the sender is gone.\<close>

definition chan_open :: "('c \<Rightarrow> 'a chan_view) \<Rightarrow> 'c chan_store \<Rightarrow> nat \<Rightarrow> bool" where
  "chan_open view st r \<longleftrightarrow> (\<exists>c. cells st r = Some c \<and> queued (view c) = []
    \<and> chan_cap (view c) = 1 \<and> senders (view c) = 1)"

definition chan_closed :: "('c \<Rightarrow> 'a chan_view) \<Rightarrow> 'c chan_store \<Rightarrow> nat \<Rightarrow> bool" where
  "chan_closed view st r \<longleftrightarrow> (\<exists>c. cells st r = Some c \<and> senders (view c) = 0)"

text \<open>The channel is closed with exactly these results left to receive.\<close>

definition chan_holds :: "('c \<Rightarrow> 'a chan_view) \<Rightarrow> 'c chan_store \<Rightarrow> nat \<Rightarrow> 'a list \<Rightarrow> bool" where
  "chan_holds view st r xs \<longleftrightarrow>
    (\<exists>c. cells st r = Some c \<and> senders (view c) = 0 \<and> queued (view c) = xs)"

definition receiver_alive :: "('c \<Rightarrow> 'a chan_view) \<Rightarrow> 'c chan_store \<Rightarrow> nat \<Rightarrow> bool" where
  "receiver_alive view st r \<longleftrightarrow> (\<exists>c. cells st r = Some c \<and> receivers (view c) \<noteq> 0)"

definition store_wf :: "'c chan_store \<Rightarrow> bool" where
  "store_wf st \<longleftrightarrow> dom (cells st) \<subseteq> {..<next_cell st}"

lemmas chan_state_defs = chan_open_def chan_closed_def chan_holds_def receiver_alive_def

lemma store_update_cells [simp]:
  "cells (store_update r f st) r' = (if r' = r then map_option f (cells st r) else cells st r')"
  "next_cell (store_update r f st) = next_cell st"
  by (simp_all add: store_update_def)

lemma store_alloc_eq:
  "store_alloc c st = (next_cell st,
    \<lparr>cells = (cells st)(next_cell st \<mapsto> c), next_cell = Suc (next_cell st)\<rparr>)"
  by (cases st) (simp add: store_alloc_def)

lemma store_wf_update [wf_intros]: "store_wf st \<Longrightarrow> store_wf (store_update r f st)"
  by (auto simp: store_wf_def dom_def split: if_splits)

lemma store_wf_empty [wf_intros]: "store_wf store_empty"
  by (simp add: store_wf_def store_empty_def)

locale result_channel = channel C view
  for C :: "('c, 'v task_result) chan_ops" and view :: "'c \<Rightarrow> 'v task_result chan_view"
begin

lemma wrapper_complete_open:
  assumes "chan_open view st r"
  shows "\<exists>c. wrapper_complete C r v st = Some (store_update r (\<lambda>_. c) st)
    \<and> senders (view c) = 0
    \<and> queued (view c) = (if receiver_alive view st r then [Inr v] else [])"
proof -
  obtain c where c: "cells st r = Some c" "queued (view c) = []" "chan_cap (view c) = 1"
    "senders (view c) = 1"
    using assms by (auto simp: chan_open_def)
  obtain res c' where send: "ch_send C c (Inr v) = (res, c')" by (cases "ch_send C c (Inr v)")
  then have res: "res = fst (view_send (view c) (Inr v))"
    and c': "view c' = snd (view_send (view c) (Inr v))"
    using fst_send [of c "Inr v"] view_snd_send [of c "Inr v"] by simp_all
  show ?thesis
    using assms c send res c'
    by (auto simp: wrapper_complete_def view_send_def view_drop_tx_def view_ch_drop_tx
        receiver_alive_def)
qed

lemma drop_tx_open:
  assumes "chan_open view st r"
  shows "chan_holds view (store_update r (ch_drop_tx C) st) r []"
  using assms by (auto simp: chan_state_defs view_ch_drop_tx view_drop_tx_def)

text \<open>What a join handle sees.\<close>

lemma jh_try_recv_open:
  assumes "chan_open view st (jh_receiver h)"
  shows "fst (jh_try_recv C h st) = RecvEmpty"
proof -
  obtain c where c: "cells st (jh_receiver h) = Some c" "queued (view c) = []" "senders (view c) = 1"
    using assms by (auto simp: chan_open_def)
  then have "fst (ch_try_recv C c) = RecvEmpty"
    by (simp add: fst_try_recv view_try_recv_def)
  with c show ?thesis by (auto simp: jh_try_recv_def split: prod.splits)
qed

lemma jh_try_recv_holds:
  assumes "chan_holds view st (jh_receiver h) xs"
  shows "case xs of
      [] \<Rightarrow> fst (jh_try_recv C h st) = RecvDisconnected
        \<and> chan_holds view (snd (jh_try_recv C h st)) (jh_receiver h) []
    | x # ys \<Rightarrow> fst (jh_try_recv C h st) = RecvOk x
        \<and> chan_holds view (snd (jh_try_recv C h st)) (jh_receiver h) ys"
proof -
  obtain c where c: "cells st (jh_receiver h) = Some c" "queued (view c) = xs" "senders (view c) = 0"
    using assms by (auto simp: chan_holds_def)
  obtain res c' where recv: "ch_try_recv C c = (res, c')" by (cases "ch_try_recv C c")
  then have "res = fst (view_try_recv (view c))" "view c' = snd (view_try_recv (view c))"
    using fst_try_recv [of c] view_snd_try_recv [of c] by simp_all
  with c recv show ?thesis
    by (auto simp: jh_try_recv_def view_try_recv_def chan_holds_def split: list.split)
qed

lemma jh_poll_open:
  "chan_open view st (jh_receiver h) \<Longrightarrow> fst (jh_poll C wk h st) = Pending"
  using jh_try_recv_open [of st h] by (auto simp: jh_poll_def split: prod.splits)

lemma jh_poll_stays_open:
  assumes "chan_open view st (jh_receiver h)"
  shows "\<exists>h' st'. jh_poll C wk h st = (Pending, h', st') \<and> jh_receiver h' = jh_receiver h
    \<and> chan_open view st' (jh_receiver h)"
proof -
  obtain c where c: "cells st (jh_receiver h) = Some c" "queued (view c) = []" "chan_cap (view c) = 1"
    "senders (view c) = 1"
    using assms by (auto simp: chan_open_def)
  obtain res c' where recv: "ch_try_recv C c = (res, c')" by (cases "ch_try_recv C c")
  then have "res = RecvEmpty" "view c' = view c"
    using c fst_try_recv [of c] view_snd_try_recv [of c] by (simp_all add: view_try_recv_def)
  with c recv show ?thesis
    using assms by (auto simp: jh_poll_def jh_try_recv_def chan_open_def)
qed

lemma jh_poll_holds:
  "chan_holds view st (jh_receiver h) xs \<Longrightarrow>
   fst (jh_poll C wk h st) = Ready (case xs of [] \<Rightarrow> Inl Cancelled | x # _ \<Rightarrow> x)"
  using jh_try_recv_holds [of st h xs] by (auto simp: jh_poll_def split: prod.splits list.splits)

end

interpretation view_results: result_channel view_channel "\<lambda>v. v"
  by unfold_locales

section \<open>Properties\<close>

text \<open>A join handle delivers a result exactly once: polled when the task has sent its result
  it is ready with that result, and any later poll reports \<open>Cancelled\<close>.\<close>

theorem join_handle_delivers_once:
  assumes "channel C view" "chan_holds view st (jh_receiver h) [result]"
    and "jh_poll C wk h st = (p, h', st')"
  shows "p = Ready result \<and> fst (jh_poll C wk' h' st') = Ready (Inl Cancelled)"
proof -
  note holds = result_channel.jh_try_recv_holds [OF result_channel.intro, OF assms(1)]
  obtain st1 where recv: "jh_try_recv C h st = (RecvOk result, st1)"
    and st1: "chan_holds view st1 (jh_receiver h) []"
    using holds [OF assms(2)] by (cases "jh_try_recv C h st") auto
  have "fst (jh_try_recv C h st1) = RecvDisconnected"
    using holds [OF st1] by simp
  with recv assms(3) show ?thesis
    by (auto simp: jh_poll_def split: prod.splits try_recv.splits)
qed

definition demo_store :: "nat task_result chan_view chan_store" where
  "demo_store = \<lparr>cells = [0 \<mapsto> \<lparr>queued = [Inr 42], chan_cap = 1, senders = 0, receivers = 1\<rparr>],
     next_cell = 1\<rparr>"

lemma demo_store_holds: "chan_holds (\<lambda>v. v) demo_store (jh_receiver (join_handle_new i 0)) [Inr 42]"
  by (simp add: chan_holds_def demo_store_def join_handle_new_def)

theorem join_handle_delivers_once_witness:
  "\<exists>h' st'. jh_poll view_channel DummyWaker (join_handle_new (TaskId 1) 0) demo_store
      = (Ready (Inr 42), h', st')
    \<and> fst (jh_poll view_channel DummyWaker h' st') = Ready (Inl Cancelled)"
proof -
  obtain p h' st' where poll:
    "jh_poll view_channel DummyWaker (join_handle_new (TaskId 1) 0) demo_store = (p, h', st')"
    by (cases "jh_poll view_channel DummyWaker (join_handle_new (TaskId 1) 0) demo_store")
  from join_handle_delivers_once [OF view_channel.channel_axioms demo_store_holds this,
      of DummyWaker] poll
  show ?thesis by blast
qed

text \<open>Asking a completed task's handle \<open>is_finished\<close> (or calling \<open>cancel\<close> on it) takes the
  result out of the channel: it answers true, but awaiting the handle afterwards yields
  \<open>Cancelled\<close> instead of the result the task sent.\<close>

theorem is_finished_consumes_result:
  assumes "channel C view" "chan_holds view st (jh_receiver h) [result]"
  shows "fst (jh_is_finished C h st)
    \<and> fst (jh_poll C wk h (snd (jh_is_finished C h st))) = Ready (Inl Cancelled)
    \<and> fst (jh_poll C wk h (jh_cancel C h st)) = Ready (Inl Cancelled)"
proof -
  note holds = result_channel.jh_try_recv_holds [OF result_channel.intro, OF assms(1)]
  obtain st1 where recv: "jh_try_recv C h st = (RecvOk result, st1)"
    and st1: "chan_holds view st1 (jh_receiver h) []"
    using holds [OF assms(2)] by (cases "jh_try_recv C h st") auto
  have "fst (jh_poll C wk h st1) = Ready (Inl Cancelled)"
    using holds [OF st1] by (auto simp: jh_poll_def split: prod.splits)
  with recv show ?thesis by (simp add: jh_is_finished_def jh_cancel_def)
qed

theorem is_finished_consumes_result_witness:
  "fst (jh_poll view_channel DummyWaker (join_handle_new (TaskId 1) 0)
      (snd (jh_is_finished view_channel (join_handle_new (TaskId 1) 0) demo_store)))
    = Ready (Inl Cancelled)"
  using is_finished_consumes_result [OF view_channel.channel_axioms demo_store_holds] by blast

end
