(* ===== verification/Executor.thy ===== *)
theory Executor
  imports Task
begin

text \<open>
  The single-threaded executor of \<open>src/executor.rs\<close> and the task builder of \<open>src/task.rs\<close>.

  The state is the \<open>Executor\<close> structure together with the store of result channels and the
  outside world of the user futures.  The run queue, the channels and the futures are the
  parameters collected in \<open>exec_env\<close>.  \<open>tick\<close> and \<open>run\<close> loop for as long as futures keep
  waking tasks, so they take fuel; \<open>None\<close> means that the call does not return within the fuel.
\<close>

record ('f, 'v, 'w, 'q, 'c) exec_env =
  run_ops :: "('q, task_id) queue_ops"
  chan :: "('c, 'v task_result) chan_ops"
  futs :: "('f, 'v, 'w) future_ops"

record ('f, 'q) executor =
  tasks :: "task_id \<rightharpoonup> 'f task"
  ready_queue :: 'q
  next_task_id :: u64

record ('f, 'q, 'c, 'w) exec_state = "('f, 'q) executor" +
  results :: "'c chan_store"
  world :: 'w

definition executor_new ::
  "('f, 'v, 'w, 'q, 'c) exec_env \<Rightarrow> 'c chan_store \<Rightarrow> 'w \<Rightarrow> ('f, 'q, 'c, 'w) exec_state" where
  "executor_new E st w =
    \<lparr>tasks = Map.empty, ready_queue = q_new (run_ops E), next_task_id = 1, results = st, world = w\<rparr>"

definition new_task_id :: "u64 \<Rightarrow> task_id \<times> u64" where
  "new_task_id c = (let (i, c') = fetch_add c 1 in (TaskId i, c'))"

text \<open>A task goes out of scope.\<close>

definition discard_task ::
  "('f, 'v, 'w, 'q, 'c) exec_env \<Rightarrow> 'f task \<Rightarrow> ('f, 'q, 'c, 'w) exec_state
   \<Rightarrow> ('f, 'q, 'c, 'w) exec_state" where
  "discard_task E t s =
    (let (st, w, ws) = task_drop (futs E) (chan E) t (results s) (world s) in
     s\<lparr>results := st, world := w, ready_queue := wake_all (run_ops E) ws (ready_queue s)\<rparr>)"

text \<open>\<open>HashMap::insert\<close>; a replaced task is dropped.\<close>

definition insert_task ::
  "('f, 'v, 'w, 'q, 'c) exec_env \<Rightarrow> task_id \<Rightarrow> 'f task \<Rightarrow> ('f, 'q, 'c, 'w) exec_state
   \<Rightarrow> ('f, 'q, 'c, 'w) exec_state" where
  "insert_task E i t s =
    (let s' = s\<lparr>tasks := (tasks s)(i \<mapsto> t)\<rparr> in
     case tasks s i of None \<Rightarrow> s' | Some old \<Rightarrow> discard_task E old s')"

definition exec_spawn ::
  "('f, 'v, 'w, 'q, 'c) exec_env \<Rightarrow> 'f \<Rightarrow> ('f, 'q, 'c, 'w) exec_state
   \<Rightarrow> join_handle \<times> ('f, 'q, 'c, 'w) exec_state" where
  "exec_spawn E f s =
    (let (i, n) = new_task_id (next_task_id s);
         (r, st) = store_alloc (ch_bounded (chan E) 1) (results s);
         s1 = s\<lparr>next_task_id := n, results := st\<rparr>;
         s2 = insert_task E i (task_new i (Wrapped f r)) s1;
         s3 = s2\<lparr>ready_queue := q_push (run_ops E) (ready_queue s2) i\<rparr>
     in (join_handle_new i r, s3))"

text \<open>The body of the \<open>while let\<close> loop of \<open>tick\<close> for a popped identifier; the flag is the
  contribution to \<open>made_progress\<close>.  Panics are caught.\<close>

definition poll_one ::
  "('f, 'v, 'w, 'q, 'c) exec_env \<Rightarrow> task_id \<Rightarrow> ('f, 'q, 'c, 'w) exec_state
   \<Rightarrow> (('f, 'q, 'c, 'w) exec_state \<times> bool) option" where
  "poll_one E i s =
    (case tasks s i of
       None \<Rightarrow> Some (s, False)
     | Some t \<Rightarrow>
         let s1 = s\<lparr>tasks := (tasks s)(i := None)\<rparr> in
         case task_poll (futs E) (chan E) (TaskWaker i) t (results s1) (world s1) of
           None \<Rightarrow> None
         | Some (res, t', st, w, ws) \<Rightarrow>
             let s2 = s1\<lparr>results := st, world := w,
                         ready_queue := wake_all (run_ops E) ws (ready_queue s1)\<rparr> in
             (case res of
                Inr (Ready _) \<Rightarrow> Some (discard_task E t' s2, True)
              | Inr Pending \<Rightarrow> Some (insert_task E i t' s2, True)
              | Inl _ \<Rightarrow> Some (discard_task E t' s2, True)))"

primrec tick_loop ::
  "('f, 'v, 'w, 'q, 'c) exec_env \<Rightarrow> nat \<Rightarrow> ('f, 'q, 'c, 'w) exec_state \<Rightarrow> bool
   \<Rightarrow> (('f, 'q, 'c, 'w) exec_state \<times> bool) option" where
  "tick_loop E 0 s made_progress = None"
| "tick_loop E (Suc fuel) s made_progress =
    (case q_pop (run_ops E) (ready_queue s) of
       (None, q) \<Rightarrow> Some (s\<lparr>ready_queue := q\<rparr>, made_progress)
     | (Some i, q) \<Rightarrow>
         (case poll_one E i (s\<lparr>ready_queue := q\<rparr>) of
            None \<Rightarrow> None
          | Some (s', p) \<Rightarrow> tick_loop E fuel s' (made_progress \<or> p)))"

definition exec_tick ::
  "('f, 'v, 'w, 'q, 'c) exec_env \<Rightarrow> nat \<Rightarrow> ('f, 'q, 'c, 'w) exec_state
   \<Rightarrow> (('f, 'q, 'c, 'w) exec_state \<times> bool) option" where
  "exec_tick E fuel s = tick_loop E fuel s False"

text \<open>\<open>Executor::run\<close>.  \<open>ext k\<close> are the wake-ups that other threads deliver between the
  rounds \<open>k\<close> and \<open>k + 1\<close>, while the thread is parked or about to test the loop condition.\<close>

primrec run_loop ::
  "('f, 'v, 'w, 'q, 'c) exec_env \<Rightarrow> (nat \<Rightarrow> waker list) \<Rightarrow> nat \<Rightarrow> nat \<Rightarrow> nat
   \<Rightarrow> ('f, 'q, 'c, 'w) exec_state \<Rightarrow> ('f, 'q, 'c, 'w) exec_state option" where
  "run_loop E ext tick_fuel k 0 s = None"
| "run_loop E ext tick_fuel k (Suc fuel) s =
    (if dom (tasks s) = {} then Some s
     else case exec_tick E tick_fuel s of
       None \<Rightarrow> None
     | Some (s', _) \<Rightarrow>
         run_loop E ext tick_fuel (Suc k) fuel
           (s'\<lparr>ready_queue := wake_all (run_ops E) (ext k) (ready_queue s')\<rparr>))"

definition exec_run ::
  "('f, 'v, 'w, 'q, 'c) exec_env \<Rightarrow> (nat \<Rightarrow> waker list) \<Rightarrow> nat \<Rightarrow> nat
   \<Rightarrow> ('f, 'q, 'c, 'w) exec_state \<Rightarrow> ('f, 'q, 'c, 'w) exec_state option" where
  "exec_run E ext tick_fuel fuel s = run_loop E ext tick_fuel 0 fuel s"

definition task_count :: "('f, 'q, 'c, 'w) exec_state \<Rightarrow> nat" where
  "task_count s = card (dom (tasks s))"

text \<open>\<open>TaskBuilder::spawn\<close>: a new executor, the future spawned on it, and the executor run on a
  thread of its own.\<close>

definition spawn_single_cpu ::
  "('f, 'v, 'w, 'q, 'c) exec_env \<Rightarrow> 'f \<Rightarrow> 'c chan_store \<Rightarrow> 'w
   \<Rightarrow> join_handle \<times> ('f, 'q, 'c, 'w) exec_state" where
  "spawn_single_cpu E f st w = exec_spawn E f (executor_new E st w)"

section \<open>Invariant\<close>

text \<open>Every task is stored under its own identifier, has not run to completion, and owns the
  only sender of an open result channel; no two tasks share a channel.\<close>

definition exec_wf :: "('c \<Rightarrow> 'v task_result chan_view) \<Rightarrow> ('f, 'q, 'c, 'w) exec_state \<Rightarrow> bool" where
  "exec_wf view s \<longleftrightarrow>
    finite (dom (tasks s)) \<and> store_wf (results s)
    \<and> (\<forall>i t. tasks s i = Some t \<longrightarrow> t_id t = i \<and> t_future t \<noteq> Completed
        \<and> (\<forall>r. task_ref t = Some r \<longrightarrow> chan_open view (results s) r))
    \<and> (\<forall>i j t u r. tasks s i = Some t \<longrightarrow> tasks s j = Some u \<longrightarrow> task_ref t = Some r
        \<longrightarrow> task_ref u = Some r \<longrightarrow> i = j)"

text \<open>Every channel that was ever allocated belongs to a live task or has lost its sender.\<close>

definition channels_accounted ::
  "('c \<Rightarrow> 'v task_result chan_view) \<Rightarrow> ('f, 'q, 'c, 'w) exec_state \<Rightarrow> bool" where
  "channels_accounted view s \<longleftrightarrow>
    (\<forall>r < next_cell (results s). (\<exists>i t. tasks s i = Some t \<and> task_ref t = Some r)
      \<or> chan_closed view (results s) r)"

definition exec_inv :: "('c \<Rightarrow> 'v task_result chan_view) \<Rightarrow> ('f, 'q, 'c, 'w) exec_state \<Rightarrow> bool" where
  "exec_inv view s \<longleftrightarrow> exec_wf view s \<and> channels_accounted view s"

text \<open>The executor as a transition system: its own operations, interleaved with what other
  threads do to the parts they share with it, the run queue (through wakers) and the result
  channels (through join handles, which receive and are dropped).\<close>

inductive exec_step ::
  "('f, 'v, 'w, 'q, 'c) exec_env \<Rightarrow> ('f, 'q, 'c, 'w) exec_state \<Rightarrow> ('f, 'q, 'c, 'w) exec_state \<Rightarrow> bool"
  for E where
  step_spawn: "exec_spawn E f s = (h, s') \<Longrightarrow> exec_step E s s'"
| step_poll: "q_pop (run_ops E) (ready_queue s) = (Some i, q) \<Longrightarrow>
    poll_one E i (s\<lparr>ready_queue := q\<rparr>) = Some (s', p) \<Longrightarrow> exec_step E s s'"
| step_idle: "q_pop (run_ops E) (ready_queue s) = (None, q) \<Longrightarrow>
    exec_step E s (s\<lparr>ready_queue := q\<rparr>)"
| step_wake: "exec_step E s (s\<lparr>ready_queue := wake_all (run_ops E) ws (ready_queue s)\<rparr>)"
| step_handle: "jh_try_recv (chan E) h (results s) = (x, st) \<Longrightarrow>
    exec_step E s (s\<lparr>results := st\<rparr>)"
| step_drop_handle:
    "exec_step E s (s\<lparr>results := store_update r (ch_drop_rx (chan E)) (results s)\<rparr>)"

definition exec_reachable ::
  "('f, 'v, 'w, 'q, 'c) exec_env \<Rightarrow> ('f, 'q, 'c, 'w) exec_state \<Rightarrow> bool" where
  "exec_reachable E s \<longleftrightarrow> (\<exists>w. (exec_step E)\<^sup>*\<^sup>* (executor_new E store_empty w) s)"

text \<open>What one iteration of the loop of \<open>tick\<close> may do to the state, for the task \<open>t\<close> found
  under \<open>i\<close>: the other tasks and their channels are untouched, the queue only grows, and the
  task is either kept with its open channel or removed with its channel closed.\<close>

definition poll_effect ::
  "('q \<Rightarrow> task_id list) \<Rightarrow> ('c \<Rightarrow> 'v task_result chan_view) \<Rightarrow> task_id \<Rightarrow> 'f task
   \<Rightarrow> ('f, 'q, 'c, 'w) exec_state \<Rightarrow> ('f, 'q, 'c, 'w) exec_state \<Rightarrow> bool" where
  "poll_effect items view i t s s' \<longleftrightarrow>
    (\<forall>j. j \<noteq> i \<longrightarrow> tasks s' j = tasks s j)
    \<and> next_task_id s' = next_task_id s
    \<and> (\<exists>ws. items (ready_queue s') = items (ready_queue s) @ woken ws)
    \<and> next_cell (results s') = next_cell (results s)
    \<and> (\<forall>r. task_ref t \<noteq> Some r \<longrightarrow> cells (results s') r = cells (results s) r)
    \<and> (case tasks s' i of
         None \<Rightarrow> (\<forall>r. task_ref t = Some r \<longrightarrow> chan_closed view (results s') r)
       | Some t' \<Rightarrow> t_id t' = t_id t \<and> t_future t' \<noteq> Completed \<and> task_ref t' = task_ref t
           \<and> results s' = results s)"

text \<open>A bound on the wake-ups that the user futures can still cause: \<open>rf\<close> ranks the states of
  the futures and \<open>rw\<close> the outside world, and every wake-up of a poll or a drop is paid for.\<close>

definition wake_budget :: "('f, 'v, 'w) future_ops \<Rightarrow> ('f \<Rightarrow> nat) \<Rightarrow> ('w \<Rightarrow> nat) \<Rightarrow> bool" where
  "wake_budget F rf rw \<longleftrightarrow>
    (\<forall>wk f w res f' w' ws. fo_poll F wk f w = (res, f', w', ws)
      \<longrightarrow> length (woken ws) + rf f' + rw w' \<le> rf f + rw w)
    \<and> (\<forall>f w w' ws. fo_drop F f w = (w', ws) \<longrightarrow> length (woken ws) + rw w' \<le> rf f + rw w)"

definition task_rank :: "('f \<Rightarrow> nat) \<Rightarrow> 'f task \<Rightarrow> nat" where
  "task_rank rf t = (case t_future t of Raw f \<Rightarrow> rf f | Wrapped f r \<Rightarrow> rf f | Completed \<Rightarrow> 0)"

definition potential ::
  "('q \<Rightarrow> task_id list) \<Rightarrow> ('f \<Rightarrow> nat) \<Rightarrow> ('w \<Rightarrow> nat) \<Rightarrow> ('f, 'q, 'c, 'w) exec_state \<Rightarrow> nat" where
  "potential items rf rw s = length (items (ready_queue s))
    + (\<Sum>i \<in> dom (tasks s). task_rank rf (the (tasks s i))) + rw (world s)"

lemma task_poll_budget:
  assumes "wake_budget F rf rw" "task_poll F C wk t st w = Some (res, t', st', w', ws)"
  shows "length (woken ws) + task_rank rf t' + rw w' \<le> task_rank rf t + rw w"
proof -
  have poll: "length (woken ws) + rf f' + rw w' \<le> rf f + rw w"
    if "fo_poll F wk f w = (res, f', w', ws)" for f f' w w' ws res
    using assms(1) that unfolding wake_budget_def by blast
  have drop: "length (woken ws) + rw w' \<le> rf f + rw w"
    if "fo_drop F f w = (w', ws)" for f w w' ws
    using assms(1) that unfolding wake_budget_def by blast
  show ?thesis
    using assms(2) by (auto simp: task_poll.simps task_rank_def dest!: poll drop
        split: task_future.splits prod.splits sum.splits poll.splits option.splits)
qed

lemma task_drop_budget:
  assumes "wake_budget F rf rw" "task_drop F C t st w = (st', w', ws)"
  shows "length (woken ws) + rw w' \<le> task_rank rf t + rw w"
  using assms by (auto simp: wake_budget_def task_rank_def split: task_future.splits prod.splits)

declare task_poll.simps [simp del]
declare task_drop.simps [simp del]

lemma exec_wf_task: "exec_wf view s \<Longrightarrow> tasks s j = Some u \<Longrightarrow> t_id u = j \<and> t_future u \<noteq> Completed"
  by (simp add: exec_wf_def)

lemma exec_wf_open:
  "exec_wf view s \<Longrightarrow> tasks s j = Some u \<Longrightarrow> task_ref u = Some r \<Longrightarrow> chan_open view (results s) r"
  unfolding exec_wf_def by blast

lemma exec_wf_below:
  assumes "exec_wf view s" "tasks s j = Some u" "task_ref u = Some r"
  shows "r < next_cell (results s)"
proof -
  have "r \<in> dom (cells (results s))"
    using exec_wf_open [OF assms] by (auto simp: chan_open_def)
  then show ?thesis using assms(1) by (auto simp: exec_wf_def store_wf_def)
qed

lemma exec_wf_owner:
  "exec_wf view s \<Longrightarrow> tasks s j = Some u \<Longrightarrow> tasks s k = Some v \<Longrightarrow> task_ref u = Some r
   \<Longrightarrow> task_ref v = Some r \<Longrightarrow> j = k"
  unfolding exec_wf_def by blast

lemma exec_inv_queue [simp]:
  "exec_wf view (s\<lparr>ready_queue := q\<rparr>) = exec_wf view s"
  "exec_inv view (s\<lparr>ready_queue := q\<rparr>) = exec_inv view s"
  by (simp_all add: exec_inv_def exec_wf_def channels_accounted_def)

lemma exec_wfI:
  assumes "finite (dom (tasks s))" "store_wf (results s)"
    and "\<And>j u. tasks s j = Some u \<Longrightarrow> t_id u = j \<and> t_future u \<noteq> Completed"
    and "\<And>j u r. tasks s j = Some u \<Longrightarrow> task_ref u = Some r \<Longrightarrow> chan_open view (results s) r"
    and "\<And>j k u v r. tasks s j = Some u \<Longrightarrow> tasks s k = Some v \<Longrightarrow> task_ref u = Some r
      \<Longrightarrow> task_ref v = Some r \<Longrightarrow> j = k"
  shows "exec_wf view s"
  using assms unfolding exec_wf_def by blast

locale executor_env =
  fixes E :: "('f, 'v, 'w, 'q, 'c) exec_env"
    and items :: "'q \<Rightarrow> task_id list"
    and view :: "'c \<Rightarrow> 'v task_result chan_view"
  assumes queue: "seg_queue (run_ops E) items"
    and channel: "channel (chan E) view"
begin

sublocale q: run_queue "run_ops E" items
  using queue by (simp add: run_queue_def)

sublocale c: result_channel "chan E" view
  using channel by (simp add: result_channel_def)

lemma discard_task_effect:
  assumes "t_future t \<noteq> Completed" "\<forall>r. task_ref t = Some r \<longrightarrow> chan_open view (results s) r"
  shows "\<exists>st w ws. discard_task E t s = s\<lparr>results := st, world := w,
      ready_queue := wake_all (run_ops E) ws (ready_queue s)\<rparr>
    \<and> next_cell st = next_cell (results s)
    \<and> (\<forall>r. task_ref t \<noteq> Some r \<longrightarrow> cells st r = cells (results s) r)
    \<and> (\<forall>r. task_ref t = Some r \<longrightarrow> chan_holds view st r [])"
proof (cases "t_future t")
  case (Raw f)
  obtain w ws where "fo_drop (futs E) f (world s) = (w, ws)" by fastforce
  with Raw show ?thesis
    by (intro exI [of _ "results s"] exI [of _ w] exI [of _ ws])
      (simp add: discard_task_def task_drop.simps task_ref_def)
next
  case (Wrapped f r)
  obtain w ws where "fo_drop (futs E) f (world s) = (w, ws)" by fastforce
  with Wrapped assms(2) c.drop_tx_open [of "results s" r] show ?thesis
    by (intro exI [of _ "store_update r (ch_drop_tx (chan E)) (results s)"] exI [of _ w]
        exI [of _ ws]) (simp add: discard_task_def task_drop.simps task_ref_def)
next
  case Completed
  with assms show ?thesis by simp
qed

text \<open>Frame facts of the three ways in which a task leaves \<open>poll_one\<close>.\<close>

lemma task_poll_cases:
  assumes "t_future t \<noteq> Completed" "\<forall>r. task_ref t = Some r \<longrightarrow> chan_open view st r"
  obtains
    (pending) t' w' ws where "task_poll (futs E) (chan E) wk t st w = Some (Inr Pending, t', st, w', ws)"
      "t_id t' = t_id t" "t_future t' \<noteq> Completed" "task_ref t' = task_ref t"
  | (panicked) p t' w' ws where "task_poll (futs E) (chan E) wk t st w = Some (Inl p, t', st, w', ws)"
      "t_future t' \<noteq> Completed" "task_ref t' = task_ref t"
  | (finished_raw) t' w' ws where "task_ref t = None"
      "task_poll (futs E) (chan E) wk t st w = Some (Inr (Ready ()), t', st, w', ws)"
      "t_future t' \<noteq> Completed" "task_ref t' = None"
  | (finished) t' w' ws r c where "task_ref t = Some r"
      "task_poll (futs E) (chan E) wk t st w
        = Some (Inr (Ready ()), t', store_update r (\<lambda>_. c) st, w', ws)"
      "t_future t' = Completed" "senders (view c) = 0"
proof (cases "t_future t")
  case (Raw f)
  obtain res f' w' ws where fp: "fo_poll (futs E) wk f w = (res, f', w', ws)"
    by (metis prod_cases4)
  show ?thesis
  proof (cases res)
    case (Inl p)
    with Raw fp show ?thesis by (intro panicked) (auto simp: task_poll.simps task_ref_def)
  next
    case (Inr b)
    with Raw fp show ?thesis
      by (cases b) (auto simp: task_poll.simps task_ref_def intro: pending finished_raw)
  qed
next
  case (Wrapped f r)
  obtain res f' w' ws where fp: "fo_poll (futs E) wk f w = (res, f', w', ws)"
    by (metis prod_cases4)
  obtain w'' ws' where fd: "fo_drop (futs E) f' w' = (w'', ws')" by fastforce
  have ref: "task_ref t = Some r" using Wrapped by (simp add: task_ref_def)
  show ?thesis
  proof (cases res)
    case (Inl p)
    with Wrapped fp show ?thesis by (intro panicked) (auto simp: task_poll.simps task_ref_def)
  next
    case (Inr b)
    show ?thesis
    proof (cases b)
      case (Ready v)
      obtain c where "wrapper_complete (chan E) r v st = Some (store_update r (\<lambda>_. c) st)"
        "senders (view c) = 0"
        using c.wrapper_complete_open [of st r v] assms(2) ref by auto
      with Wrapped fp fd Inr Ready ref show ?thesis by (intro finished) (auto simp: task_poll.simps)
    next
      case Pending
      with Wrapped fp Inr show ?thesis
        by (intro pending [of "t\<lparr>t_future := Wrapped f' r\<rparr>"]) (auto simp: task_poll.simps task_ref_def)
    qed
  qed
next
  case Completed
  with assms(1) show ?thesis by simp
qed

lemma discard_completed: "t_future t = Completed \<Longrightarrow> discard_task E t s = s"
  by (simp add: discard_task_def task_drop.simps)

lemma poll_one_effect:
  assumes wf: "exec_wf view s" and t: "tasks s i = Some t"
  obtains s' where "poll_one E i s = Some (s', True)" "poll_effect items view i t s s'"
proof -
  let ?s1 = "s\<lparr>tasks := (tasks s)(i := None)\<rparr>"
  have live: "t_future t \<noteq> Completed" and chans: "\<forall>r. task_ref t = Some r \<longrightarrow> chan_open view (results s) r"
    using wf t by (auto simp: exec_wf_def)
  from live chans show ?thesis
  proof (cases rule: task_poll_cases [where wk = "TaskWaker i" and w = "world s"])
    case (pending t' w' ws)
    define s' where "s' = s\<lparr>tasks := (tasks s)(i \<mapsto> t'), world := w',
      ready_queue := wake_all (run_ops E) ws (ready_queue s)\<rparr>"
    have "poll_one E i s = Some (s', True)"
      using t pending(1) by (simp add: poll_one_def Let_def insert_task_def s'_def)
    moreover have "poll_effect items view i t s s'"
      using pending by (auto simp: poll_effect_def s'_def)
    ultimately show ?thesis by (rule that)
  next
    case (panicked p t' w' ws)
    define s2 where "s2 = ?s1\<lparr>results := results s, world := w',
      ready_queue := wake_all (run_ops E) ws (ready_queue s)\<rparr>"
    have "\<forall>r. task_ref t' = Some r \<longrightarrow> chan_open view (results s2) r"
      using chans panicked by (simp add: s2_def)
    from discard_task_effect [OF panicked(2) this] obtain st wd wk where d:
      "discard_task E t' s2 = s2\<lparr>results := st, world := wd,
         ready_queue := wake_all (run_ops E) wk (ready_queue s2)\<rparr>"
      "next_cell st = next_cell (results s2)"
      "\<forall>r. task_ref t' \<noteq> Some r \<longrightarrow> cells st r = cells (results s2) r"
      "\<forall>r. task_ref t' = Some r \<longrightarrow> chan_holds view st r []"
      by blast
    have "poll_one E i s = Some (discard_task E t' s2, True)"
      using t panicked(1) by (simp add: poll_one_def Let_def s2_def)
    moreover have "poll_effect items view i t s (discard_task E t' s2)"
      unfolding d(1) poll_effect_def using d(2-4) panicked(3)
      by (auto simp: s2_def chan_state_defs intro: exI [of _ "ws @ wk"])
    ultimately show ?thesis by (rule that)
  next
    case (finished_raw t' w' ws)
    define s2 where "s2 = ?s1\<lparr>results := results s, world := w',
      ready_queue := wake_all (run_ops E) ws (ready_queue s)\<rparr>"
    have "\<forall>r. task_ref t' = Some r \<longrightarrow> chan_open view (results s2) r"
      using finished_raw by simp
    from discard_task_effect [OF finished_raw(3) this] obtain st wd wk where d:
      "discard_task E t' s2 = s2\<lparr>results := st, world := wd,
         ready_queue := wake_all (run_ops E) wk (ready_queue s2)\<rparr>"
      "next_cell st = next_cell (results s2)"
      "\<forall>r. task_ref t' \<noteq> Some r \<longrightarrow> cells st r = cells (results s2) r"
      by blast
    have "poll_one E i s = Some (discard_task E t' s2, True)"
      using t finished_raw(2) by (simp add: poll_one_def Let_def s2_def)
    moreover have "poll_effect items view i t s (discard_task E t' s2)"
      unfolding d(1) poll_effect_def using d(2-3) finished_raw(1,4)
      by (auto simp: s2_def chan_state_defs intro: exI [of _ "ws @ wk"])
    ultimately show ?thesis by (rule that)
  next
    case (finished t' w' ws r c)
    define s' where "s' = s\<lparr>tasks := (tasks s)(i := None), world := w',
      results := store_update r (\<lambda>_. c) (results s),
      ready_queue := wake_all (run_ops E) ws (ready_queue s)\<rparr>"
    have "chan_open view (results s) r" using chans finished(1) by simp
    then have "poll_effect items view i t s s'"
      using finished(1,4) by (auto simp: poll_effect_def s'_def chan_state_defs)
    moreover have "poll_one E i s = Some (s', True)"
      using t finished(2,3) by (simp add: poll_one_def Let_def discard_completed s'_def)
    ultimately show ?thesis using that by blast
  qed
qed

lemma poll_effect_wf:
  assumes wf: "exec_wf view s" and t: "tasks s i = Some t" and eff: "poll_effect items view i t s s'"
  shows "exec_wf view s'"
proof (rule exec_wfI)
  have others: "tasks s' j = tasks s j" if "j \<noteq> i" for j
    using eff that by (simp add: poll_effect_def)
  have cells: "cells (results s') r = cells (results s) r" if "task_ref t \<noteq> Some r" for r
    using eff that by (simp add: poll_effect_def)
  have nxt: "next_cell (results s') = next_cell (results s)"
    using eff by (simp add: poll_effect_def)
  have self: "t_id t' = i \<and> t_future t' \<noteq> Completed \<and> task_ref t' = task_ref t \<and> results s' = results s"
    if "tasks s' i = Some t'" for t'
    using eff that exec_wf_task [OF wf t] by (auto simp: poll_effect_def)
  have ref: "\<exists>u. tasks s j = Some u \<and> task_ref u = task_ref u'" if "tasks s' j = Some u'" for j u'
    using that others self t by (cases "j = i") auto
  have "dom (tasks s') \<subseteq> insert i (dom (tasks s))"
    using others by force
  then show "finite (dom (tasks s'))"
    using wf by (auto simp: exec_wf_def intro: finite_subset)
  have "dom (cells (results s')) \<subseteq> dom (cells (results s)) \<union> {r. task_ref t = Some r}"
    using cells by force
  then show "store_wf (results s')"
    using wf nxt exec_wf_below [OF wf t] by (fastforce simp: exec_wf_def store_wf_def)
  show "t_id u = j \<and> t_future u \<noteq> Completed" if "tasks s' j = Some u" for j u
    using that self others exec_wf_task [OF wf] by (cases "j = i") auto
  show "chan_open view (results s') r" if "tasks s' j = Some u" "task_ref u = Some r" for j u r
  proof (cases "j = i")
    case True
    with that self exec_wf_open [OF wf t] show ?thesis by auto
  next
    case False
    with that others have u: "tasks s j = Some u" by simp
    have "task_ref t \<noteq> Some r" using exec_wf_owner [OF wf t u] False that(2) by auto
    with cells exec_wf_open [OF wf u that(2)] show ?thesis by (simp add: chan_open_def)
  qed
  show "j = k" if "tasks s' j = Some u" "tasks s' k = Some v" "task_ref u = Some r"
    "task_ref v = Some r" for j k u v r
    using ref [OF that(1)] ref [OF that(2)] exec_wf_owner [OF wf] that(3,4) by metis
qed

lemma poll_effect_accounted:
  assumes acc: "channels_accounted view s" and t: "tasks s i = Some t"
    and eff: "poll_effect items view i t s s'"
  shows "channels_accounted view s'"
  unfolding channels_accounted_def
proof (intro allI impI)
  fix r assume "r < next_cell (results s')"
  then have acc: "(\<exists>j u. tasks s j = Some u \<and> task_ref u = Some r) \<or> chan_closed view (results s) r"
    using acc eff by (simp add: channels_accounted_def poll_effect_def)
  show "(\<exists>i t. tasks s' i = Some t \<and> task_ref t = Some r) \<or> chan_closed view (results s') r"
  proof (cases "task_ref t = Some r")
    case True
    with eff show ?thesis by (cases "tasks s' i") (auto simp: poll_effect_def)
  next
    case False
    then have "cells (results s') r = cells (results s) r" "\<forall>j. j \<noteq> i \<longrightarrow> tasks s' j = tasks s j"
      using eff by (simp_all add: poll_effect_def)
    with acc False t show ?thesis by (metis chan_closed_def option.inject)
  qed
qed

lemma poll_effect_inv:
  "exec_inv view s \<Longrightarrow> tasks s i = Some t \<Longrightarrow> poll_effect items view i t s s' \<Longrightarrow> exec_inv view s'"
  by (auto simp: exec_inv_def intro: poll_effect_wf poll_effect_accounted)

lemma poll_one_absent: "tasks s i = None \<Longrightarrow> poll_one E i s = Some (s, False)"
  by (simp add: poll_one_def)

lemma poll_one_inv:
  assumes "exec_inv view s" "poll_one E i s = Some (s', p)"
  shows "exec_inv view s'"
proof (cases "tasks s i")
  case None
  with assms show ?thesis by (simp add: poll_one_absent)
next
  case (Some t)
  have "exec_wf view s" using assms by (simp add: exec_inv_def)
  from poll_one_effect [OF this Some] obtain s'' where
    "poll_one E i s = Some (s'', True)" "poll_effect items view i t s s''" by blast
  with assms poll_effect_inv [OF assms(1) Some] show ?thesis by simp
qed

text \<open>Changing the channels only behind the tasks' backs keeps the invariant.\<close>

lemma exec_inv_results:
  assumes inv: "exec_inv view s"
    and upd: "\<And>r. chan_open view (results s) r \<Longrightarrow> chan_open view st r"
      "\<And>r. chan_closed view (results s) r \<Longrightarrow> chan_closed view st r"
    and wf: "store_wf st" "next_cell st = next_cell (results s)"
  shows "exec_inv view (s\<lparr>results := st\<rparr>)"
  using inv upd wf unfolding exec_inv_def exec_wf_def channels_accounted_def by simp blast

lemma jh_try_recv_inv:
  assumes inv: "exec_inv view s" and recv: "jh_try_recv (chan E) h (results s) = (x, st)"
  shows "exec_inv view (s\<lparr>results := st\<rparr>)"
proof (cases "cells (results s) (jh_receiver h)")
  case None
  with recv have "st = results s" by (simp add: jh_try_recv_def)
  with inv show ?thesis by simp
next
  case (Some c)
  obtain y c' where c': "ch_try_recv (chan E) c = (y, c')" by fastforce
  with recv Some have st: "st = store_update (jh_receiver h) (\<lambda>_. c') (results s)"
    by (simp add: jh_try_recv_def)
  have "view c' = snd (view_try_recv (view c))"
    using c.view_snd_try_recv [of c] c' by simp
  then have "senders (view c') = senders (view c)" "chan_cap (view c') = chan_cap (view c)"
    "queued (view c) = [] \<Longrightarrow> view c' = view c"
    by (simp_all add: view_try_recv_def split: list.split)
  with inv Some show ?thesis unfolding st
    by (intro exec_inv_results) (auto simp: chan_open_def chan_closed_def exec_inv_def exec_wf_def
        intro: store_wf_update split: if_splits)
qed

lemma drop_handle_inv:
  assumes "exec_inv view s"
  shows "exec_inv view (s\<lparr>results := store_update r (ch_drop_rx (chan E)) (results s)\<rparr>)"
  using assms
  by (intro exec_inv_results) (auto simp: chan_open_def chan_closed_def exec_inv_def exec_wf_def
      c.view_ch_drop_rx view_drop_rx_def intro: store_wf_update split: if_splits)

lemma executor_new_inv [simp]: "exec_inv view (executor_new E store_empty w)"
  by (simp add: exec_inv_def exec_wf_def channels_accounted_def executor_new_def store_empty_def
      store_wf_def)

lemma exec_spawn_effect:
  assumes wf: "exec_wf view s" and spawn: "exec_spawn E f s = (h, s')"
  defines "i \<equiv> TaskId (next_task_id s)" and "r \<equiv> next_cell (results s)"
  shows "h = join_handle_new i r \<and> tasks s' = (tasks s)(i \<mapsto> task_new i (Wrapped f r))
    \<and> next_task_id s' = next_task_id s + 1
    \<and> next_cell (results s') = Suc r \<and> cells (results s') r = Some (ch_bounded (chan E) 1)
    \<and> (\<exists>ws. items (ready_queue s') = items (ready_queue s) @ woken ws @ [i])
    \<and> (\<forall>r'. r' \<noteq> r \<longrightarrow>
        (if \<exists>old. tasks s i = Some old \<and> task_ref old = Some r' then chan_closed view (results s') r'
         else cells (results s') r' = cells (results s) r'))"
proof -
  define s1 where "s1 = s\<lparr>next_task_id := next_task_id s + 1,
    results := \<lparr>cells = (cells (results s))(r \<mapsto> ch_bounded (chan E) 1), next_cell = Suc r\<rparr>,
    tasks := (tasks s)(i \<mapsto> task_new i (Wrapped f r))\<rparr>"
  show ?thesis
  proof (cases "tasks s i")
    case None
    then have "s' = s1\<lparr>ready_queue := q_push (run_ops E) (ready_queue s1) i\<rparr>"
      "h = join_handle_new i r"
      using spawn by (simp_all add: exec_spawn_def new_task_id_def fetch_add_def store_alloc_eq
          insert_task_def s1_def i_def r_def)
    with None show ?thesis by (auto simp: s1_def q.items_push intro: exI [of _ "[]"])
  next
    case (Some old)
    then have s': "s' = (discard_task E old s1)\<lparr>ready_queue :=
        q_push (run_ops E) (ready_queue (discard_task E old s1)) i\<rparr>" "h = join_handle_new i r"
      using spawn by (simp_all add: exec_spawn_def new_task_id_def fetch_add_def store_alloc_eq
          insert_task_def s1_def i_def r_def Let_def)
    have old: "t_future old \<noteq> Completed" "\<forall>r'. task_ref old = Some r' \<longrightarrow> chan_open view (results s) r'"
      using wf Some by (auto simp: exec_wf_def)
    have fresh: "cells (results s) r = None"
      using wf by (auto simp: exec_wf_def store_wf_def r_def)
    with old have "\<forall>r'. task_ref old = Some r' \<longrightarrow> r' \<noteq> r \<and> chan_open view (results s1) r'"
      by (auto simp: s1_def chan_open_def)
    with discard_task_effect [OF old(1), of s1] obtain st wd wk where d:
      "discard_task E old s1 = s1\<lparr>results := st, world := wd,
         ready_queue := wake_all (run_ops E) wk (ready_queue s1)\<rparr>"
      "next_cell st = next_cell (results s1)"
      "\<forall>r. task_ref old \<noteq> Some r \<longrightarrow> cells st r = cells (results s1) r"
      "\<forall>r. task_ref old = Some r \<longrightarrow> chan_holds view st r []" "task_ref old \<noteq> Some r"
      by blast
    from s' d Some show ?thesis
      by (auto simp: s1_def q.items_push chan_state_defs)
  qed
qed

lemma exec_spawn_wf:
  assumes wf: "exec_wf view s" and spawn: "exec_spawn E f s = (h, s')"
  shows "exec_wf view s'"
proof (rule exec_wfI)
  let ?i = "TaskId (next_task_id s)" and ?r = "next_cell (results s)"
  note eff = exec_spawn_effect [OF wf spawn]
  have tasks': "tasks s' = (tasks s)(?i \<mapsto> task_new ?i (Wrapped f ?r))" using eff by blast
  have new: "chan_open view (results s') ?r"
    using eff by (simp add: chan_open_def c.view_ch_bounded view_bounded_def)
  have cells': "cells (results s') r = cells (results s) r"
    if "r \<noteq> ?r" "\<not> (\<exists>old. tasks s ?i = Some old \<and> task_ref old = Some r)" for r
    using eff that by (simp split: if_splits)
  show "finite (dom (tasks s'))" using wf tasks' by (simp add: exec_wf_def)
  show "store_wf (results s')"
    unfolding store_wf_def
  proof
    fix r assume r: "r \<in> dom (cells (results s'))"
    have "r < ?r" if "r \<noteq> ?r"
    proof (cases "\<exists>old. tasks s ?i = Some old \<and> task_ref old = Some r")
      case True
      then show ?thesis using exec_wf_below [OF wf] by blast
    next
      case False
      with r cells' [OF that] have "r \<in> dom (cells (results s))" by (simp add: dom_def)
      then show ?thesis using wf by (auto simp: exec_wf_def store_wf_def)
    qed
    moreover have "next_cell (results s') = Suc ?r" using eff by blast
    ultimately show "r \<in> {..<next_cell (results s')}" by (cases "r = ?r") simp_all
  qed
  show "t_id u = j \<and> t_future u \<noteq> Completed" if "tasks s' j = Some u" for j u
    using that tasks' exec_wf_task [OF wf] by (auto simp: task_new_def split: if_splits)
  show "chan_open view (results s') r" if "tasks s' j = Some u" "task_ref u = Some r" for j u r
  proof (cases "j = ?i")
    case True
    with that tasks' new show ?thesis by (auto simp: task_new_def task_ref_def)
  next
    case False
    with that tasks' have u: "tasks s j = Some u" by simp
    have "\<not> (\<exists>old. tasks s ?i = Some old \<and> task_ref old = Some r)"
      using exec_wf_owner [OF wf u] that(2) False by blast
    with cells' [of r] exec_wf_below [OF wf u that(2)] exec_wf_open [OF wf u that(2)] show ?thesis
      by (simp add: chan_open_def)
  qed
  show "j = k" if "tasks s' j = Some u" "tasks s' k = Some v" "task_ref u = Some r"
    "task_ref v = Some r" for j k u v r
  proof -
    have "(l = ?i \<and> r = ?r) \<or> (tasks s l = Some x \<and> r < ?r)"
      if "task_ref x = Some r" "tasks s' l = Some x" for l x
      using that tasks' exec_wf_below [OF wf] by (auto simp: task_new_def task_ref_def split: if_splits)
    from this [OF that(3,1)] this [OF that(4,2)] exec_wf_owner [OF wf] that(3,4) show ?thesis
      by blast
  qed
qed

lemma exec_spawn_accounted:
  assumes inv: "exec_inv view s" and spawn: "exec_spawn E f s = (h, s')"
  shows "channels_accounted view s'"
  unfolding channels_accounted_def
proof (intro allI impI)
  let ?i = "TaskId (next_task_id s)" and ?r = "next_cell (results s)"
  have wf: "exec_wf view s" using inv by (simp add: exec_inv_def)
  note eff = exec_spawn_effect [OF wf spawn]
  have tasks': "tasks s' = (tasks s)(?i \<mapsto> task_new ?i (Wrapped f ?r))" using eff by blast
  have nxt: "next_cell (results s') = Suc ?r" using eff by blast
  have rest: "if \<exists>old. tasks s ?i = Some old \<and> task_ref old = Some r then chan_closed view (results s') r
      else cells (results s') r = cells (results s) r" if "r \<noteq> ?r" for r
    using eff that by blast
  fix r assume "r < next_cell (results s')"
  then consider "r = ?r" | "r < ?r" "\<exists>old. tasks s ?i = Some old \<and> task_ref old = Some r"
    | "r < ?r" "\<not> (\<exists>old. tasks s ?i = Some old \<and> task_ref old = Some r)"
    unfolding nxt less_Suc_eq by blast
  then show "(\<exists>i t. tasks s' i = Some t \<and> task_ref t = Some r) \<or> chan_closed view (results s') r"
  proof cases
    case 1
    then show ?thesis using tasks' by (auto simp: task_new_def task_ref_def)
  next
    case 2
    then show ?thesis using rest [of r] by simp
  next
    case 3
    then have "cells (results s') r = cells (results s) r" using rest [of r] by (simp split: if_splits)
    moreover have "(\<exists>j u. tasks s j = Some u \<and> task_ref u = Some r) \<or> chan_closed view (results s) r"
      using inv 3 by (auto simp: exec_inv_def channels_accounted_def)
    ultimately show ?thesis using 3 tasks' by (metis chan_closed_def fun_upd_apply)
  qed
qed

lemma exec_step_inv:
  assumes "exec_step E s s'" "exec_inv view s"
  shows "exec_inv view s'"
  using assms
proof (cases rule: exec_step.cases)
  case (step_spawn f h)
  then show ?thesis
    using exec_spawn_wf [of s f h s'] exec_spawn_accounted [of s f h s'] assms(2)
    by (simp add: exec_inv_def)
next
  case (step_poll i q p)
  with assms(2) show ?thesis using poll_one_inv [of "s\<lparr>ready_queue := q\<rparr>"] by simp
next
  case (step_handle h x st)
  with assms(2) jh_try_recv_inv show ?thesis by simp
next
  case (step_drop_handle r)
  with assms(2) drop_handle_inv show ?thesis by simp
qed simp_all

lemma exec_steps_inv: "(exec_step E)\<^sup>*\<^sup>* s s' \<Longrightarrow> exec_inv view s \<Longrightarrow> exec_inv view s'"
  by (induction rule: rtranclp_induct) (auto intro: exec_step_inv)

lemma exec_reachable_inv: "exec_reachable E s \<Longrightarrow> exec_inv view s"
  unfolding exec_reachable_def using exec_steps_inv by auto

text \<open>The loop of \<open>tick\<close> is a run of the transition system that ends with an empty queue.\<close>

lemma tick_loop_steps:
  assumes "tick_loop E n s b = Some (s', b')"
  shows "(exec_step E)\<^sup>*\<^sup>* s s' \<and> items (ready_queue s') = []"
  using assms
proof (induction n arbitrary: s b)
  case (Suc n)
  show ?case
  proof (cases rule: q.pop_cases [of "ready_queue s"])
    case (empty q')
    with Suc.prems step_idle [of E s q'] show ?thesis by auto
  next
    case (item i rest q')
    with Suc.prems obtain s1 p where s1: "poll_one E i (s\<lparr>ready_queue := q'\<rparr>) = Some (s1, p)"
      "tick_loop E n s1 (b \<or> p) = Some (s', b')"
      by (auto split: option.splits)
    have "exec_step E s s1" using item(1) s1(1) by (rule step_poll)
    with Suc.IH [OF s1(2)] show ?thesis by (auto intro: converse_rtranclp_into_rtranclp)
  qed
qed simp

lemma tick_loop_progress:
  assumes "tick_loop E n s b = Some (s', b')" "exec_inv view s"
  shows "b' \<longleftrightarrow> b \<or> (\<exists>i \<in> set (items (ready_queue s)). i \<in> dom (tasks s))"
  using assms
proof (induction n arbitrary: s b)
  case (Suc n)
  show ?case
  proof (cases rule: q.pop_cases [of "ready_queue s"])
    case (empty q')
    with Suc.prems show ?thesis by auto
  next
    case (item i rest q')
    let ?s = "s\<lparr>ready_queue := q'\<rparr>"
    from item Suc.prems obtain s1 p where s1: "poll_one E i ?s = Some (s1, p)"
      "tick_loop E n s1 (b \<or> p) = Some (s', b')"
      by (auto split: option.splits)
    have inv: "exec_inv view s1" using poll_one_inv [OF _ s1(1)] Suc.prems(2) by simp
    note IH = Suc.IH [OF s1(2) inv]
    show ?thesis
    proof (cases "tasks s i")
      case None
      with s1(1) have "s1 = ?s" "\<not> p" by (simp_all add: poll_one_absent)
      with IH item None show ?thesis by auto
    next
      case (Some t)
      then have "p"
        using s1(1) Suc.prems(2) poll_one_effect [of ?s i t] by (auto simp: exec_inv_def)
      with IH item Some show ?thesis by auto
    qed
  qed
qed simp

lemma discard_potential:
  assumes "wake_budget (futs E) rf rw"
  shows "potential items rf rw (discard_task E t s) \<le> potential items rf rw s + task_rank rf t"
proof -
  obtain st w ws where d: "task_drop (futs E) (chan E) t (results s) (world s) = (st, w, ws)"
    by (metis prod_cases3)
  with task_drop_budget [OF assms d] show ?thesis
    by (simp add: discard_task_def potential_def)
qed

lemma poll_one_potential:
  assumes budget: "wake_budget (futs E) rf rw" and fin: "finite (dom (tasks s))"
    and poll: "poll_one E i s = Some (s', p)"
  shows "potential items rf rw s' \<le> potential items rf rw s"
proof (cases "tasks s i")
  case None
  with poll show ?thesis by (simp add: poll_one_absent)
next
  case (Some t)
  let ?s1 = "s\<lparr>tasks := (tasks s)(i := None)\<rparr>"
  obtain res t' st w ws where tp:
    "task_poll (futs E) (chan E) (TaskWaker i) t (results s) (world s) = Some (res, t', st, w, ws)"
    using poll Some by (auto simp: poll_one_def Let_def split: option.splits)
  define s2 where "s2 = ?s1\<lparr>results := st, world := w,
    ready_queue := wake_all (run_ops E) ws (ready_queue s)\<rparr>"
  have "i \<in> dom (tasks s)" using Some by auto
  have rest: "(\<Sum>j \<in> dom (tasks s) - {i}. task_rank rf (the (((tasks s)(i := None)) j)))
      = (\<Sum>j \<in> dom (tasks s) - {i}. task_rank rf (the (tasks s j)))"
    by (rule sum.cong) auto
  have s1: "potential items rf rw s = potential items rf rw ?s1 + task_rank rf t"
    using sum.remove [OF fin \<open>i \<in> dom (tasks s)\<close>, of "\<lambda>j. task_rank rf (the (tasks s j))"] rest Some
    by (simp add: potential_def)
  have s2: "potential items rf rw s2 + task_rank rf t' \<le> potential items rf rw ?s1 + task_rank rf t"
    using task_poll_budget [OF budget tp] by (simp add: potential_def s2_def)
  consider "s' = discard_task E t' s2" | "s' = insert_task E i t' s2"
    using poll Some tp by (auto simp: poll_one_def Let_def s2_def split: sum.splits poll.splits)
  then show ?thesis
  proof cases
    case 1
    with discard_potential [OF budget, of t' s2] s1 s2 show ?thesis by simp
  next
    case 2
    then have s': "s' = s2\<lparr>tasks := (tasks s)(i \<mapsto> t')\<rparr>"
      by (simp add: insert_task_def s2_def)
    have "(\<Sum>j \<in> dom (tasks s) - {i}. task_rank rf (the (((tasks s)(i \<mapsto> t')) j)))
      = (\<Sum>j \<in> dom (tasks s) - {i}. task_rank rf (the (tasks s j)))"
      by (rule sum.cong) auto
    then have "potential items rf rw s' = potential items rf rw s2 + task_rank rf t'"
      using s' fin rest by (simp add: potential_def s2_def sum.insert_remove)
    with s1 s2 show ?thesis by simp
  qed
qed

lemma poll_one_returns:
  assumes "exec_inv view s"
  obtains s' p where "poll_one E i s = Some (s', p)"
proof (cases "tasks s i")
  case None
  from that [OF poll_one_absent [OF None]] show ?thesis .
next
  case (Some t)
  have "exec_wf view s" using assms by (simp add: exec_inv_def)
  from poll_one_effect [OF this Some] that show ?thesis by blast
qed

lemma tick_loop_terminates:
  assumes "wake_budget (futs E) rf rw" "exec_inv view s" "potential items rf rw s < n"
  shows "\<exists>s' b'. tick_loop E n s b = Some (s', b') \<and> potential items rf rw s' \<le> potential items rf rw s"
  using assms(2,3)
proof (induction n arbitrary: s b)
  case (Suc n)
  show ?case
  proof (cases rule: q.pop_cases [of "ready_queue s"])
    case (empty q')
    then show ?thesis by (simp add: potential_def)
  next
    case (item i rest q')
    let ?s = "s\<lparr>ready_queue := q'\<rparr>"
    have inv: "exec_inv view ?s" using Suc.prems by simp
    obtain s1 p where s1: "poll_one E i ?s = Some (s1, p)" by (rule poll_one_returns [OF inv])
    have "finite (dom (tasks ?s))" using inv unfolding exec_inv_def exec_wf_def by blast
    from poll_one_potential [OF assms(1) this s1]
    have le: "Suc (potential items rf rw s1) \<le> potential items rf rw s"
      using item by (simp add: potential_def)
    with Suc.prems have "potential items rf rw s1 < n" by simp
    from Suc.IH [OF poll_one_inv [OF inv s1] this, of "b \<or> p"] item(1) s1 le show ?thesis
      by auto
  qed
qed simp

text \<open>A task that is not in the queue, and whose identifier nobody puts there, stays.\<close>

lemma poll_one_keeps:
  assumes "exec_inv view s" "poll_one E i s = Some (s', p)" "j \<noteq> i"
  shows "tasks s' j = tasks s j"
  using assms poll_one_effect [of s i] poll_one_absent [of s i]
  by (cases "tasks s i") (auto simp: exec_inv_def poll_effect_def)

end

text \<open>No poll and no drop of a user future in the class \<open>P\<close> ever wakes the task \<open>j\<close>, and
  polling stays in the class; every task but \<open>j\<close> runs a future of the class.\<close>

definition never_wakes :: "('f, 'v, 'w) future_ops \<Rightarrow> ('f \<Rightarrow> bool) \<Rightarrow> task_id \<Rightarrow> bool" where
  "never_wakes F P j \<longleftrightarrow>
    (\<forall>wk f w res f' w' ws. P f \<longrightarrow> fo_poll F wk f w = (res, f', w', ws)
      \<longrightarrow> P f' \<and> TaskWaker j \<notin> set ws)
    \<and> (\<forall>f w w' ws. P f \<longrightarrow> fo_drop F f w = (w', ws) \<longrightarrow> TaskWaker j \<notin> set ws)"

definition task_future_in :: "('f \<Rightarrow> bool) \<Rightarrow> 'f task \<Rightarrow> bool" where
  "task_future_in P t \<longleftrightarrow> (case t_future t of Raw f \<Rightarrow> P f | Wrapped f r \<Rightarrow> P f | Completed \<Rightarrow> True)"

definition others_in :: "('f \<Rightarrow> bool) \<Rightarrow> task_id \<Rightarrow> ('f, 'q, 'c, 'w) exec_state \<Rightarrow> bool" where
  "others_in P j s \<longleftrightarrow> (\<forall>k t. k \<noteq> j \<longrightarrow> tasks s k = Some t \<longrightarrow> task_future_in P t)"

lemma woken_TaskWaker [simp]: "i \<in> set (woken ws) \<longleftrightarrow> TaskWaker i \<in> set ws"
proof (induction ws)
  case (Cons a ws)
  then show ?case by (cases a) auto
qed simp

lemma task_poll_never_wakes:
  assumes "never_wakes F P j" "task_future_in P t"
    and "task_poll F C wk t st w = Some (res, t', st', w', ws)"
  shows "task_future_in P t' \<and> TaskWaker j \<notin> set ws"
proof -
  have poll: "P f' \<and> TaskWaker j \<notin> set ws" if "fo_poll F wk f w = (res, f', w', ws)" "P f"
    for f f' w w' ws res
    using assms(1) that unfolding never_wakes_def by blast
  have drop: "TaskWaker j \<notin> set ws" if "fo_drop F f w = (w', ws)" "P f" for f w w' ws
    using assms(1) that unfolding never_wakes_def by blast
  show ?thesis
    using assms(2,3) by (auto simp: task_poll.simps task_future_in_def dest: poll
        split: task_future.splits prod.splits sum.splits poll.splits option.splits)
      (metis poll, metis poll drop)
qed

lemma task_drop_never_wakes:
  "never_wakes F P j \<Longrightarrow> task_future_in P t \<Longrightarrow> task_drop F C t st w = (st', w', ws)
   \<Longrightarrow> TaskWaker j \<notin> set ws"
  by (auto simp: never_wakes_def task_drop.simps task_future_in_def
      split: task_future.splits prod.splits)

text \<open>Every future that is pending has called its own waker.\<close>

definition wakes_itself :: "('f, 'v, 'w) future_ops \<Rightarrow> bool" where
  "wakes_itself F \<longleftrightarrow>
    (\<forall>wk f w f' w' ws. fo_poll F wk f w = (Inr Pending, f', w', ws) \<longrightarrow> wk \<in> set ws)"

text \<open>What a future computes when it is polled again and again with the same waker: its value,
  or the payload of its panic.  A pending future that has not called the waker is not polled
  again.\<close>

primrec drive ::
  "('f, 'v, 'w) future_ops \<Rightarrow> waker \<Rightarrow> nat \<Rightarrow> 'f \<Rightarrow> 'w \<Rightarrow> (nat + 'v) option" where
  "drive F wk 0 f w = None"
| "drive F wk (Suc n) f w =
    (case fo_poll F wk f w of
       (Inl p, f', w', ws) \<Rightarrow> Some (Inl p)
     | (Inr (Ready v), f', w', ws) \<Rightarrow> Some (Inr v)
     | (Inr Pending, f', w', ws) \<Rightarrow> if wk \<in> set ws then drive F wk n f' w' else None)"

text \<open>What is left in the result channel of a task that ended so.\<close>

definition outcome :: "nat + 'v \<Rightarrow> 'v task_result list" where
  "outcome res = (case res of Inl p \<Rightarrow> [] | Inr v \<Rightarrow> [Inr v])"

context executor_env
begin

lemma discard_never_wakes:
  assumes "never_wakes (futs E) P j" "task_future_in P t" "j \<notin> set (items (ready_queue s))"
  shows "j \<notin> set (items (ready_queue (discard_task E t s)))"
proof -
  obtain st w ws where d: "task_drop (futs E) (chan E) t (results s) (world s) = (st, w, ws)"
    by (metis prod_cases3)
  with task_drop_never_wakes [OF assms(1,2) d] assms(3) show ?thesis
    by (simp add: discard_task_def)
qed

lemma discard_tasks [simp]: "tasks (discard_task E t s) = tasks s"
  by (simp add: discard_task_def split: prod.split)

lemma poll_one_never_wakes:
  assumes nw: "never_wakes (futs E) P j" and out: "j \<notin> set (items (ready_queue s))"
    and others: "others_in P j s" and poll: "poll_one E i s = Some (s', p)" and "i \<noteq> j"
  shows "j \<notin> set (items (ready_queue s')) \<and> others_in P j s'"
proof (cases "tasks s i")
  case None
  with poll out others show ?thesis by (simp add: poll_one_absent)
next
  case (Some t)
  obtain res t' st w ws where tp:
    "task_poll (futs E) (chan E) (TaskWaker i) t (results s) (world s) = Some (res, t', st, w, ws)"
    using poll Some by (auto simp: poll_one_def Let_def split: option.splits)
  define s2 where "s2 = s\<lparr>tasks := (tasks s)(i := None), results := st, world := w,
    ready_queue := wake_all (run_ops E) ws (ready_queue s)\<rparr>"
  have "task_future_in P t" using others Some \<open>i \<noteq> j\<close> by (simp add: others_in_def)
  note t' = task_poll_never_wakes [OF nw this tp]
  then have "j \<notin> set (items (ready_queue s2))" using out by (simp add: s2_def)
  moreover have "s' = discard_task E t' s2 \<or> s' = s2\<lparr>tasks := (tasks s)(i \<mapsto> t')\<rparr>"
    using poll Some tp by (auto simp: poll_one_def Let_def s2_def insert_task_def
        split: sum.splits poll.splits)
  ultimately show ?thesis
    using discard_never_wakes [OF nw] t' others by (auto simp: others_in_def s2_def split: if_splits)
qed

lemma tick_loop_stuck:
  assumes nw: "never_wakes (futs E) P j"
  shows "tick_loop E n s b = Some (s', b') \<Longrightarrow> exec_inv view s \<Longrightarrow> others_in P j s
    \<Longrightarrow> j \<notin> set (items (ready_queue s)) \<Longrightarrow> tasks s' j = tasks s j \<and> others_in P j s'"
proof (induction n arbitrary: s b)
  case (Suc n)
  show ?case
  proof (cases rule: q.pop_cases [of "ready_queue s"])
    case (empty q')
    with Suc.prems show ?thesis by (auto simp: others_in_def)
  next
    case (item i rest q')
    let ?s = "s\<lparr>ready_queue := q'\<rparr>"
    from item Suc.prems obtain s1 p where s1: "poll_one E i ?s = Some (s1, p)"
      "tick_loop E n s1 (b \<or> p) = Some (s', b')"
      by (auto split: option.splits)
    have inv: "exec_inv view ?s" and others: "others_in P j ?s"
      using Suc.prems by (simp_all add: others_in_def)
    have out: "j \<notin> set (items (ready_queue ?s))" and "i \<noteq> j" using Suc.prems item by auto
    note quiet = poll_one_never_wakes [OF nw out others s1(1) \<open>i \<noteq> j\<close>]
    from Suc.IH [OF s1(2) poll_one_inv [OF inv s1(1)]] quiet
      poll_one_keeps [OF inv s1(1), of j] \<open>i \<noteq> j\<close> show ?thesis by simp
  qed
qed simp

lemma run_loop_stuck:
  assumes nw: "never_wakes (futs E) P j" and ext: "\<And>k. TaskWaker j \<notin> set (ext k)"
  shows "exec_inv view s \<Longrightarrow> others_in P j s \<Longrightarrow> j \<notin> set (items (ready_queue s)) \<Longrightarrow> j \<in> dom (tasks s)
    \<Longrightarrow> run_loop E ext tf k n s = None"
proof (induction n arbitrary: s k)
  case (Suc n)
  show ?case
  proof (cases "exec_tick E tf s")
    case None
    with Suc.prems show ?thesis by auto
  next
    case (Some r)
    obtain s' b where r: "r = (s', b)" by fastforce
    with Some have tick: "tick_loop E tf s False = Some (s', b)" by (simp add: exec_tick_def)
    let ?s = "s'\<lparr>ready_queue := wake_all (run_ops E) (ext k) (ready_queue s')\<rparr>"
    have "exec_inv view s'" "items (ready_queue s') = []"
      using tick_loop_steps [OF tick] exec_steps_inv Suc.prems(1) by auto
    moreover note stuck = tick_loop_stuck [OF nw tick Suc.prems(1-3)]
    ultimately have "run_loop E ext tf (Suc k) n ?s = None"
      using ext Suc.prems(4) by (intro Suc.IH) (auto simp: others_in_def)
    with Some r Suc.prems(4) show ?thesis by auto
  qed
qed simp

lemma discard_items: "set (items (ready_queue s)) \<subseteq> set (items (ready_queue (discard_task E t s)))"
  by (auto simp: discard_task_def split: prod.split)

lemma task_poll_wakes_itself:
  assumes "wakes_itself F" "task_poll F C wk t st w = Some (Inr Pending, t', st', w', ws)"
  shows "wk \<in> set ws"
  using assms unfolding wakes_itself_def
  by (auto simp: task_poll.simps split: task_future.splits prod.splits sum.splits poll.splits
      option.splits)

lemma poll_one_covered:
  assumes self: "wakes_itself (futs E)" and poll: "poll_one E i s = Some (s', p)"
    and cov: "dom (tasks s) \<subseteq> insert i (set (items (ready_queue s)))"
  shows "dom (tasks s') \<subseteq> set (items (ready_queue s'))"
proof (cases "tasks s i")
  case None
  with poll cov show ?thesis by (auto simp: poll_one_absent)
next
  case (Some t)
  obtain res t' st w ws where tp:
    "task_poll (futs E) (chan E) (TaskWaker i) t (results s) (world s) = Some (res, t', st, w, ws)"
    using poll Some by (auto simp: poll_one_def Let_def split: option.splits)
  define s2 where "s2 = s\<lparr>tasks := (tasks s)(i := None), results := st, world := w,
    ready_queue := wake_all (run_ops E) ws (ready_queue s)\<rparr>"
  have s2: "dom (tasks s2) \<subseteq> set (items (ready_queue s2))" using cov by (auto simp: s2_def)
  consider "s' = discard_task E t' s2" | "res = Inr Pending" "s' = s2\<lparr>tasks := (tasks s)(i \<mapsto> t')\<rparr>"
    using poll Some tp by (auto simp: poll_one_def Let_def s2_def insert_task_def
        split: sum.splits poll.splits)
  then show ?thesis
  proof cases
    case 1
    with s2 discard_items [of s2 t'] show ?thesis by auto
  next
    case 2
    with task_poll_wakes_itself [OF self] tp have "TaskWaker i \<in> set ws" by auto
    with 2 cov show ?thesis by (auto simp: s2_def)
  qed
qed

lemma tick_loop_covered:
  assumes "wakes_itself (futs E)"
  shows "tick_loop E n s b = Some (s', b') \<Longrightarrow> dom (tasks s) \<subseteq> set (items (ready_queue s))
    \<Longrightarrow> dom (tasks s') = {}"
proof (induction n arbitrary: s b)
  case (Suc n)
  show ?case
  proof (cases rule: q.pop_cases [of "ready_queue s"])
    case (empty q')
    with Suc.prems show ?thesis by auto
  next
    case (item i rest q')
    let ?s = "s\<lparr>ready_queue := q'\<rparr>"
    from item Suc.prems obtain s1 p where s1: "poll_one E i ?s = Some (s1, p)"
      "tick_loop E n s1 (b \<or> p) = Some (s', b')"
      by (auto split: option.splits)
    have "dom (tasks ?s) \<subseteq> insert i (set (items (ready_queue ?s)))"
      using Suc.prems(2) item by auto
    from Suc.IH [OF s1(2) poll_one_covered [OF assms s1(1) this]] show ?thesis .
  qed
qed simp

lemma run_loop_completes:
  assumes "wakes_itself (futs E)" "wake_budget (futs E) rf rw" "exec_inv view s"
    and "dom (tasks s) \<subseteq> set (items (ready_queue s))" "potential items rf rw s < tf"
  shows "\<exists>s'. run_loop E ext tf k (Suc (Suc n)) s = Some s' \<and> dom (tasks s') = {} \<and> exec_inv view s'"
proof -
  obtain s1 b where tick: "tick_loop E tf s False = Some (s1, b)"
    using tick_loop_terminates [OF assms(2,3,5)] by blast
  have "dom (tasks s1) = {}" using tick_loop_covered [OF assms(1) tick assms(4)] .
  moreover have "exec_inv view s1" using tick_loop_steps [OF tick] exec_steps_inv assms(3) by blast
  ultimately show ?thesis using tick assms(3) by (simp add: exec_tick_def)
qed

text \<open>A lone task computes what \<open>drive\<close> says.  The queue may hold the identifier several times
  and may hold identifiers of tasks that are gone.\<close>

lemma tick_loop_idle:
  assumes "tasks s = Map.empty"
  shows "\<exists>m s' b'. tick_loop E m s b = Some (s', b') \<and> tasks s' = Map.empty \<and> results s' = results s"
  using assms
proof (induction "items (ready_queue s)" arbitrary: s b)
  case Nil
  then obtain q' where "q_pop (run_ops E) (ready_queue s) = (None, q')"
    by (cases rule: q.pop_cases [of "ready_queue s"]) auto
  with Nil.prems show ?case by (intro exI [of _ 1]) simp
next
  case (Cons i rest)
  then obtain q' where q': "q_pop (run_ops E) (ready_queue s) = (Some i, q')" "items q' = rest"
    by (cases rule: q.pop_cases [of "ready_queue s"]) auto
  let ?s = "s\<lparr>ready_queue := q'\<rparr>"
  from Cons.hyps(1) [of ?s "b \<or> False"] q' Cons.prems obtain m s' b' where
    "tick_loop E m ?s (b \<or> False) = Some (s', b')" "tasks s' = Map.empty" "results s' = results s"
    by auto
  with q' Cons.prems poll_one_absent [of ?s i] show ?case by (intro exI [of _ "Suc m"]) simp
qed

lemma poll_one_drive:
  assumes t: "tasks s = [i \<mapsto> t]" "t_future t = Wrapped f r"
    and chan: "chan_open view (results s) r" "receiver_alive view (results s) r"
    and drive: "drive (futs E) (TaskWaker i) (Suc n) f (world s) = Some res"
  shows "\<exists>s'. poll_one E i s = Some (s', True)
    \<and> ((tasks s' = Map.empty \<and> chan_holds view (results s') r (outcome res))
      \<or> (\<exists>t' f'. tasks s' = [i \<mapsto> t'] \<and> t_future t' = Wrapped f' r \<and> results s' = results s
          \<and> i \<in> set (items (ready_queue s')) \<and> drive (futs E) (TaskWaker i) n f' (world s') = Some res))"
proof -
  obtain pr f' w' ws where fp: "fo_poll (futs E) (TaskWaker i) f (world s) = (pr, f', w', ws)"
    by (metis prod_cases4)
  obtain w'' ws' where fd: "fo_drop (futs E) f' w' = (w'', ws')" by fastforce
  consider (panic) p where "pr = Inl p" "res = Inl p" | (ready) v where "pr = Inr (Ready v)" "res = Inr v"
    | (pending) "pr = Inr Pending" "TaskWaker i \<in> set ws" "drive (futs E) (TaskWaker i) n f' w' = Some res"
    using drive fp by (auto split: sum.splits poll.splits if_splits)
  then show ?thesis
  proof cases
    case panic
    then show ?thesis using t fp fd c.drop_tx_open [OF chan(1)]
      by (auto simp: poll_one_def task_poll.simps discard_task_def task_drop.simps outcome_def Let_def)
  next
    case ready
    obtain c where "wrapper_complete (chan E) r v (results s) = Some (store_update r (\<lambda>_. c) (results s))"
      "senders (view c) = 0" "queued (view c) = [Inr v]"
      using c.wrapper_complete_open [OF chan(1)] chan(2) by auto
    with ready t fp fd chan(1) show ?thesis
      by (auto simp: poll_one_def task_poll.simps discard_completed outcome_def Let_def chan_holds_def
          chan_open_def)
  next
    case pending
    with t fp show ?thesis
      by (auto simp: poll_one_def task_poll.simps insert_task_def Let_def)
  qed
qed

lemma tick_loop_drive:
  assumes "tasks s = [i \<mapsto> t]" "t_future t = Wrapped f r" "i \<in> set (items (ready_queue s))"
    and "chan_open view (results s) r" "receiver_alive view (results s) r"
    and "drive (futs E) (TaskWaker i) n f (world s) = Some res"
  shows "\<exists>m s' b'. tick_loop E m s b = Some (s', b') \<and> tasks s' = Map.empty
    \<and> chan_holds view (results s') r (outcome res)"
  using assms
proof (induction n arbitrary: s t f b)
  case (Suc n)
  from Suc.prems show ?case
  proof (induction "items (ready_queue s)" arbitrary: s b)
    case (Cons j rest)
    then obtain q' where q': "q_pop (run_ops E) (ready_queue s) = (Some j, q')" "items q' = rest"
      by (cases rule: q.pop_cases [of "ready_queue s"]) auto
    let ?s = "s\<lparr>ready_queue := q'\<rparr>"
    have next_poll: "\<exists>m s' b'. tick_loop E m s b = Some (s', b') \<and> tasks s' = Map.empty
        \<and> chan_holds view (results s') r (outcome res)"
      if "poll_one E j ?s = Some (s1, p)" "\<exists>m s' b'. tick_loop E m s1 (b \<or> p) = Some (s', b')
        \<and> tasks s' = Map.empty \<and> chan_holds view (results s') r (outcome res)" for s1 p
    proof -
      from that(2) obtain m s' b' where "tick_loop E m s1 (b \<or> p) = Some (s', b')"
        "tasks s' = Map.empty" "chan_holds view (results s') r (outcome res)" by blast
      with that(1) q' show ?thesis by (intro exI [of _ "Suc m"]) simp
    qed
    show ?case
    proof (cases "j = i")
      case False
      then have "poll_one E j ?s = Some (?s, False)" using Cons.prems by (simp add: poll_one_absent)
      moreover have "i \<in> set rest" using Cons.prems Cons.hyps(2) False by (metis set_ConsD)
      ultimately show ?thesis
        using Cons.hyps(1) [of ?s "b \<or> False"] q'(2) Cons.prems by (intro next_poll [of ?s False]) simp_all
    next
      case True
      with poll_one_drive [of ?s i t f r n res] Cons.prems obtain s1 where
        s1: "poll_one E j ?s = Some (s1, True)" and
        "(tasks s1 = Map.empty \<and> chan_holds view (results s1) r (outcome res))
         \<or> (\<exists>t' f'. tasks s1 = [i \<mapsto> t'] \<and> t_future t' = Wrapped f' r \<and> results s1 = results s
            \<and> i \<in> set (items (ready_queue s1)) \<and> drive (futs E) (TaskWaker i) n f' (world s1) = Some res)"
        by auto
      then show ?thesis
      proof (elim disjE exE conjE)
        assume "tasks s1 = Map.empty" "chan_holds view (results s1) r (outcome res)"
        with tick_loop_idle [of s1 "b \<or> True"] show ?thesis by (intro next_poll [OF s1]) metis
      next
        fix t' f' assume "tasks s1 = [i \<mapsto> t']" "t_future t' = Wrapped f' r" "results s1 = results s"
          "i \<in> set (items (ready_queue s1))" "drive (futs E) (TaskWaker i) n f' (world s1) = Some res"
        with Suc.IH [of s1 t' f' "b \<or> True"] Cons.prems show ?thesis
          by (intro next_poll [OF s1]) simp_all
      qed
    qed
  qed simp
qed simp

end

text \<open>The executor over list queues and view channels, for any futures.\<close>

definition list_env :: "('f, 'v, 'w) future_ops
    \<Rightarrow> ('f, 'v, 'w, task_id list, 'v task_result chan_view) exec_env" where
  "list_env F = \<lparr>run_ops = list_queue, chan = view_channel, futs = F\<rparr>"

lemma list_env_sel [simp]:
  "run_ops (list_env F) = list_queue" "chan (list_env F) = view_channel" "futs (list_env F) = F"
  by (simp_all add: list_env_def)

interpretation list_exec: executor_env "list_env F" "\<lambda>q. q" "\<lambda>v. v" for F
  by (rule executor_env.intro)
    (simp_all add: list_env_def list_queue.seg_queue_axioms view_channel.channel_axioms)

interpretation exec_ids: id_counter new_task_id TaskId
  by unfold_locales (simp_all add: new_task_id_def fetch_add_def)

text \<open>Futures for the examples: \<open>countdown\<close> yields as often as its number says, waking itself
  each time, and then returns 7; \<open>forever\<close> is pending without waking anyone; the number 9 makes
  \<open>fragile\<close> panic.\<close>

definition countdown :: "(nat, nat, unit) future_ops" where
  "countdown = \<lparr>fo_poll = (\<lambda>wk f w. case f of
      0 \<Rightarrow> (Inr (Ready 7), 0, w, []) | Suc n \<Rightarrow> (Inr Pending, n, w, [wk])),
    fo_drop = (\<lambda>f w. (w, []))\<rparr>"

definition forever :: "(nat, nat, unit) future_ops" where
  "forever = \<lparr>fo_poll = (\<lambda>wk f w. (Inr Pending, f, w, [])), fo_drop = (\<lambda>f w. (w, []))\<rparr>"

definition fragile :: "(nat, nat, unit) future_ops" where
  "fragile = \<lparr>fo_poll = (\<lambda>wk f w. if f = 9 then (Inl 1, f, w, []) else (Inr (Ready f), f, w, [])),
    fo_drop = (\<lambda>f w. (w, []))\<rparr>"

section \<open>Properties\<close>

text \<open>C1. \<open>spawn\<close> followed by \<open>run\<close> implements the future: if polling the future to its end
  gives a value, then \<open>run\<close> of the new executor returns, no task is left, and awaiting the join
  handle yields exactly that value.  If it ends in a panic, \<open>run\<close> returns as well and the handle
  yields \<open>Cancelled\<close>.\<close>

theorem spawn_run_delivers:
  assumes "seg_queue (run_ops E) items" "channel (chan E) view"
    and drive: "drive (futs E) (TaskWaker (TaskId 1)) n f w = Some res"
    and spawn: "spawn_single_cpu E f store_empty w = (h, s)"
  shows "\<exists>tick_fuel fuel s'. exec_run E ext tick_fuel fuel s = Some s' \<and> dom (tasks s') = {}
    \<and> fst (jh_poll (chan E) wk h (results s')) = Ready (case res of Inl p \<Rightarrow> Inl Cancelled | Inr v \<Rightarrow> Inr v)"
proof -
  have env: "executor_env E items view" using assms(1,2) by (rule executor_env.intro)
  let ?t = "task_new (TaskId 1) (Wrapped f 0)"
  have s: "h = join_handle_new (TaskId 1) 0" "tasks s = [TaskId 1 \<mapsto> ?t]" "world s = w"
    "results s = \<lparr>cells = [0 \<mapsto> ch_bounded (chan E) 1], next_cell = 1\<rparr>"
    "ready_queue s = q_push (run_ops E) (q_new (run_ops E)) (TaskId 1)"
    using spawn by (auto simp: spawn_single_cpu_def exec_spawn_def executor_new_def new_task_id_def
        fetch_add_def store_alloc_def store_empty_def insert_task_def)
  have chan: "chan_open view (results s) 0" "receiver_alive view (results s) 0"
    using s(4) channel.view_ch_bounded [OF assms(2), of 1]
    by (simp_all add: chan_open_def receiver_alive_def view_bounded_def)
  have queued: "TaskId 1 \<in> set (items (ready_queue s))"
    using s(5) seg_queue.items_push [OF assms(1)] by simp
  from executor_env.tick_loop_drive [OF env s(2) _ queued chan, of f n res False] drive s(3)
  obtain m s' b where tick: "tick_loop E m s False = Some (s', b)" "tasks s' = Map.empty"
    "chan_holds view (results s') 0 (outcome res)"
    by (auto simp: task_new_def)
  define s'' where "s'' = s'\<lparr>ready_queue := wake_all (run_ops E) (ext 0) (ready_queue s')\<rparr>"
  have "exec_run E ext m 2 s = Some s''"
    using tick s(2) by (simp add: exec_run_def exec_tick_def numeral_2_eq_2 s''_def)
  moreover have "chan_holds view (results s'') (jh_receiver h) (outcome res)"
    using tick(3) s(1) by (simp add: s''_def join_handle_new_def)
  from result_channel.jh_poll_holds [OF result_channel.intro [OF assms(2)] this, of wk]
  have "fst (jh_poll (chan E) wk h (results s''))
      = Ready (case res of Inl p \<Rightarrow> Inl Cancelled | Inr v \<Rightarrow> Inr v)"
    by (simp add: outcome_def split: sum.splits)
  moreover have "dom (tasks s'') = {}" using tick(2) by (simp add: s''_def)
  ultimately show ?thesis by blast
qed

theorem spawn_run_delivers_witness:
  "\<exists>tick_fuel fuel s'.
    exec_run (list_env countdown) (\<lambda>_. []) tick_fuel fuel
      (snd (spawn_single_cpu (list_env countdown) 3 store_empty ())) = Some s' \<and> dom (tasks s') = {}
    \<and> fst (jh_poll view_channel DummyWaker
        (fst (spawn_single_cpu (list_env countdown) 3 store_empty ())) (results s')) = Ready (Inr 7)"
proof -
  have "drive (futs (list_env countdown)) (TaskWaker (TaskId 1)) 4 3 () = Some (Inr 7)"
    by (simp add: list_env_def countdown_def eval_nat_numeral)
  from spawn_run_delivers [OF list_exec.queue list_exec.channel this prod.collapse [symmetric],
      of "\<lambda>_. []" DummyWaker] show ?thesis
    by (simp add: list_env_def)
qed

text \<open>C2. At every moment of every history of the executor, interleaved with wake-ups and with
  join handles that are polled and dropped by other threads, a join handle is pending exactly
  while its task is still in the executor; so a handle never waits for a task that is gone and
  never reports an end before the task has ended.\<close>

theorem join_handle_pending_iff_live:
  assumes "seg_queue (run_ops E) items" "channel (chan E) view" "exec_reachable E s"
    and "jh_receiver h < next_cell (results s)"
  shows "fst (jh_poll (chan E) wk h (results s)) = Pending
    \<longleftrightarrow> (\<exists>i t. tasks s i = Some t \<and> task_ref t = Some (jh_receiver h))"
proof -
  have env: "executor_env E items view" using assms(1,2) by (rule executor_env.intro)
  have chan: "result_channel (chan E) view" using assms(2) by (rule result_channel.intro)
  have inv: "exec_inv view s" using executor_env.exec_reachable_inv [OF env assms(3)] .
  have "fst (jh_poll (chan E) wk h (results s)) = Pending"
    if "tasks s i = Some t" "task_ref t = Some (jh_receiver h)" for i t
    using exec_wf_open [OF _ that] inv result_channel.jh_poll_open [OF chan]
    by (auto simp: exec_inv_def)
  moreover have "fst (jh_poll (chan E) wk h (results s)) \<noteq> Pending"
    if "chan_closed view (results s) (jh_receiver h)"
    using that result_channel.jh_poll_holds [OF chan] by (auto simp: chan_closed_def chan_holds_def)
  ultimately show ?thesis
    using inv assms(4) by (auto simp: exec_inv_def channels_accounted_def)
qed

lemma reachable_spawn:
  "exec_spawn E f (executor_new E store_empty w) = (h, s) \<Longrightarrow> exec_reachable E s"
  unfolding exec_reachable_def by (blast intro: step_spawn)

theorem join_handle_pending_iff_live_witness:
  "fst (jh_poll view_channel DummyWaker (join_handle_new (TaskId 1) 0)
    (results (snd (exec_spawn (list_env forever) 0 (executor_new (list_env forever) store_empty ())))))
   = Pending"
proof -
  let ?E = "list_env forever"
  let ?s = "snd (exec_spawn ?E 0 (executor_new ?E store_empty ()))"
  have "exec_reachable ?E ?s" by (rule reachable_spawn [OF prod.collapse [symmetric]])
  moreover have "jh_receiver (join_handle_new (TaskId 1) 0) < next_cell (results ?s)"
    and "tasks ?s (TaskId 1) = Some (task_new (TaskId 1) (Wrapped 0 0))"
    by (simp_all add: exec_spawn_def executor_new_def new_task_id_def fetch_add_def store_alloc_eq
        store_empty_def insert_task_def join_handle_new_def)
  moreover have "task_ref (task_new (TaskId 1) (Wrapped 0 0)) = Some (jh_receiver (join_handle_new (TaskId 1) 0))"
    by (simp add: task_new_def task_ref_def join_handle_new_def)
  ultimately have "fst (jh_poll (chan ?E) DummyWaker (join_handle_new (TaskId 1) 0) (results ?s)) = Pending"
    using join_handle_pending_iff_live [OF list_exec.queue list_exec.channel, of forever ?s] by blast
  then show ?thesis by simp
qed

text \<open>C17. Panic isolation.  When the future of a spawned task panics, the executor goes on: the
  iteration of \<open>tick\<close> returns, the task is gone, every other task and every other result channel
  is as before, and the join handle of the task yields \<open>Cancelled\<close> (never
  \<open>TaskError::Panic\<close>).\<close>

theorem panic_isolated:
  assumes "seg_queue (run_ops E) items" "channel (chan E) view" "exec_reachable E s"
    and t: "tasks s i = Some t" "t_future t = Wrapped f r"
    and panic: "fo_poll (futs E) (TaskWaker i) f (world s) = (Inl p, f', w', ws)"
  shows "\<exists>s'. poll_one E i s = Some (s', True) \<and> tasks s' = (tasks s)(i := None)
    \<and> (\<forall>r'. r' \<noteq> r \<longrightarrow> cells (results s') r' = cells (results s) r')
    \<and> fst (jh_poll (chan E) wk (join_handle_new i r) (results s')) = Ready (Inl Cancelled)"
proof -
  have env: "executor_env E items view" using assms(1,2) by (rule executor_env.intro)
  have chan: "result_channel (chan E) view" using assms(2) by (rule result_channel.intro)
  have "exec_wf view s"
    using executor_env.exec_reachable_inv [OF env assms(3)] by (simp add: exec_inv_def)
  then have "chan_open view (results s) r"
    using t by (auto intro: exec_wf_open simp: task_ref_def)
  then have "chan_holds view (store_update r (ch_drop_tx (chan E)) (results s)) r []"
    by (rule result_channel.drop_tx_open [OF chan])
  then have handle: "fst (jh_poll (chan E) wk (join_handle_new i r)
      (store_update r (ch_drop_tx (chan E)) (results s))) = Ready (Inl Cancelled)"
    using result_channel.jh_poll_holds [OF chan, of _ "join_handle_new i r" "[]"]
    by (simp add: join_handle_new_def)
  obtain w'' ws' where "fo_drop (futs E) f' w' = (w'', ws')" by fastforce
  with t panic handle show ?thesis
    by (auto simp: poll_one_def task_poll.simps discard_task_def task_drop.simps Let_def)
qed

theorem panic_isolated_witness:
  "\<exists>s'. poll_one (list_env fragile) (TaskId 1)
      (snd (exec_spawn (list_env fragile) 9 (executor_new (list_env fragile) store_empty ())))
      = Some (s', True) \<and> tasks s' = Map.empty
    \<and> fst (jh_poll view_channel DummyWaker (join_handle_new (TaskId 1) 0) (results s'))
      = Ready (Inl Cancelled)"
proof -
  let ?E = "list_env fragile"
  let ?s = "snd (exec_spawn ?E 9 (executor_new ?E store_empty ()))"
  have "exec_reachable ?E ?s" by (rule reachable_spawn [OF prod.collapse [symmetric]])
  moreover have tasks: "tasks ?s = [TaskId 1 \<mapsto> task_new (TaskId 1) (Wrapped 9 0)]"
    by (simp add: exec_spawn_def executor_new_def new_task_id_def fetch_add_def store_alloc_eq
        store_empty_def insert_task_def)
  moreover have "fo_poll (futs ?E) (TaskWaker (TaskId 1)) 9 (world ?s) = (Inl 1, 9, (), [])"
    by (simp add: fragile_def)
  moreover have "t_future (task_new (TaskId 1) (Wrapped 9 0)) = Wrapped (9::nat) 0"
    by (simp add: task_new_def)
  ultimately have "\<exists>s'. poll_one ?E (TaskId 1) ?s = Some (s', True)
      \<and> tasks s' = (tasks ?s)(TaskId 1 := None)
      \<and> (\<forall>r'. r' \<noteq> 0 \<longrightarrow> cells (results s') r' = cells (results ?s) r')
      \<and> fst (jh_poll (chan ?E) DummyWaker (join_handle_new (TaskId 1) 0) (results s'))
        = Ready (Inl Cancelled)"
    by (intro panic_isolated [OF list_exec.queue list_exec.channel]) simp_all
  with tasks show ?thesis by auto
qed

text \<open>When \<open>tick\<close> returns, the run queue is empty and every task is where the transition
  system of the executor can put it; its answer is true exactly if some task in the queue was
  live at the start.\<close>

theorem tick_result:
  assumes "seg_queue (run_ops E) items" "channel (chan E) view" "exec_reachable E s"
    and "exec_tick E fuel s = Some (s', progress)"
  shows "items (ready_queue s') = [] \<and> exec_reachable E s'
    \<and> (progress \<longleftrightarrow> (\<exists>i \<in> set (items (ready_queue s)). i \<in> dom (tasks s)))"
proof -
  have env: "executor_env E items view" using assms(1,2) by (rule executor_env.intro)
  have tick: "tick_loop E fuel s False = Some (s', progress)"
    using assms(4) by (simp add: exec_tick_def)
  show ?thesis
    using executor_env.tick_loop_steps [OF env tick] assms(3)
      executor_env.tick_loop_progress [OF env tick executor_env.exec_reachable_inv [OF env assms(3)]]
    by (auto simp: exec_reachable_def intro: rtranclp_trans)
qed

definition demo_exec :: "(nat, task_id list, nat task_result chan_view, unit) exec_state" where
  "demo_exec = snd (exec_spawn (list_env countdown) 2 (executor_new (list_env countdown) store_empty ()))"

lemma demo_exec_reachable: "exec_reachable (list_env countdown) demo_exec"
  unfolding demo_exec_def by (rule reachable_spawn [OF prod.collapse [symmetric]])

lemma demo_exec_eq: "demo_exec = \<lparr>tasks = [TaskId 1 \<mapsto> \<lparr>t_id = TaskId 1, t_future = Wrapped 2 0\<rparr>],
    ready_queue = [TaskId 1], next_task_id = 2,
    results = \<lparr>cells = [0 \<mapsto> view_bounded 1], next_cell = 1\<rparr>, world = ()\<rparr>"
  by (simp add: demo_exec_def exec_spawn_def executor_new_def new_task_id_def fetch_add_def
      store_alloc_eq store_empty_def insert_task_def list_queue_def view_channel_def task_new_def)

text \<open>\<open>tick\<close> returns whenever the wake-ups that the futures cause are bounded: a rank of the
  tasks and of the outside world that pays for every wake-up bounds the number of iterations.\<close>

theorem tick_terminates:
  assumes "seg_queue (run_ops E) items" "channel (chan E) view" "exec_reachable E s"
    and "wake_budget (futs E) rf rw" "potential items rf rw s < fuel"
  shows "\<exists>s' progress. exec_tick E fuel s = Some (s', progress)"
proof -
  have env: "executor_env E items view" using assms(1,2) by (rule executor_env.intro)
  show ?thesis
    using executor_env.tick_loop_terminates [OF env assms(4)
        executor_env.exec_reachable_inv [OF env assms(3)] assms(5), of False]
    by (auto simp: exec_tick_def)
qed

lemma length_woken_task: "length (woken_task wk) \<le> 1"
  by (cases wk) simp_all

lemma countdown_budget: "wake_budget countdown (\<lambda>f. f) (\<lambda>w. 0)"
  using length_woken_task by (auto simp: wake_budget_def countdown_def split: nat.splits)

lemma demo_exec_potential: "potential (\<lambda>q. q) (\<lambda>f. f) (\<lambda>w. 0) demo_exec < 4"
  by (simp add: potential_def demo_exec_eq task_rank_def)

theorem tick_terminates_witness:
  "\<exists>s' progress. exec_tick (list_env countdown) 4 demo_exec = Some (s', progress)"
  using tick_terminates [OF list_exec.queue list_exec.channel demo_exec_reachable _
      demo_exec_potential] countdown_budget by simp

theorem tick_result_witness:
  "\<exists>s'. exec_tick (list_env countdown) 4 demo_exec = Some (s', True) \<and> ready_queue s' = []"
proof -
  obtain s' p where "exec_tick (list_env countdown) 4 demo_exec = Some (s', p)"
    using executor_env.tick_loop_terminates [OF list_exec.executor_env_axioms _
        executor_env.exec_reachable_inv [OF list_exec.executor_env_axioms demo_exec_reachable]
        demo_exec_potential] countdown_budget
    by (fastforce simp: exec_tick_def)
  with tick_result [OF list_exec.queue list_exec.channel demo_exec_reachable this] show ?thesis
    by (simp add: demo_exec_eq)
qed

text \<open>C16. \<open>run\<close> returns, with no task left, when every pending future has called its own waker
  and the wake-ups are bounded: two rounds of its loop are enough, whatever other threads do.\<close>

theorem run_completes:
  assumes "seg_queue (run_ops E) items" "channel (chan E) view" "exec_reachable E s"
    and "wakes_itself (futs E)" "wake_budget (futs E) rf rw"
    and "dom (tasks s) \<subseteq> set (items (ready_queue s))" "potential items rf rw s < tick_fuel"
  shows "\<exists>s'. exec_run E ext tick_fuel 2 s = Some s' \<and> task_count s' = 0"
proof -
  have env: "executor_env E items view" using assms(1,2) by (rule executor_env.intro)
  show ?thesis
    using executor_env.run_loop_completes [OF env assms(4,5)
        executor_env.exec_reachable_inv [OF env assms(3)] assms(6,7), of ext 0 0]
    by (auto simp: exec_run_def numeral_2_eq_2 task_count_def simp del: run_loop.simps)
qed

theorem run_completes_witness:
  "\<exists>s'. exec_run (list_env countdown) (\<lambda>_. [DummyWaker]) 4 2 demo_exec = Some s' \<and> task_count s' = 0"
proof -
  have "wakes_itself (futs (list_env countdown))"
    by (auto simp: wakes_itself_def countdown_def split: nat.splits)
  moreover have "dom (tasks demo_exec) \<subseteq> set (ready_queue demo_exec)" by (simp add: demo_exec_eq)
  ultimately show ?thesis
    using run_completes [OF list_exec.queue list_exec.channel demo_exec_reachable _ _ _
        demo_exec_potential] countdown_budget by simp
qed

text \<open>A lost wake-up hangs \<open>run\<close>: if a live task is not in the run queue and neither the
  futures of the other tasks nor other threads ever wake it, \<open>run\<close> returns with no amount of fuel.\<close>

theorem lost_wakeup_hangs_run:
  assumes "seg_queue (run_ops E) items" "channel (chan E) view" "exec_reachable E s"
    and "j \<in> dom (tasks s)" "j \<notin> set (items (ready_queue s))"
    and "never_wakes (futs E) P j" "others_in P j s" "\<And>k. TaskWaker j \<notin> set (ext k)"
  shows "exec_run E ext tick_fuel fuel s = None"
proof -
  have env: "executor_env E items view" using assms(1,2) by (rule executor_env.intro)
  show ?thesis
    unfolding exec_run_def
    by (rule executor_env.run_loop_stuck [OF env assms(6,8)
          executor_env.exec_reachable_inv [OF env assms(3)] assms(7,5,4)])
qed

text \<open>A task that was polled once, is pending and was not woken.\<close>

definition demo_parked :: "(nat, task_id list, nat task_result chan_view, unit) exec_state" where
  "demo_parked = (snd (exec_spawn (list_env forever) 0 (executor_new (list_env forever) store_empty ())))
     \<lparr>ready_queue := []\<rparr>"

lemma demo_parked_reachable: "exec_reachable (list_env forever) demo_parked"
proof -
  let ?E = "list_env forever"
  let ?s = "snd (exec_spawn ?E 0 (executor_new ?E store_empty ()))"
  have "exec_step ?E ?s demo_parked"
    by (rule step_poll [of _ _ "TaskId 1" "[]" _ True])
      (simp_all add: demo_parked_def exec_spawn_def executor_new_def new_task_id_def fetch_add_def
        store_alloc_eq store_empty_def insert_task_def list_queue_def poll_one_def task_poll.simps
        task_new_def forever_def)
  with reachable_spawn [OF prod.collapse [symmetric], of ?E 0 "()"] show ?thesis
    unfolding exec_reachable_def by (meson rtranclp.rtrancl_into_rtrancl)
qed

theorem lost_wakeup_hangs_run_witness:
  "exec_run (list_env forever) (\<lambda>_. []) 100 100 demo_parked = None"
proof -
  have "TaskId 1 \<in> dom (tasks demo_parked)" "TaskId 1 \<notin> set (ready_queue demo_parked)"
    by (simp_all add: demo_parked_def exec_spawn_def executor_new_def new_task_id_def fetch_add_def
        store_alloc_eq store_empty_def insert_task_def)
  moreover have "never_wakes (futs (list_env forever)) (\<lambda>_. True) (TaskId 1)" "others_in (\<lambda>_. True) j s" for j s
    by (simp_all add: never_wakes_def forever_def others_in_def task_future_in_def
        split: task_future.split)
  ultimately show ?thesis
    by (intro lost_wakeup_hangs_run [OF list_exec.queue list_exec.channel demo_parked_reachable,
          of "TaskId 1"]) simp_all
qed

end
