(* ===== verification/Sleep.thy ===== *)
theory Sleep
  imports Timer Executor
begin

text \<open>
  Futures that read the clock: \<open>src/timer/sleep.rs\<close>, \<open>timer/interval.rs\<close>, \<open>timer/timeout.rs\<close>
  and the periodic tasks of \<open>src/task.rs\<close>.

  The clock is a parameter \<open>clock :: nat \<Rightarrow> instant\<close>: \<open>clock k\<close> is what the \<open>k\<close>-th call of
  \<open>Instant::now\<close> returns.  That \<open>Instant\<close> is monotonic is the hypothesis \<open>mono clock\<close> where a
  proof needs it.  The world of these futures counts the readings, holds the process-wide timer
  counter, and carries whatever world the user futures have.
\<close>

section \<open>Reading the clock\<close>

record 'w timed =
  reads :: nat
  timer_counter :: u64
  outer :: 'w

definition instant_now :: "(nat \<Rightarrow> instant) \<Rightarrow> 'w timed \<Rightarrow> instant \<times> 'w timed" where
  "instant_now clock w = (clock (reads w), w\<lparr>reads := Suc (reads w)\<rparr>)"

text \<open>The payload with which a panic of the runtime's own code reaches a task.\<close>

fun panic_payload :: "panic \<Rightarrow> nat" where
  "panic_payload (UserPanic n) = n"
| "panic_payload _ = 0"

section \<open>SleepFuture\<close>

record sleep_future =
  sf_wheel :: "waker timer_wheel option"
  sf_end :: instant

definition sleep_new ::
  "(nat \<Rightarrow> instant) \<Rightarrow> duration \<Rightarrow> 'w timed \<Rightarrow> (sleep_future \<times> 'w timed) may_panic" where
  "sleep_new clock d w =
    (let (t0, w1) = instant_now clock w;
         wheel = wheel_default t0;
         (t1, w2) = instant_now clock w1
     in case instant_add t1 d of
          Inl e \<Rightarrow> Inl e
        | Inr end_time \<Rightarrow> Inr (\<lparr>sf_wheel = Some wheel, sf_end = end_time\<rparr>, w2))"

definition sleep_poll ::
  "(nat \<Rightarrow> instant) \<Rightarrow> waker \<Rightarrow> sleep_future \<Rightarrow> 'w timed
   \<Rightarrow> (nat + unit poll) \<times> sleep_future \<times> 'w timed \<times> waker list" where
  "sleep_poll clock wk sf w =
    (let (t, w1) = instant_now clock w in
     if t \<ge> sf_end sf then (Inr (Ready ()), sf, w1, [])
     else case sf_wheel sf of
            None \<Rightarrow> (Inr Pending, sf, w1, [])
          | Some wheel \<Rightarrow>
              (case schedule (sf_end sf) wk (timer_counter w1) wheel of
                 Inl e \<Rightarrow> (Inl (panic_payload e), sf, w1, [])
               | Inr (_, c, wheel') \<Rightarrow>
                   (Inr Pending, sf\<lparr>sf_wheel := Some wheel'\<rparr>, w1\<lparr>timer_counter := c\<rparr>, [])))"

definition sleep_ops :: "(nat \<Rightarrow> instant) \<Rightarrow> (sleep_future, unit, 'w timed) future_ops" where
  "sleep_ops clock = \<lparr>fo_poll = sleep_poll clock, fo_drop = (\<lambda>sf w. (w, []))\<rparr>"

section \<open>Timeout\<close>

datatype timeout_error = TimeoutError

record 'f timeout_future =
  tm_future :: 'f
  tm_timeout :: sleep_future

definition timeout_new ::
  "(nat \<Rightarrow> instant) \<Rightarrow> 'f \<Rightarrow> duration \<Rightarrow> 'w timed \<Rightarrow> ('f timeout_future \<times> 'w timed) may_panic" where
  "timeout_new clock f d w =
    (case sleep_new clock d w of
       Inl e \<Rightarrow> Inl e
     | Inr (sf, w') \<Rightarrow> Inr (\<lparr>tm_future = f, tm_timeout = sf\<rparr>, w'))"

definition timeout_poll ::
  "(nat \<Rightarrow> instant) \<Rightarrow> ('f, 'v, 'w timed) future_ops \<Rightarrow> waker \<Rightarrow> 'f timeout_future \<Rightarrow> 'w timed
   \<Rightarrow> (nat + (timeout_error + 'v) poll) \<times> 'f timeout_future \<times> 'w timed \<times> waker list" where
  "timeout_poll clock F wk t w =
    (case fo_poll F wk (tm_future t) w of
       (Inl p, f, w1, ws) \<Rightarrow> (Inl p, t\<lparr>tm_future := f\<rparr>, w1, ws)
     | (Inr (Ready val), f, w1, ws) \<Rightarrow> (Inr (Ready (Inr val)), t\<lparr>tm_future := f\<rparr>, w1, ws)
     | (Inr Pending, f, w1, ws) \<Rightarrow>
         (case sleep_poll clock wk (tm_timeout t) w1 of
            (Inl p, sf, w2, ws') \<Rightarrow> (Inl p, \<lparr>tm_future = f, tm_timeout = sf\<rparr>, w2, ws @ ws')
          | (Inr (Ready _), sf, w2, ws') \<Rightarrow>
              (Inr (Ready (Inl TimeoutError)), \<lparr>tm_future = f, tm_timeout = sf\<rparr>, w2, ws @ ws')
          | (Inr Pending, sf, w2, ws') \<Rightarrow>
              (Inr Pending, \<lparr>tm_future = f, tm_timeout = sf\<rparr>, w2, ws @ ws')))"

definition timeout_ops ::
  "(nat \<Rightarrow> instant) \<Rightarrow> ('f, 'v, 'w timed) future_ops
   \<Rightarrow> ('f timeout_future, timeout_error + 'v, 'w timed) future_ops" where
  "timeout_ops clock F =
    \<lparr>fo_poll = timeout_poll clock F, fo_drop = (\<lambda>t w. fo_drop F (tm_future t) w)\<rparr>"

section \<open>Interval\<close>

record interval =
  period :: duration
  next_tick :: instant

definition interval_new ::
  "(nat \<Rightarrow> instant) \<Rightarrow> duration \<Rightarrow> 'w timed \<Rightarrow> (interval \<times> 'w timed) may_panic" where
  "interval_new clock d w =
    (let (t, w1) = instant_now clock w in
     case instant_add t d of
       Inl e \<Rightarrow> Inl e
     | Inr at \<Rightarrow> Inr (\<lparr>period = d, next_tick = at\<rparr>, w1))"

text \<open>The states of the asynchronous \<open>tick\<close>: at the head of its loop, or awaiting the
  \<open>SleepFuture\<close> of the current iteration.\<close>

datatype tick_state = AtLoop | Sleeping sleep_future

text \<open>One poll of \<open>tick\<close>.  The loop has no bound in the source, so the model has fuel; that
  two iterations are always enough is a theorem below.\<close>

fun tick_poll ::
  "(nat \<Rightarrow> instant) \<Rightarrow> nat \<Rightarrow> waker \<Rightarrow> tick_state \<Rightarrow> interval \<Rightarrow> 'w timed
   \<Rightarrow> ((nat + unit poll) \<times> tick_state \<times> interval \<times> 'w timed) option" where
  "tick_poll clock 0 wk st iv w = None"
| "tick_poll clock (Suc fuel) wk AtLoop iv w =
    (let (t, w1) = instant_now clock w in
     if t \<ge> next_tick iv
     then (case instant_add (next_tick iv) (period iv) of
             Inl e \<Rightarrow> Some (Inl (panic_payload e), AtLoop, iv, w1)
           | Inr n \<Rightarrow> Some (Inr (Ready ()), AtLoop, iv\<lparr>next_tick := n\<rparr>, w1))
     else (case sleep_new clock (next_tick iv - t) w1 of
             Inl e \<Rightarrow> Some (Inl (panic_payload e), AtLoop, iv, w1)
           | Inr (sf, w2) \<Rightarrow> tick_poll clock fuel wk (Sleeping sf) iv w2))"
| "tick_poll clock (Suc fuel) wk (Sleeping sf) iv w =
    (case sleep_poll clock wk sf w of
       (Inl p, sf', w1, _) \<Rightarrow> Some (Inl p, Sleeping sf', iv, w1)
     | (Inr Pending, sf', w1, _) \<Rightarrow> Some (Inr Pending, Sleeping sf', iv, w1)
     | (Inr (Ready _), sf', w1, _) \<Rightarrow> tick_poll clock fuel wk AtLoop iv w1)"

text \<open>A user of an interval: \<open>m\<close> polls in a row, the next \<open>tick\<close> started as soon as one has
  completed; the number of completed ticks is counted.\<close>

primrec poll_ticks ::
  "(nat \<Rightarrow> instant) \<Rightarrow> waker \<Rightarrow> nat \<Rightarrow> nat \<Rightarrow> tick_state \<Rightarrow> interval \<Rightarrow> 'w timed
   \<Rightarrow> (nat \<times> tick_state \<times> interval \<times> 'w timed) option" where
  "poll_ticks clock wk 0 n st iv w = Some (n, st, iv, w)"
| "poll_ticks clock wk (Suc m) n st iv w =
    (case tick_poll clock 3 wk st iv w of
       Some (Inr (Ready _), st', iv', w') \<Rightarrow> poll_ticks clock wk m (Suc n) st' iv' w'
     | Some (Inr Pending, st', iv', w') \<Rightarrow> poll_ticks clock wk m n st' iv' w'
     | _ \<Rightarrow> None)"

section \<open>Periodic tasks\<close>

text \<open>The asynchronous block of \<open>spawn_periodic\<close>: not yet started, awaiting \<open>interval.tick()\<close>,
  or awaiting the future that a call of the callback returned.  \<open>call\<close> is that call.  The block
  loops without bound, so its poll has fuel.\<close>

datatype 'f periodic = PStart duration | PTick tick_state interval | PCall 'f interval

fun periodic_poll ::
  "(nat \<Rightarrow> instant) \<Rightarrow> ('f, unit, 'w timed) future_ops \<Rightarrow> ('w timed \<Rightarrow> 'f \<times> 'w timed)
   \<Rightarrow> nat \<Rightarrow> waker \<Rightarrow> 'f periodic \<Rightarrow> 'w timed
   \<Rightarrow> ((nat + unit poll) \<times> 'f periodic \<times> 'w timed \<times> waker list) option" where
  "periodic_poll clock F call 0 wk st w = None"
| "periodic_poll clock F call (Suc fuel) wk (PStart d) w =
    (case interval_new clock d w of
       Inl e \<Rightarrow> Some (Inl (panic_payload e), PStart d, w, [])
     | Inr (iv, w1) \<Rightarrow> periodic_poll clock F call fuel wk (PTick AtLoop iv) w1)"
| "periodic_poll clock F call (Suc fuel) wk (PTick st iv) w =
    (case tick_poll clock (Suc fuel) wk st iv w of
       None \<Rightarrow> None
     | Some (Inl p, st', iv', w1) \<Rightarrow> Some (Inl p, PTick st' iv', w1, [])
     | Some (Inr Pending, st', iv', w1) \<Rightarrow> Some (Inr Pending, PTick st' iv', w1, [])
     | Some (Inr (Ready _), st', iv', w1) \<Rightarrow>
         (let (f, w2) = call w1 in periodic_poll clock F call fuel wk (PCall f iv') w2))"
| "periodic_poll clock F call (Suc fuel) wk (PCall f iv) w =
    (case fo_poll F wk f w of
       (Inl p, f', w1, ws) \<Rightarrow> Some (Inl p, PCall f' iv, w1, ws)
     | (Inr Pending, f', w1, ws) \<Rightarrow> Some (Inr Pending, PCall f' iv, w1, ws)
     | (Inr (Ready _), f', w1, ws) \<Rightarrow>
         (let (w2, ws') = fo_drop F f' w1 in
          map_option (\<lambda>(r, st, w3, ws''). (r, st, w3, ws @ ws' @ ws''))
            (periodic_poll clock F call fuel wk (PTick AtLoop iv) w2)))"

text \<open>The state of a future and of its world after \<open>n\<close> polls.\<close>

primrec poll_n :: "('f, 'v, 'w) future_ops \<Rightarrow> waker \<Rightarrow> nat \<Rightarrow> 'f \<Rightarrow> 'w \<Rightarrow> 'f \<times> 'w" where
  "poll_n F wk 0 f w = (f, w)"
| "poll_n F wk (Suc n) f w = (case fo_poll F wk f w of (_, f', w', _) \<Rightarrow> poll_n F wk n f' w')"

section \<open>Lemmas on sleeping\<close>

definition sleep_wf :: "sleep_future \<Rightarrow> bool" where
  "sleep_wf sf \<longleftrightarrow> (case sf_wheel sf of None \<Rightarrow> True | Some wheel \<Rightarrow> wheel_wf wheel)"

definition tick_wf :: "tick_state \<Rightarrow> interval \<Rightarrow> bool" where
  "tick_wf st iv \<longleftrightarrow> (case st of AtLoop \<Rightarrow> True | Sleeping sf \<Rightarrow> sleep_wf sf \<and> next_tick iv \<le> sf_end sf)"

lemma sleep_new_eq:
  "sleep_new clock d w =
    (if clock (Suc (reads w)) + d < instant_limit
     then Inr (\<lparr>sf_wheel = Some (wheel_default (clock (reads w))), sf_end = clock (Suc (reads w)) + d\<rparr>,
       w\<lparr>reads := Suc (Suc (reads w))\<rparr>)
     else Inl ArithmeticOverflow)"
  by (simp add: sleep_new_def instant_now_def instant_add_def)

lemma sleep_wf_new: "sleep_wf \<lparr>sf_wheel = Some (wheel_default t), sf_end = e\<rparr>"
  by (simp add: sleep_wf_def wheel_default_def wheel_wf_new)

lemma sleep_poll_due:
  "sf_end sf \<le> clock (reads w) \<Longrightarrow>
   sleep_poll clock wk sf w = (Inr (Ready ()), sf, w\<lparr>reads := Suc (reads w)\<rparr>, [])"
  by (simp add: sleep_poll_def instant_now_def)

lemma sleep_poll_early:
  assumes "sleep_wf sf" "clock (reads w) < sf_end sf"
  obtains sf' c where "sleep_poll clock wk sf w
      = (Inr Pending, sf', w\<lparr>reads := Suc (reads w), timer_counter := c\<rparr>, [])"
    "sleep_wf sf'" "sf_end sf' = sf_end sf"
proof (cases "sf_wheel sf")
  case None
  with assms show ?thesis
    by (intro that [of sf "timer_counter w"]) (simp_all add: sleep_poll_def instant_now_def)
next
  case (Some wheel)
  with assms(1) have wf: "wheel_wf wheel" by (simp add: sleep_wf_def)
  then obtain i c wheel' where "schedule (sf_end sf) wk (timer_counter w) wheel = Inr (i, c, wheel')"
    "wheel_wf wheel'"
    by (simp add: schedule_eq [OF wf] Let_def wheel_wf_schedule [OF wf])
  with Some assms(2) show ?thesis
    by (intro that [of "sf\<lparr>sf_wheel := Some wheel'\<rparr>" c])
      (simp_all add: sleep_poll_def instant_now_def sleep_wf_def)
qed

section \<open>Lemmas on intervals\<close>

text \<open>At the head of the loop when the tick is due, and the two iterations of a poll.\<close>

lemma tick_poll_due:
  assumes "next_tick iv \<le> clock (reads w)"
  shows "tick_poll clock (Suc n) wk AtLoop iv w =
    (if next_tick iv + period iv < instant_limit
     then Some (Inr (Ready ()), AtLoop, iv\<lparr>next_tick := next_tick iv + period iv\<rparr>,
       w\<lparr>reads := Suc (reads w)\<rparr>)
     else Some (Inl 0, AtLoop, iv, w\<lparr>reads := Suc (reads w)\<rparr>))"
  using assms by (simp add: instant_now_def instant_add_def)

text \<open>What a poll of \<open>tick\<close> may answer.\<close>

definition tick_answer ::
  "(nat \<Rightarrow> instant) \<Rightarrow> interval \<Rightarrow> 'w timed \<Rightarrow> (nat + unit poll) \<times> tick_state \<times> interval \<times> 'w timed \<Rightarrow> bool" where
  "tick_answer clock iv w r \<longleftrightarrow>
    (case r of
       (Inr (Ready _), st, iv', w') \<Rightarrow> st = AtLoop \<and> iv' = iv\<lparr>next_tick := next_tick iv + period iv\<rparr>
         \<and> reads w < reads w' \<and> next_tick iv \<le> clock (reads w' - 1)
     | (Inr Pending, st, iv', w') \<Rightarrow> tick_wf st iv \<and> iv' = iv \<and> reads w < reads w'
     | (Inl _, st, iv', w') \<Rightarrow> instant_limit \<le> next_tick iv + period iv
         \<or> (\<exists>k. instant_limit \<le> clock k + next_tick iv))"

lemma tick_answer_earlier:
  "tick_answer clock iv w r \<Longrightarrow> reads w0 \<le> reads w \<Longrightarrow> tick_answer clock iv w0 r"
  by (auto simp: tick_answer_def split: prod.splits sum.splits poll.splits)

lemma tick_poll_sleeping:
  assumes "mono clock" "sleep_wf sf" "next_tick iv \<le> sf_end sf"
  shows "\<exists>r. tick_poll clock (Suc (Suc n)) wk (Sleeping sf) iv w = Some r \<and> tick_answer clock iv w r"
proof (cases "sf_end sf \<le> clock (reads w)")
  case True
  have "clock (reads w) \<le> clock (Suc (reads w))" using assms(1) by (simp add: monoD)
  with True assms(3) have "next_tick iv \<le> clock (Suc (reads w))" by simp
  with tick_poll_due [of iv clock "w\<lparr>reads := Suc (reads w)\<rparr>" n wk]
    sleep_poll_due [of sf clock w wk] True show ?thesis
    by (simp add: tick_answer_def)
next
  case False
  then obtain sf' c where "sleep_poll clock wk sf w
      = (Inr Pending, sf', w\<lparr>reads := Suc (reads w), timer_counter := c\<rparr>, [])"
    "sleep_wf sf'" "sf_end sf' = sf_end sf"
    using sleep_poll_early [OF assms(2)] by (metis not_le)
  with assms(3) show ?thesis by (simp add: tick_answer_def tick_wf_def)
qed

lemma tick_poll_answers:
  assumes "mono clock" "tick_wf st iv"
  shows "\<exists>r. tick_poll clock 3 wk st iv w = Some r \<and> tick_answer clock iv w r"
proof (cases st)
  case AtLoop
  show ?thesis
  proof (cases "next_tick iv \<le> clock (reads w)")
    case True
    with tick_poll_due [of iv clock w 2 wk] AtLoop show ?thesis
      by (simp add: tick_answer_def eval_nat_numeral)
  next
    case False
    let ?w = "w\<lparr>reads := Suc (reads w)\<rparr>"
    show ?thesis
    proof (cases "sleep_new clock (next_tick iv - clock (reads w)) ?w")
      case (Inl e)
      then have "instant_limit \<le> clock (Suc (Suc (reads w))) + next_tick iv"
        by (simp add: sleep_new_eq split: if_splits)
      with Inl AtLoop False show ?thesis
        by (auto simp: eval_nat_numeral instant_now_def tick_answer_def)
    next
      case (Inr b)
      define sf where "sf = fst b"
      have "clock (reads w) \<le> clock (Suc (Suc (reads w)))" using assms(1) by (simp add: monoD)
      with Inr False have sf: "sleep_wf sf" "next_tick iv \<le> sf_end sf"
        "snd b = ?w\<lparr>reads := Suc (Suc (reads ?w))\<rparr>"
        by (auto simp: sf_def sleep_new_eq sleep_wf_new split: if_splits)
      from tick_poll_sleeping [OF assms(1) sf(1,2), of 0 wk "snd b"] obtain r where
        "tick_poll clock 2 wk (Sleeping sf) iv (snd b) = Some r" "tick_answer clock iv (snd b) r"
        by (auto simp: numeral_2_eq_2)
      moreover have "tick_poll clock 3 wk AtLoop iv w = tick_poll clock 2 wk (Sleeping sf) iv (snd b)"
        using False Inr by (simp add: numeral_3_eq_3 numeral_2_eq_2 instant_now_def sf_def split_beta
            del: tick_poll.simps(3))
      ultimately show ?thesis using AtLoop sf(3) by (auto elim: tick_answer_earlier)
    qed
  qed
next
  case (Sleeping sf)
  with assms tick_poll_sleeping [OF assms(1), of sf iv 1 wk w] show ?thesis
    by (simp add: tick_wf_def eval_nat_numeral)
qed

lemma poll_ticks_run:
  assumes mono: "mono clock" and wf: "tick_wf st iv"
    and bound: "\<And>k. clock k + next_tick iv + m * period iv < instant_limit"
  shows "\<exists>n st' iv' w'. poll_ticks clock wk m c st iv w = Some (c + n, st', iv', w')
    \<and> iv' = iv\<lparr>next_tick := next_tick iv + n * period iv\<rparr> \<and> reads w \<le> reads w' \<and> n \<le> m
    \<and> (0 < n \<longrightarrow> next_tick iv + (n - 1) * period iv \<le> clock (reads w' - 1))"
  using wf bound
proof (induction m arbitrary: c st iv w)
  case 0
  show ?case by (intro exI [of _ 0] exI [of _ st] exI [of _ iv] exI [of _ w]) simp
next
  case (Suc m)
  obtain r where r: "tick_poll clock 3 wk st iv w = Some r" "tick_answer clock iv w r"
    using tick_poll_answers [OF mono Suc.prems(1)] by blast
  obtain a st1 iv1 w1 where eq: "r = (a, st1, iv1, w1)" by (metis prod_cases4)
  consider (panic) p where "a = Inl p" | (ready) "a = Inr (Ready ())" | (pending) "a = Inr Pending"
    by (cases a; cases "projr a") auto
  then show ?case
  proof cases
    case panic
    have "clock k + next_tick iv < instant_limit" "next_tick iv + period iv < instant_limit" for k
      using Suc.prems(2) [of k] by simp_all
    moreover have "instant_limit \<le> next_tick iv + period iv \<or> (\<exists>k. instant_limit \<le> clock k + next_tick iv)"
      using panic r eq by (simp add: tick_answer_def)
    ultimately have False using leD by blast
    then show ?thesis ..
  next
    case ready
    with r eq have iv1: "st1 = AtLoop" "iv1 = iv\<lparr>next_tick := next_tick iv + period iv\<rparr>"
      "reads w < reads w1" "next_tick iv \<le> clock (reads w1 - 1)"
      by (simp_all add: tick_answer_def)
    have "\<And>k. clock k + next_tick iv1 + m * period iv1 < instant_limit"
      using Suc.prems(2) iv1 by (simp add: algebra_simps)
    moreover have "tick_wf st1 iv1" using iv1 by (simp add: tick_wf_def)
    ultimately obtain n st' iv' w' where run:
      "poll_ticks clock wk m (Suc c) st1 iv1 w1 = Some (Suc c + n, st', iv', w')"
      "iv' = iv1\<lparr>next_tick := next_tick iv1 + n * period iv1\<rparr>" "reads w1 \<le> reads w'" "n \<le> m"
      "0 < n \<longrightarrow> next_tick iv1 + (n - 1) * period iv1 \<le> clock (reads w' - 1)"
      using Suc.IH [of st1 iv1 "Suc c" w1] by blast
    have "clock (reads w1 - 1) \<le> clock (reads w' - 1)" using mono run(3) by (simp add: monoD)
    then have "next_tick iv + n * period iv \<le> clock (reads w' - 1)"
      using run(5) iv1 by (cases n) (simp_all add: algebra_simps)
    moreover have "poll_ticks clock wk (Suc m) c st iv w = Some (c + Suc n, st', iv', w')"
      using run(1) r eq ready by simp
    moreover have "iv' = iv\<lparr>next_tick := next_tick iv + Suc n * period iv\<rparr>" using run(2) iv1 by simp
    ultimately show ?thesis using run(3,4) iv1(3) by (intro exI [of _ "Suc n"]) simp
  next
    case pending
    with r eq have st1: "tick_wf st1 iv" "iv1 = iv" "reads w < reads w1"
      by (simp_all add: tick_answer_def)
    have "clock k + next_tick iv + m * period iv < instant_limit" for k
      using Suc.prems(2) [of k] by simp
    from Suc.IH [OF st1(1) this, of c w1] obtain n st' iv' w' where
      "poll_ticks clock wk m c st1 iv w1 = Some (c + n, st', iv', w')"
      "iv' = iv\<lparr>next_tick := next_tick iv + n * period iv\<rparr>" "reads w1 \<le> reads w'" "n \<le> m"
      "0 < n \<longrightarrow> next_tick iv + (n - 1) * period iv \<le> clock (reads w' - 1)" by blast
    moreover from this(1) have "poll_ticks clock wk (Suc m) c st iv w = Some (c + n, st', iv', w')"
      using r eq pending st1(2) by simp
    ultimately show ?thesis using st1(3) by (intro exI [of _ n]) simp
  qed
qed

section \<open>Sleeping under the executor\<close>

lemma sleep_poll_n:
  assumes "sleep_wf sf"
  shows "\<exists>sf' c. poll_n (sleep_ops clock) wk n sf w = (sf', w\<lparr>reads := reads w + n, timer_counter := c\<rparr>)
    \<and> sleep_wf sf' \<and> sf_end sf' = sf_end sf"
  using assms
proof (induction n arbitrary: sf w)
  case 0
  then show ?case by (intro exI [of _ sf] exI [of _ "timer_counter w"]) simp
next
  case (Suc n)
  obtain r sf1 c1 where "sleep_poll clock wk sf w = (r, sf1, w\<lparr>reads := Suc (reads w), timer_counter := c1\<rparr>, [])"
    "sleep_wf sf1" "sf_end sf1 = sf_end sf"
  proof (cases "sf_end sf \<le> clock (reads w)")
    case True
    with sleep_poll_due [of sf clock w wk] Suc.prems that [of "Inr (Ready ())" sf "timer_counter w"]
    show ?thesis by simp
  next
    case False
    with sleep_poll_early [OF Suc.prems] that show ?thesis by (metis not_le)
  qed
  with Suc.IH [of sf1 "w\<lparr>reads := Suc (reads w), timer_counter := c1\<rparr>"] show ?case
    by (auto simp: sleep_ops_def)
qed

lemma sleep_poll_cases:
  assumes "sleep_wf sf" "sleep_poll clock wk sf w = (r, sf', w', ws)"
  shows "r = (if sf_end sf \<le> clock (reads w) then Inr (Ready ()) else Inr Pending)
    \<and> sleep_wf sf' \<and> sf_end sf' = sf_end sf \<and> ws = []"
proof (cases "sf_end sf \<le> clock (reads w)")
  case True
  with assms sleep_poll_due [of sf clock w wk] show ?thesis by simp
next
  case False
  then obtain sf'' c where "sleep_poll clock wk sf w
      = (Inr Pending, sf'', w\<lparr>reads := Suc (reads w), timer_counter := c\<rparr>, [])"
    "sleep_wf sf''" "sf_end sf'' = sf_end sf"
    using sleep_poll_early [OF assms(1)] by (metis not_le)
  with False assms(2) show ?thesis by simp
qed

lemma timeout_poll_n:
  assumes "sleep_wf (tm_timeout t)" "poll_n (timeout_ops clock F) wk n t w = (t', w')"
  shows "sleep_wf (tm_timeout t') \<and> sf_end (tm_timeout t') = sf_end (tm_timeout t)"
  using assms
proof (induction n arbitrary: t w)
  case (Suc n)
  obtain r t1 w1 ws where p: "timeout_poll clock F wk t w = (r, t1, w1, ws)" by (metis prod_cases4)
  then have "sleep_wf (tm_timeout t1) \<and> sf_end (tm_timeout t1) = sf_end (tm_timeout t)"
    using Suc.prems(1) by (auto simp: timeout_poll_def dest: sleep_poll_cases [OF Suc.prems(1)]
        split: prod.splits sum.splits poll.splits)
  with Suc.IH [of t1 w1] Suc.prems(2) p show ?case by (simp add: timeout_ops_def)
qed simp

text \<open>A task whose first poll is pending and calls no waker is never polled again.\<close>

lemma unwoken_task_hangs_run:
  assumes "seg_queue (run_ops E) items" "channel (chan E) view"
    and spawn: "spawn_single_cpu E f store_empty w = (h, s)"
    and first: "fo_poll (futs E) (TaskWaker (TaskId 1)) f w = (Inr Pending, f', w', [])"
    and ext: "\<And>k. TaskWaker (TaskId 1) \<notin> set (ext k)"
  shows "exec_run E ext tick_fuel fuel s = None"
proof -
  have env: "executor_env E items view" using assms(1,2) by (rule executor_env.intro)
  have sq: "run_queue (run_ops E) items" using assms(1) by (simp add: run_queue_def)
  have reach: "exec_reachable E s" using spawn unfolding spawn_single_cpu_def by (rule reachable_spawn)
  have s: "tasks s = [TaskId 1 \<mapsto> task_new (TaskId 1) (Wrapped f 0)]" "world s = w"
    "items (ready_queue s) = [TaskId 1]"
    using spawn seg_queue.items_push [OF assms(1)] seg_queue.items_new [OF assms(1)]
    by (auto simp: spawn_single_cpu_def exec_spawn_def executor_new_def new_task_id_def
        fetch_add_def store_alloc_def store_empty_def insert_task_def)
  obtain q' where q': "q_pop (run_ops E) (ready_queue s) = (Some (TaskId 1), q')" "items q' = []"
    using seg_queue.pop_first [OF assms(1) s(3)] by (cases "q_pop (run_ops E) (ready_queue s)") auto
  define s1 where "s1 = s\<lparr>ready_queue := q', tasks := [TaskId 1 \<mapsto> task_new (TaskId 1) (Wrapped f' 0)],
    world := w'\<rparr>"
  have poll: "poll_one E (TaskId 1) (s\<lparr>ready_queue := q'\<rparr>) = Some (s1, True)"
    using s(1,2) first by (simp add: poll_one_def task_poll.simps insert_task_def s1_def task_new_def)
  have inv: "exec_inv view s1"
    using executor_env.exec_step_inv [OF env step_poll [OF q'(1) poll]]
      executor_env.exec_reachable_inv [OF env reach] .
  obtain q'' where q'': "q_pop (run_ops E) q' = (None, q'')" "items q'' = []"
    using seg_queue.pop_empty [OF assms(1) q'(2)] by (cases "q_pop (run_ops E) q'") auto
  define s2 where "s2 = s1\<lparr>ready_queue := wake_all (run_ops E) (ext 0) q''\<rparr>"
  have stuck: "run_loop E ext tick_fuel (Suc 0) n s2 = None" for n
  proof (rule executor_env.run_loop_stuck [OF env, where P = "\<lambda>_. False" and j = "TaskId 1"])
    show "exec_inv view s2" using inv by (simp add: s2_def)
  qed (use ext run_queue.items_wake_all [OF sq] q''(2) in
      \<open>auto simp: never_wakes_def others_in_def s2_def s1_def\<close>)
  show ?thesis
  proof (cases "2 \<le> tick_fuel")
    case True
    then obtain tf where "tick_fuel = Suc (Suc tf)" by (metis add_2_eq_Suc le_Suc_ex)
    then have tick: "exec_tick E tick_fuel s = Some (s1\<lparr>ready_queue := q''\<rparr>, True)"
      using q'(1) poll q''(1) by (simp add: exec_tick_def s1_def)
    show ?thesis
      using tick s(1) stuck by (cases fuel) (simp_all add: exec_run_def s2_def)
  next
    case False
    then have "tick_fuel = 0 \<or> tick_fuel = Suc 0" by auto
    then have "exec_tick E tick_fuel s = None" using q'(1) poll by (auto simp: exec_tick_def)
    then show ?thesis using s(1) by (cases fuel) (simp_all add: exec_run_def)
  qed
qed

section \<open>Properties\<close>

text \<open>A sleep ends exactly on time: for a future created by \<open>SleepFuture::new(d)\<close>, the poll
  after any number \<open>n\<close> of earlier polls is ready if and only if its clock reading has reached
  the reading taken at creation plus \<open>d\<close>; no poll panics.\<close>

theorem sleep_ends_exactly:
  assumes "sleep_new clock d w = Inr (sf, w1)" "poll_n (sleep_ops clock) wk n sf w1 = (sf', w2)"
  shows "fst (sleep_poll clock wk sf' w2) =
    (if clock (Suc (reads w)) + d \<le> clock (reads w + 2 + n) then Inr (Ready ()) else Inr Pending)"
proof -
  have sf: "sleep_wf sf" "sf_end sf = clock (Suc (reads w)) + d" "reads w1 = reads w + 2"
    using assms(1) sleep_wf_new by (auto simp: sleep_new_eq split: if_splits)
  obtain c where sf': "sleep_wf sf'" "sf_end sf' = sf_end sf" "reads w2 = reads w + 2 + n"
    using sleep_poll_n [OF sf(1), of clock wk n w1] assms(2) sf(3) by auto
  show ?thesis
  proof (cases "sf_end sf' \<le> clock (reads w2)")
    case True
    then show ?thesis using sleep_poll_due [of sf' clock w2 wk] sf sf' by simp
  next
    case False
    then obtain sf'' c where "sleep_poll clock wk sf' w2
        = (Inr Pending, sf'', w2\<lparr>reads := Suc (reads w2), timer_counter := c\<rparr>, [])"
      using sleep_poll_early [OF sf'(1)] by (metis not_le)
    with False sf sf' show ?thesis by simp
  qed
qed

theorem sleep_ends_exactly_witness:
  "fst (sleep_poll (\<lambda>k. k * 1000000) DummyWaker
      (fst (poll_n (sleep_ops (\<lambda>k. k * 1000000)) DummyWaker 4
        \<lparr>sf_wheel = Some (wheel_default 0), sf_end = 6000000\<rparr> \<lparr>reads = 2, timer_counter = 1, outer = ()\<rparr>))
      (snd (poll_n (sleep_ops (\<lambda>k. k * 1000000)) DummyWaker 4
        \<lparr>sf_wheel = Some (wheel_default 0), sf_end = 6000000\<rparr> \<lparr>reads = 2, timer_counter = 1, outer = ()\<rparr>)))
   = Inr (Ready ())"
proof -
  have "sleep_new (\<lambda>k. k * 1000000) 5000000 \<lparr>reads = 0, timer_counter = 1, outer = ()\<rparr> =
      Inr (\<lparr>sf_wheel = Some (wheel_default 0), sf_end = 6000000\<rparr>, \<lparr>reads = 2, timer_counter = 1, outer = ()\<rparr>)"
    by (simp add: sleep_new_eq instant_limit_def numeral_2_eq_2 [symmetric])
  from sleep_ends_exactly [OF this prod.collapse [symmetric], of DummyWaker 4] show ?thesis
    by simp
qed

text \<open>C23. A task that sleeps is never woken: the timer wheel inside a \<open>SleepFuture\<close> belongs to
  the future alone and nobody expires it.  So a task spawned with \<open>task::spawn\<close> whose sleep is
  not over at its first poll is never polled again, and the thread that \<open>run\<close>s its executor
  never finishes, unless some other thread happens to wake the task.\<close>

theorem sleeping_task_never_resumes:
  assumes "seg_queue (run_ops E) items" "channel (chan E) view" "futs E = sleep_ops clock"
    and "sleep_new clock d w0 = Inr (sf, w)"
    and "clock (reads w) < clock (Suc (reads w0)) + d"
    and "spawn_single_cpu E sf store_empty w = (h, s)"
    and "\<And>k. TaskWaker (TaskId 1) \<notin> set (ext k)"
  shows "exec_run E ext tick_fuel fuel s = None"
proof -
  have "sleep_wf sf" "clock (reads w) < sf_end sf"
    using assms(4,5) sleep_wf_new by (auto simp: sleep_new_eq split: if_splits)
  then obtain sf' w' where "fo_poll (futs E) (TaskWaker (TaskId 1)) sf w = (Inr Pending, sf', w', [])"
    using sleep_poll_early [of sf clock w] assms(3) by (metis future_ops.select_convs(1) sleep_ops_def)
  from unwoken_task_hangs_run [OF assms(1,2,6) this assms(7)] show ?thesis .
qed

theorem sleeping_task_never_resumes_witness:
  "exec_run (list_env (sleep_ops (\<lambda>k. k))) (\<lambda>_. []) 1000 1000
     (snd (spawn_single_cpu (list_env (sleep_ops (\<lambda>k. k)))
       \<lparr>sf_wheel = Some (wheel_default 0), sf_end = 51\<rparr> store_empty
       \<lparr>reads = 2, timer_counter = 1, outer = ()\<rparr>)) = None"
proof -
  have new: "sleep_new (\<lambda>k. k) 50 \<lparr>reads = 0, timer_counter = 1, outer = ()\<rparr> =
      Inr (\<lparr>sf_wheel = Some (wheel_default 0), sf_end = 51\<rparr>, \<lparr>reads = 2, timer_counter = 1, outer = ()\<rparr>)"
    by (simp add: sleep_new_eq instant_limit_def numeral_2_eq_2 [symmetric])
  show ?thesis
    by (rule sleeping_task_never_resumes [OF list_exec.queue list_exec.channel _ new _
          prod.collapse [symmetric]]) simp_all
qed

text \<open>An interval does not drift and does not tick early.  Whatever the clock readings are (as
  long as they stay below the range of \<open>Instant\<close>), \<open>m\<close> polls of consecutive \<open>tick()\<close>s return
  without panicking, and if \<open>n\<close> of the ticks have completed, the next deadline is the first one
  plus exactly \<open>n\<close> periods, and the last reading has passed \<open>n - 1\<close> periods after the first
  deadline.\<close>

theorem interval_does_not_drift:
  assumes "mono clock" "\<And>k. clock k + next_tick iv + m * period iv < instant_limit"
  shows "\<exists>n st iv' w'. poll_ticks clock wk m 0 AtLoop iv w = Some (n, st, iv', w') \<and> n \<le> m
    \<and> next_tick iv' = next_tick iv + n * period iv \<and> period iv' = period iv
    \<and> (0 < n \<longrightarrow> next_tick iv + (n - 1) * period iv \<le> clock (reads w' - 1))"
proof -
  obtain n st' iv' w' where "poll_ticks clock wk m 0 AtLoop iv w = Some (0 + n, st', iv', w')"
    "iv' = iv\<lparr>next_tick := next_tick iv + n * period iv\<rparr>" "n \<le> m"
    "0 < n \<longrightarrow> next_tick iv + (n - 1) * period iv \<le> clock (reads w' - 1)"
    using poll_ticks_run [OF assms(1) _ assms(2), of AtLoop wk 0 w] by (auto simp: tick_wf_def)
  then show ?thesis by simp
qed

theorem interval_does_not_drift_witness:
  "\<exists>n st iv' w'. poll_ticks (\<lambda>k. min k 1000) DummyWaker 20 0 AtLoop \<lparr>period = 7, next_tick = 7\<rparr>
      \<lparr>reads = 0, timer_counter = 1, outer = ()\<rparr> = Some (n, st, iv', w') \<and> next_tick iv' = 7 + n * 7"
proof -
  have "mono (\<lambda>k. min k (1000 :: nat))" by (rule monoI) simp
  moreover have "min k 1000 + 7 + 20 * 7 < instant_limit" for k :: nat
    by (simp add: instant_limit_def)
  ultimately show ?thesis
    using interval_does_not_drift [of "\<lambda>k. min k 1000" "\<lparr>period = 7, next_tick = 7\<rparr>" 20
        DummyWaker "\<lparr>reads = 0, timer_counter = 1, outer = ()\<rparr>"] by fastforce
qed

text \<open>What \<open>Timeout\<close> resolves to.  After any number of earlier polls, a poll first polls the
  wrapped future: a value or a panic of that future is passed on even when the deadline has
  passed, and only if the future is still pending does the clock decide, with the deadline at
  the reading taken by \<open>Timeout::new\<close> plus the duration.\<close>

theorem timeout_resolves:
  assumes "timeout_new clock f d w = Inr (t, w1)"
    and "poll_n (timeout_ops clock F) wk n t w1 = (t', w2)"
    and "fo_poll F wk (tm_future t') w2 = (res, f', w3, ws)"
  shows "fst (timeout_poll clock F wk t' w2) =
    (case res of
       Inl p \<Rightarrow> Inl p
     | Inr (Ready v) \<Rightarrow> Inr (Ready (Inr v))
     | Inr Pending \<Rightarrow>
         if clock (Suc (reads w)) + d \<le> clock (reads w3) then Inr (Ready (Inl TimeoutError))
         else Inr Pending)"
proof -
  have t: "sleep_wf (tm_timeout t)" "sf_end (tm_timeout t) = clock (Suc (reads w)) + d"
    using assms(1) sleep_wf_new by (auto simp: timeout_new_def sleep_new_eq split: if_splits)
  have t': "sleep_wf (tm_timeout t')" "sf_end (tm_timeout t') = clock (Suc (reads w)) + d"
    using timeout_poll_n [OF t(1) assms(2)] t(2) by simp_all
  obtain r sf' w' ws' where sp: "sleep_poll clock wk (tm_timeout t') w3 = (r, sf', w', ws')"
    by (metis prod_cases4)
  from sleep_poll_cases [OF t'(1) sp] t'(2) sp assms(3) show ?thesis
    by (auto simp: timeout_poll_def split: sum.splits poll.splits)
qed

theorem timeout_resolves_witness:
  "fst (timeout_poll (\<lambda>k. k) \<lparr>fo_poll = (\<lambda>wk f w. (Inr Pending, f, w, [])), fo_drop = (\<lambda>f w. (w, []))\<rparr>
      DummyWaker
      \<lparr>tm_future = (), tm_timeout = \<lparr>sf_wheel = Some (wheel_default 0), sf_end = 2\<rparr>\<rparr>
      \<lparr>reads = 2, timer_counter = 1, outer = ()\<rparr>)
    = (Inr (Ready (Inl TimeoutError)) :: nat + (timeout_error + unit) poll)"
proof -
  let ?F = "\<lparr>fo_poll = (\<lambda>wk f w. (Inr Pending, f, w, [])), fo_drop = (\<lambda>f w. (w, []))\<rparr>
    :: (unit, unit, unit timed) future_ops"
  have "timeout_new (\<lambda>k. k) () 1 \<lparr>reads = 0, timer_counter = 1, outer = ()\<rparr> =
      Inr (\<lparr>tm_future = (), tm_timeout = \<lparr>sf_wheel = Some (wheel_default 0), sf_end = 2\<rparr>\<rparr>,
        \<lparr>reads = 2, timer_counter = 1, outer = ()\<rparr>)"
    by (simp add: timeout_new_def sleep_new_eq instant_limit_def numeral_2_eq_2 [symmetric])
  from timeout_resolves [OF this, of ?F DummyWaker 0] show ?thesis by simp
qed

text \<open>Periodic tasks never run their callback.  The first poll of the task that
  \<open>spawn_periodic\<close> creates finds the first deadline in the future (unless more than a period has
  passed between two clock readings of that poll), creates a \<open>SleepFuture\<close> and is pending; the
  callback has not been called, no waker is registered anywhere but in the wheel of that
  \<open>SleepFuture\<close>, and so the executor never polls the task again.\<close>

theorem periodic_callback_never_runs:
  assumes "seg_queue (run_ops E) items" "channel (chan E) view"
    and block: "\<And>wk f w r. periodic_poll clock F call 3 wk f w = Some r \<Longrightarrow> fo_poll (futs E) wk f w = r"
    and early: "clock (reads w + 1) < clock (reads w) + d"
      "clock (reads w + 4) < clock (reads w + 3) + (clock (reads w) + d - clock (reads w + 1))"
    and range: "clock (reads w) + d < instant_limit"
      "clock (reads w + 3) + (clock (reads w) + d - clock (reads w + 1)) < instant_limit"
    and spawn: "spawn_single_cpu E (PStart d) store_empty w = (h, s)"
    and ext: "\<And>k. TaskWaker (TaskId 1) \<notin> set (ext k)"
  shows "(\<exists>st iv w'. fo_poll (futs E) (TaskWaker (TaskId 1)) (PStart d) w
        = (Inr Pending, PTick st iv, w', []) \<and> outer w' = outer w)
    \<and> exec_run E ext tick_fuel fuel s = None"
proof -
  let ?iv = "\<lparr>period = d, next_tick = clock (reads w) + d\<rparr>"
  define sf where "sf = \<lparr>sf_wheel = Some (wheel_default (clock (reads w + 2)) :: waker timer_wheel),
    sf_end = clock (reads w + 3) + (clock (reads w) + d - clock (reads w + 1))\<rparr>"
  have new: "sleep_new clock (clock (reads w) + d - clock (Suc (reads w))) (w\<lparr>reads := Suc (Suc (reads w))\<rparr>)
      = Inr (sf, w\<lparr>reads := reads w + 4\<rparr>)"
    using range(2) by (simp add: sleep_new_eq sf_def eval_nat_numeral)
  have "sleep_wf sf" "clock (reads (w\<lparr>reads := reads w + 4\<rparr>)) < sf_end sf"
    using sleep_wf_new early(2) by (simp_all add: sf_def)
  then obtain sf' c where sp: "sleep_poll clock (TaskWaker (TaskId 1)) sf (w\<lparr>reads := reads w + 4\<rparr>)
      = (Inr Pending, sf', w\<lparr>reads := reads w + 5, timer_counter := c\<rparr>, [])"
    by (rule sleep_poll_early) (simp add: eval_nat_numeral)
  let ?w = "w\<lparr>reads := reads w + 5, timer_counter := c\<rparr>"
  have "tick_poll clock 2 (TaskWaker (TaskId 1)) AtLoop ?iv (w\<lparr>reads := Suc (reads w)\<rparr>)
      = Some (Inr Pending, Sleeping sf', ?iv, ?w)"
    using early(1) new sp by (simp add: numeral_2_eq_2 instant_now_def)
  then have "periodic_poll clock F call 3 (TaskWaker (TaskId 1)) (PStart d) w
      = Some (Inr Pending, PTick (Sleeping sf') ?iv, ?w, [])"
    using range(1) by (simp add: eval_nat_numeral interval_new_def instant_now_def instant_add_def)
  then have "fo_poll (futs E) (TaskWaker (TaskId 1)) (PStart d) w
      = (Inr Pending, PTick (Sleeping sf') ?iv, ?w, [])"
    by (rule block)
  moreover from unwoken_task_hangs_run [OF assms(1,2) spawn this ext]
  have "exec_run E ext tick_fuel fuel s = None" .
  ultimately show ?thesis by simp
qed

definition demo_periodic :: "(unit periodic, unit, unit timed) future_ops" where
  "demo_periodic = \<lparr>fo_poll = (\<lambda>wk f w.
      case periodic_poll (\<lambda>k. k) \<lparr>fo_poll = (\<lambda>wk f w. (Inr (Ready ()), f, w, [])), fo_drop = (\<lambda>f w. (w, []))\<rparr>
        (\<lambda>w. ((), w)) 3 wk f w of
        Some r \<Rightarrow> r | None \<Rightarrow> (Inr Pending, f, w, [])),
    fo_drop = (\<lambda>f w. (w, []))\<rparr>"

theorem periodic_callback_never_runs_witness:
  "exec_run (list_env demo_periodic) (\<lambda>_. []) 1000 1000
    (snd (spawn_single_cpu (list_env demo_periodic) (PStart 50) store_empty
      \<lparr>reads = 0, timer_counter = 1, outer = ()\<rparr>)) = None"
proof (rule periodic_callback_never_runs [OF list_exec.queue list_exec.channel _ _ _ _ _
      prod.collapse [symmetric], THEN conjunct2])
  fix wk f and w :: "unit timed" and r
  assume "periodic_poll (\<lambda>k. k) \<lparr>fo_poll = (\<lambda>wk f w. (Inr (Ready ()), f, w, [])), fo_drop = (\<lambda>f w. (w, []))\<rparr>
        (\<lambda>w. ((), w)) 3 wk f w = Some r"
  then show "fo_poll (futs (list_env demo_periodic)) wk f w = r" by (simp add: demo_periodic_def)
qed (simp_all add: instant_limit_def)

end
