(* ===== verification/Cancel_Token.thy ===== *)
theory Cancel_Token
  imports Executor
begin

text \<open>
  Cooperative cancellation, \<open>src/cancellation.rs\<close>.  A \<open>CancellationToken\<close> is a shared atomic
  flag; clones share the flag, so a token is the index of its flag in the world.  The world of
  a cancellable future adds the flags to the world of the wrapped future.
\<close>

record 'w token_world =
  flags :: "bool list"
  rest_world :: 'w

type_synonym token = nat

definition token_new :: "'w token_world \<Rightarrow> token \<times> 'w token_world" where
  "token_new w = (length (flags w), w\<lparr>flags := flags w @ [False]\<rparr>)"

definition token_cancel :: "token \<Rightarrow> 'w token_world \<Rightarrow> 'w token_world" where
  "token_cancel tok w = w\<lparr>flags := (flags w)[tok := True]\<rparr>"

definition is_cancelled :: "token \<Rightarrow> 'w token_world \<Rightarrow> bool" where
  "is_cancelled tok w \<longleftrightarrow> tok < length (flags w) \<and> flags w ! tok"

record 'f cancellable_future =
  cf_inner :: 'f
  cf_token :: token

definition cancellable :: "'f \<Rightarrow> token \<Rightarrow> 'f cancellable_future" where
  "cancellable f tok = \<lparr>cf_inner = f, cf_token = tok\<rparr>"

definition cancellable_poll ::
  "('f, 'v, 'w token_world) future_ops \<Rightarrow> waker \<Rightarrow> 'f cancellable_future \<Rightarrow> 'w token_world
   \<Rightarrow> (nat + 'v task_result poll) \<times> 'f cancellable_future \<times> 'w token_world \<times> waker list" where
  "cancellable_poll F wk c w =
    (if is_cancelled (cf_token c) w then (Inr (Ready (Inl Cancelled)), c, w, [])
     else case fo_poll F wk (cf_inner c) w of
            (Inl p, f, w', ws) \<Rightarrow> (Inl p, c\<lparr>cf_inner := f\<rparr>, w', ws)
          | (Inr (Ready v), f, w', ws) \<Rightarrow> (Inr (Ready (Inr v)), c\<lparr>cf_inner := f\<rparr>, w', ws)
          | (Inr Pending, f, w', ws) \<Rightarrow> (Inr Pending, c\<lparr>cf_inner := f\<rparr>, w', ws))"

definition cancellable_ops ::
  "('f, 'v, 'w token_world) future_ops
   \<Rightarrow> ('f cancellable_future, 'v task_result, 'w token_world) future_ops" where
  "cancellable_ops F = \<lparr>fo_poll = cancellable_poll F, fo_drop = (\<lambda>c w. fo_drop F (cf_inner c) w)\<rparr>"

section \<open>Lemmas\<close>

text \<open>Driving a future, with an observer that sets the token before the poll number \<open>k\<close>.\<close>

primrec drive_cancelled ::
  "('f, 'v, 'w token_world) future_ops \<Rightarrow> waker \<Rightarrow> token \<Rightarrow> nat \<Rightarrow> nat \<Rightarrow> 'f \<Rightarrow> 'w token_world
   \<Rightarrow> (nat + 'v) option" where
  "drive_cancelled F wk tok k 0 f w = None"
| "drive_cancelled F wk tok k (Suc n) f w =
    (let w0 = (if k = 0 then token_cancel tok w else w) in
     case fo_poll F wk f w0 of
       (Inl p, f', w', ws) \<Rightarrow> Some (Inl p)
     | (Inr (Ready v), f', w', ws) \<Rightarrow> Some (Inr v)
     | (Inr Pending, f', w', ws) \<Rightarrow> drive_cancelled F wk tok (k - 1) n f' w')"

text \<open>No flag ever disappears, because code outside this module has no access to them.\<close>

definition flags_kept :: "('f, 'v, 'w token_world) future_ops \<Rightarrow> bool" where
  "flags_kept F \<longleftrightarrow> (\<forall>wk f w res f' w' ws. fo_poll F wk f w = (res, f', w', ws)
    \<longrightarrow> length (flags w) \<le> length (flags w'))"

lemma cancelled_token [simp]: "tok < length (flags w) \<Longrightarrow> is_cancelled tok (token_cancel tok w)"
  by (simp add: is_cancelled_def token_cancel_def)

lemma drive_cancelled_ends:
  assumes "flags_kept F" "k < n" "tok < length (flags w)"
  shows "\<exists>res. drive_cancelled (cancellable_ops F) wk tok k n (cancellable f tok) w = Some res"
  using assms(2,3)
proof (induction n arbitrary: k f w)
  case (Suc n)
  show ?case
  proof (cases k)
    case 0
    then show ?thesis
      using Suc.prems by (simp add: cancellable_ops_def cancellable_poll_def cancellable_def Let_def)
  next
    case (Suc k')
    with Suc.prems have "k' < n" by simp
    have IH: "\<exists>res. drive_cancelled (cancellable_ops F) wk tok k' n ((cancellable f tok)\<lparr>cf_inner := f'\<rparr>) w' = Some res"
      if "fo_poll F wk f w = (res, f', w', ws)" for res f' w' ws
    proof -
      have "length (flags w) \<le> length (flags w')"
        using that assms(1) unfolding flags_kept_def by blast
      then have "tok < length (flags w')" using Suc.prems(2) by simp
      from Suc.IH [OF \<open>k' < n\<close> this, of f'] show ?thesis by (simp add: cancellable_def)
    qed
    have inner: "cf_inner (cancellable f tok) = f" "cf_token (cancellable f tok) = tok"
      by (simp_all add: cancellable_def)
    show ?thesis
    proof (cases "is_cancelled tok w")
      case True
      with Suc inner show ?thesis by (simp add: cancellable_ops_def cancellable_poll_def Let_def)
    next
      case False
      obtain res f' w' ws where p: "fo_poll F wk f w = (res, f', w', ws)" by (metis prod_cases4)
      with Suc False inner IH [OF p] show ?thesis
        by (auto simp: cancellable_ops_def cancellable_poll_def Let_def split: sum.splits poll.splits)
    qed
  qed
qed simp

section \<open>Properties\<close>

text \<open>C25. Cancellation is prompt and final.  If the token of a cancellable future is cancelled
  before its poll number \<open>k\<close>, the future is over after at most \<open>k + 1\<close> polls, whatever the
  wrapped future does; and a poll that finds the token cancelled returns \<open>Cancelled\<close> without
  polling the wrapped future, leaving it and the world as they are.\<close>

theorem cancellation_is_prompt:
  assumes "flags_kept F" "tok < length (flags w)"
  shows "(\<exists>res. drive_cancelled (cancellable_ops F) wk tok k (Suc k) (cancellable f tok) w = Some res)
   \<and> cancellable_poll F wk (cancellable f tok) (token_cancel tok w)
     = (Inr (Ready (Inl Cancelled)), cancellable f tok, token_cancel tok w, [])"
proof
  show "\<exists>res. drive_cancelled (cancellable_ops F) wk tok k (Suc k) (cancellable f tok) w = Some res"
    by (rule drive_cancelled_ends [OF assms(1) _ assms(2)]) simp
  show "cancellable_poll F wk (cancellable f tok) (token_cancel tok w)
     = (Inr (Ready (Inl Cancelled)), cancellable f tok, token_cancel tok w, [])"
    using assms(2) by (simp add: cancellable_poll_def cancellable_def)
qed

theorem cancellation_is_prompt_witness:
  "\<exists>res. drive_cancelled (cancellable_ops \<lparr>fo_poll = (\<lambda>wk f w. (Inr Pending, f, w, [])), fo_drop = (\<lambda>f w. (w, []))\<rparr>)
      DummyWaker 0 5 6 (cancellable () 0) (snd (token_new \<lparr>flags = [], rest_world = ()\<rparr>))
    = Some (res :: nat + unit task_result)"
proof -
  let ?F = "\<lparr>fo_poll = (\<lambda>wk f w. (Inr Pending, f, w, [])), fo_drop = (\<lambda>f w. (w, []))\<rparr>
    :: (unit, unit, unit token_world) future_ops"
  have "flags_kept ?F" by (simp add: flags_kept_def)
  moreover have "0 < length (flags (snd (token_new \<lparr>flags = [], rest_world = ()\<rparr>)))"
    by (simp add: token_new_def)
  ultimately show ?thesis
    using cancellation_is_prompt [of ?F 0 _ DummyWaker 5 "()"] by simp
qed

end
