(* ===== verification/Buffer.thy ===== *)
theory Buffer
  imports Prelude
begin

text \<open>
  The buffers and the per-CPU buffer pool of \<open>src/buffer.rs\<close>.

  A \<open>Vec<u8>\<close> is its allocation: one cell per byte of capacity, where \<open>None\<close> is a byte that
  was never written, and a length.  Bytes beyond the length stay in the allocation when the
  vector is cleared; the contents are the first \<open>vlen\<close> cells.  The thread-local pool is an
  explicit list of such vectors, front first.
\<close>

section \<open>Vectors with spare capacity\<close>

type_synonym cell = "u8 option"

record rvec =
  mem :: "cell list"
  vlen :: usize

definition vcapacity :: "rvec \<Rightarrow> usize" where
  "vcapacity v = length (mem v)"

definition contents :: "rvec \<Rightarrow> cell list" where
  "contents v = take (vlen v) (mem v)"

text \<open>\<open>vec![0; n]\<close> and \<open>slice.to_vec()\<close> allocate exactly their length.\<close>

definition vec_of :: "cell list \<Rightarrow> rvec" where
  "vec_of xs = \<lparr>mem = xs, vlen = length xs\<rparr>"

definition vec_zeroed :: "usize \<Rightarrow> rvec" where
  "vec_zeroed n = vec_of (replicate n (Some 0))"

definition vec_clear :: "rvec \<Rightarrow> rvec" where
  "vec_clear v = v\<lparr>vlen := 0\<rparr>"

text \<open>Reallocation keeps the cells and adds unwritten ones.\<close>

definition vec_grow_to :: "usize \<Rightarrow> rvec \<Rightarrow> rvec" where
  "vec_grow_to c v = v\<lparr>mem := mem v @ replicate (c - vcapacity v) None\<rparr>"

text \<open>\<open>Vec::reserve_exact\<close>: room for \<open>additional\<close> elements beyond the length.\<close>

definition vec_reserve_exact :: "usize \<Rightarrow> rvec \<Rightarrow> rvec" where
  "vec_reserve_exact additional v =
    (if additional > vcapacity v - vlen v then vec_grow_to (vlen v + additional) v else v)"

text \<open>\<open>Vec::reserve\<close> grows to at least twice the capacity, and to at least 8 bytes.\<close>

definition vec_reserve :: "usize \<Rightarrow> rvec \<Rightarrow> rvec" where
  "vec_reserve additional v =
    (if additional > vcapacity v - vlen v
     then vec_grow_to (max 8 (max (2 * vcapacity v) (vlen v + additional))) v else v)"

text \<open>\<open>Vec::resize(n, 0)\<close>: truncate, or reserve and write zeros up to the new length.\<close>

definition vec_resize :: "usize \<Rightarrow> rvec \<Rightarrow> rvec" where
  "vec_resize n v =
    (if n \<le> vlen v then v\<lparr>vlen := n\<rparr>
     else let v' = vec_reserve (n - vlen v) v in
       \<lparr>mem = take (vlen v) (mem v') @ replicate (n - vlen v) (Some 0) @ drop n (mem v'),
        vlen = n\<rparr>)"

definition vec_wf :: "rvec \<Rightarrow> bool" where
  "vec_wf v \<longleftrightarrow> vlen v \<le> vcapacity v"

section \<open>Buffers and the pool\<close>

type_synonym buffer = rvec
type_synonym pool = "rvec list"

definition BUFFER_SIZE :: usize where
  "BUFFER_SIZE = 4096"

definition POOL_SIZE :: usize where
  "POOL_SIZE = 100"

definition new_zeroed :: "usize \<Rightarrow> buffer" where
  "new_zeroed n = vec_zeroed n"

definition from_slice :: "u8 list \<Rightarrow> buffer" where
  "from_slice s = vec_of (map Some s)"

definition recycle :: "buffer \<Rightarrow> pool \<Rightarrow> pool" where
  "recycle b p =
    (let b1 = vec_clear b;
         b2 = vec_reserve_exact (BUFFER_SIZE - vcapacity b1) b1
     in if vcapacity b2 = BUFFER_SIZE
        then if length p < POOL_SIZE then p @ [b2] else p
        else p)"

definition buffer_len :: "buffer \<Rightarrow> usize" where
  "buffer_len b = vlen b"

definition buffer_is_empty :: "buffer \<Rightarrow> bool" where
  "buffer_is_empty b \<longleftrightarrow> vlen b = 0"

text \<open>\<open>slice::copy_from_slice\<close> panics on a length mismatch; after the resize there is none.\<close>

definition slice_copy :: "u8 list \<Rightarrow> rvec \<Rightarrow> rvec may_panic" where
  "slice_copy s v =
    (if vlen v = length s then Inr (v\<lparr>mem := map Some s @ drop (length s) (mem v)\<rparr>)
     else Inl (ExpectFailed ''copy_from_slice: length mismatch''))"

definition copy_from_slice :: "u8 list \<Rightarrow> buffer \<Rightarrow> buffer may_panic" where
  "copy_from_slice s b = slice_copy s (vec_resize (length s) b)"

definition set_len :: "usize \<Rightarrow> buffer \<Rightarrow> buffer" where
  "set_len n b = b\<lparr>vlen := n\<rparr>"

definition pool_get :: "usize \<Rightarrow> pool \<Rightarrow> buffer \<times> pool" where
  "pool_get n p =
    (if n = 0 \<or> n > BUFFER_SIZE then (vec_zeroed n, p)
     else case p of
       v # p' \<Rightarrow> if vcapacity v \<ge> n then (vec_resize n v, p') else (vec_zeroed n, p')
     | [] \<Rightarrow> (vec_zeroed n, p))"

definition pool_empty :: pool where
  "pool_empty = []"

text \<open>Deref, \<open>as_ref\<close>, \<open>as_io_slice\<close> and \<open>as_mut_slice\<close> all expose the contents.\<close>

definition as_ref :: "buffer \<Rightarrow> cell list" where
  "as_ref b = contents b"

section \<open>Use of the pool over time\<close>

datatype pool_cmd = Get usize | Recycle buffer

primrec pool_exec ::
  "(usize \<Rightarrow> 'p \<Rightarrow> buffer \<times> 'p) \<Rightarrow> (buffer \<Rightarrow> 'p \<Rightarrow> 'p) \<Rightarrow> pool_cmd list \<Rightarrow> 'p \<Rightarrow> 'p" where
  "pool_exec get put [] p = p"
| "pool_exec get put (c # cs) p =
    pool_exec get put cs (case c of Get n \<Rightarrow> snd (get n p) | Recycle b \<Rightarrow> put b p)"

definition pool_wf :: "pool \<Rightarrow> bool" where
  "pool_wf p \<longleftrightarrow> length p \<le> POOL_SIZE
    \<and> (\<forall>v \<in> set p. vlen v = 0 \<and> vcapacity v = BUFFER_SIZE)"

text \<open>What the users of a pool rely on: a buffer of the requested length that holds zeros only.\<close>

definition zeroed_buffer :: "usize \<Rightarrow> buffer \<Rightarrow> bool" where
  "zeroed_buffer n b \<longleftrightarrow> vec_wf b \<and> buffer_len b = n \<and> contents b = replicate n (Some 0)"

locale zeroing_pool =
  fixes get :: "usize \<Rightarrow> 'p \<Rightarrow> buffer \<times> 'p"
    and put :: "buffer \<Rightarrow> 'p \<Rightarrow> 'p"
    and inv :: "'p \<Rightarrow> bool"
  assumes inv_get: "inv p \<Longrightarrow> inv (snd (get n p))"
    and inv_put: "inv p \<Longrightarrow> inv (put b p)"
    and get_zeroed: "inv p \<Longrightarrow> zeroed_buffer n (fst (get n p))"
begin

lemma inv_exec: "inv p \<Longrightarrow> inv (pool_exec get put cs p)"
  by (induction cs arbitrary: p) (auto intro: inv_get inv_put split: pool_cmd.split)

lemma get_zeroed_after: "inv p \<Longrightarrow> zeroed_buffer n (fst (get n (pool_exec get put cs p)))"
  by (intro get_zeroed inv_exec)

end

section \<open>Lemmas\<close>

lemmas vec_defs = vcapacity_def contents_def vec_of_def vec_zeroed_def vec_clear_def
  vec_grow_to_def vec_reserve_exact_def vec_reserve_def vec_wf_def

lemma zeroed_vec_zeroed: "zeroed_buffer n (vec_zeroed n)"
  by (simp add: zeroed_buffer_def vec_defs buffer_len_def)

text \<open>Growing an empty vector within its capacity writes zeros over the old bytes.\<close>

lemma vec_resize_within:
  assumes "vlen v \<le> n" "n \<le> vcapacity v"
  shows "vec_resize n v =
    \<lparr>mem = take (vlen v) (mem v) @ replicate (n - vlen v) (Some 0) @ drop n (mem v), vlen = n\<rparr>"
proof (cases "n = vlen v")
  case True
  then show ?thesis by (cases v) (simp add: vec_resize_def)
next
  case False
  with assms show ?thesis by (simp add: vec_resize_def vec_defs)
qed

lemma zeroed_vec_resize:
  assumes "vlen v = 0" "n \<le> vcapacity v"
  shows "zeroed_buffer n (vec_resize n v)"
  using assms by (simp add: vec_resize_within zeroed_buffer_def vec_defs buffer_len_def)

lemma vcapacity_vec_resize_within:
  "vlen v \<le> n \<Longrightarrow> n \<le> vcapacity v \<Longrightarrow> vcapacity (vec_resize n v) = vcapacity v"
  by (simp add: vec_resize_within vec_defs)

text \<open>The capacity after the two steps of \<open>recycle\<close>.\<close>

lemma vcapacity_reserve_cleared:
  "vcapacity (vec_reserve_exact (BUFFER_SIZE - vcapacity b) (vec_clear b)) =
    max (vcapacity b) (BUFFER_SIZE - vcapacity b)"
  by (auto simp: vec_defs max_def)

lemma recycle_eq:
  "recycle b p =
    (if (vcapacity b = 0 \<or> vcapacity b = BUFFER_SIZE) \<and> length p < POOL_SIZE
     then p @ [\<lparr>mem = mem b @ replicate (BUFFER_SIZE - vcapacity b) None, vlen = 0\<rparr>] else p)"
proof -
  have same_cap: "vcapacity (vec_clear b) = vcapacity b"
    by (simp add: vec_defs)
  have "max (vcapacity b) (BUFFER_SIZE - vcapacity b) = BUFFER_SIZE \<longleftrightarrow>
      vcapacity b = 0 \<or> vcapacity b = BUFFER_SIZE"
    by (auto simp: max_def BUFFER_SIZE_def)
  moreover have "vec_reserve_exact (BUFFER_SIZE - vcapacity b) (vec_clear b) =
      \<lparr>mem = mem b @ replicate (BUFFER_SIZE - vcapacity b) None, vlen = 0\<rparr>"
    if "vcapacity b = 0 \<or> vcapacity b = BUFFER_SIZE"
    using that by (cases b) (auto simp: vec_defs BUFFER_SIZE_def)
  ultimately show ?thesis
    using vcapacity_reserve_cleared [of b] by (auto simp: recycle_def same_cap Let_def)
qed

lemma pool_wf_empty [wf_intros]: "pool_wf pool_empty"
  by (simp add: pool_wf_def pool_empty_def)

lemma pool_wf_recycle [wf_intros]: "pool_wf p \<Longrightarrow> pool_wf (recycle b p)"
  by (auto simp: recycle_eq pool_wf_def vcapacity_def BUFFER_SIZE_def)

lemma pool_wf_get [wf_intros]: "pool_wf p \<Longrightarrow> pool_wf (snd (pool_get n p))"
  by (auto simp: pool_get_def pool_wf_def split: list.splits)

lemma pool_get_zeroed: "pool_wf p \<Longrightarrow> zeroed_buffer n (fst (pool_get n p))"
  by (auto simp: pool_get_def pool_wf_def zeroed_vec_zeroed zeroed_vec_resize split: list.splits)

interpretation cpu_pool: zeroing_pool pool_get recycle pool_wf
  by unfold_locales (auto intro: wf_intros pool_get_zeroed)

lemma vec_resize_len: "vlen (vec_resize n v) = n"
  by (simp add: vec_resize_def Let_def)

lemma vec_resize_wf:
  assumes "vec_wf v"
  shows "vec_wf (vec_resize n v)"
  using assms by (auto simp: vec_resize_def vec_defs Let_def)

section \<open>Properties\<close>

text \<open>C24. Whatever buffers were taken from and recycled into a CPU's pool before, a buffer
  obtained from it has exactly the requested length, is initialised and holds zeros only: no
  byte of an earlier user is visible.\<close>

theorem pool_never_leaks_stale_bytes:
  "zeroed_buffer n (fst (pool_get n (pool_exec pool_get recycle cs pool_empty)))"
  by (intro cpu_pool.get_zeroed_after pool_wf_empty)

text \<open>C27. The pool never holds more than \<open>POOL_SIZE\<close> vectors, and every pooled vector is
  cleared and has exactly the standard capacity.\<close>

theorem pool_bounded_and_uniform:
  "pool_wf (pool_exec pool_get recycle cs pool_empty)"
  by (intro cpu_pool.inv_exec pool_wf_empty)

text \<open>\<open>recycle\<close> returns a vector to the pool exactly when its capacity is the standard
  one or zero and the pool has room: \<open>reserve_exact\<close> counts from the cleared length, so a
  smaller non-empty allocation only grows to \<open>BUFFER_SIZE - capacity\<close> and is dropped.\<close>

theorem recycle_keeps_iff:
  "recycle b p = p \<longleftrightarrow>
    \<not> ((vcapacity b = 0 \<or> vcapacity b = BUFFER_SIZE) \<and> length p < POOL_SIZE)"
  by (simp add: recycle_eq)

text \<open>\<open>copy_from_slice\<close> never panics and leaves exactly the bytes of the slice in the
  buffer, for every well-formed buffer and every slice.\<close>

theorem copy_from_slice_contents:
  assumes "vec_wf b"
  shows "\<exists>b'. copy_from_slice s b = Inr b' \<and> contents b' = map Some s \<and> vec_wf b'"
  using vec_resize_wf [OF assms, of "length s"]
  by (auto simp: copy_from_slice_def slice_copy_def vec_resize_len vec_defs)

theorem copy_from_slice_contents_witness:
  "\<exists>b'. copy_from_slice [1, 2, 3] (vec_zeroed 1) = Inr b' \<and> contents b' = map Some [1, 2, 3]
    \<and> vec_wf b'"
  by (rule copy_from_slice_contents) (simp add: vec_defs)

end
