(* ===== verification/Io.thy ===== *)
theory Io
  imports Buffer Executor
begin

text \<open>
  The I/O abstractions of \<open>src/io/mod.rs\<close>, the per-CPU I/O state of \<open>src/cpu.rs\<close>, the
  \<open>IoFuture\<close> of \<open>src/io/future.rs\<close> and the I/O driving \<open>Runtime::block_on\<close> of
  \<open>src/executor.rs\<close>.

  \<open>IoProvider\<close> is a record of operations over the state of a backend; its contract is the
  locale \<open>io_provider\<close>, interpreted here on \<open>DummyIoBackend\<close> and later on the io_uring backend.
  An \<open>Arc<CpuIoState>\<close> is an index into the list of I/O states of the world, because the
  thread-local \<open>CURRENT_CPU_IO_STATE\<close> and the owner of the state share it.  Mutexes are held
  only for one access each, so that an operation is one step.
\<close>

section \<open>Operations, tokens, completions\<close>

text \<open>\<open>std::net::SocketAddr\<close>.\<close>

datatype socket_addr =
    SocketAddrV4 u32 u16
  | SocketAddrV6 "128 word" u16 u32 u32

datatype op =
    OpAccept raw_fd
  | OpRead raw_fd u64 usize
  | OpWrite raw_fd u64 rvec
  | OpFsync raw_fd
  | OpClose raw_fd
  | OpReadFile raw_fd u64 usize
  | OpWriteFile raw_fd u64 rvec
  | OpUdpRecv raw_fd rvec
  | OpUdpSend raw_fd rvec socket_addr

datatype io_token = IoToken u64

definition TOKEN_COUNTER_init :: u64 where
  "TOKEN_COUNTER_init = 1"

definition io_token_new :: "u64 \<Rightarrow> io_token \<times> u64" where
  "io_token_new counter = (let (c, counter') = fetch_add counter 1 in (IoToken c, counter'))"

fun io_token_id :: "io_token \<Rightarrow> u64" where
  "io_token_id (IoToken i) = i"

datatype completion_kind =
    CAccept raw_fd "socket_addr option"
  | CRead usize rvec
  | CWrite usize
  | CFsync
  | CClose
  | CReadFile usize rvec
  | CWriteFile usize
  | CUdpRecv usize rvec socket_addr
  | CUdpSend usize rvec

text \<open>\<open>std::io::Error\<close>: an error of the operating system with its code, or a kind and a
  message.  Of the kinds that the code of an operating system error maps to, the program only
  looks for \<open>Interrupted\<close> (\<open>EINTR\<close> is 4) and \<open>WouldBlock\<close> (\<open>EAGAIN\<close> is 11).\<close>

datatype io_error_kind = InvalidData | WriteZero | Interrupted | WouldBlock | Unsupported | OtherKind

datatype std_io_error = OsError int | SimpleError io_error_kind string

fun error_kind :: "std_io_error \<Rightarrow> io_error_kind" where
  "error_kind (OsError e) = (if e = 4 then Interrupted else if e = 11 then WouldBlock else OtherKind)"
| "error_kind (SimpleError k msg) = k"

datatype io_error = IoErr std_io_error | IoOther string

fun io_error_into :: "io_error \<Rightarrow> std_io_error" where
  "io_error_into (IoErr err) = err"
| "io_error_into (IoOther s) = SimpleError OtherKind s"

type_synonym io_result = "io_error + completion_kind"
type_synonym completion = "io_token \<times> op \<times> io_result"

section \<open>IoProvider\<close>

text \<open>\<open>submit\<close> draws a token from the process-wide counter, which it is passed.\<close>

record 'b io_ops =
  io_submit :: "op \<Rightarrow> u64 \<Rightarrow> 'b \<Rightarrow> io_token \<times> u64 \<times> 'b"
  io_poll_complete :: "'b \<Rightarrow> completion list poll \<times> 'b"

text \<open>The contract of a backend: an operation gets the next token of the counter; every
  completion belongs to a pending operation, and an operation completes at most once.\<close>

locale io_provider =
  fixes B :: "'b io_ops"
    and in_flight :: "'b \<Rightarrow> io_token set"
    and ok :: "'b \<Rightarrow> bool"
  assumes submit_token: "io_submit B op c b = (tok, c', b') \<Longrightarrow> tok = IoToken c \<and> c' = c + 1"
    and submit_pending: "ok b \<Longrightarrow> IoToken c \<notin> in_flight b \<Longrightarrow> io_submit B op c b = (tok, c', b')
      \<Longrightarrow> ok b' \<and> in_flight b' \<subseteq> insert (IoToken c) (in_flight b)"
    and complete_pending: "ok b \<Longrightarrow> io_poll_complete B b = (Ready cs, b')
      \<Longrightarrow> ok b' \<and> set (map fst cs) \<subseteq> in_flight b \<and> distinct (map fst cs)
        \<and> in_flight b' \<subseteq> in_flight b - set (map fst cs)"
    and complete_none: "ok b \<Longrightarrow> io_poll_complete B b = (Pending, b')
      \<Longrightarrow> ok b' \<and> in_flight b' \<subseteq> in_flight b"

definition dummy_submit :: "op \<Rightarrow> u64 \<Rightarrow> unit \<Rightarrow> io_token \<times> u64 \<times> unit" where
  "dummy_submit op c b = (let (tok, c') = io_token_new c in (tok, c', b))"

definition dummy_poll_complete :: "unit \<Rightarrow> completion list poll \<times> unit" where
  "dummy_poll_complete b = (Ready [], b)"

definition DummyIoBackend :: "unit io_ops" where
  "DummyIoBackend = \<lparr>io_submit = dummy_submit, io_poll_complete = dummy_poll_complete\<rparr>"

interpretation dummy: io_provider DummyIoBackend "\<lambda>_. {}" "\<lambda>_. True"
  by unfold_locales (auto simp: DummyIoBackend_def dummy_submit_def dummy_poll_complete_def
      io_token_new_def fetch_add_def)

interpretation io_tokens: id_counter io_token_new IoToken
  by unfold_locales (simp_all add: io_token_new_def fetch_add_def)

section \<open>The I/O state of a CPU\<close>

record 'b cpu_io_state =
  io_backend :: 'b
  io_wakers :: "io_token \<rightharpoonup> waker"
  completed_io :: "io_token \<rightharpoonup> io_result"

definition io_state_new :: "'b \<Rightarrow> 'b cpu_io_state" where
  "io_state_new b = \<lparr>io_backend = b, io_wakers = Map.empty, completed_io = Map.empty\<rparr>"

definition io_state_default :: "unit cpu_io_state" where
  "io_state_default = io_state_new ()"

text \<open>The loop over the completions: store the result, take the waker out and wake it.\<close>

primrec process_completions ::
  "completion list \<Rightarrow> 'b cpu_io_state \<Rightarrow> 'b cpu_io_state \<times> waker list" where
  "process_completions [] s = (s, [])"
| "process_completions (c # cs) s =
    (case c of (token, _, result) \<Rightarrow>
       let s1 = s\<lparr>completed_io := (completed_io s)(token \<mapsto> result),
                  io_wakers := (io_wakers s)(token := None)\<rparr>;
           (s2, ws) = process_completions cs s1
       in (s2, (case io_wakers s token of Some wk \<Rightarrow> [wk] | None \<Rightarrow> []) @ ws))"

definition poll_io_completions ::
  "'b io_ops \<Rightarrow> 'b cpu_io_state \<Rightarrow> bool \<times> 'b cpu_io_state \<times> waker list" where
  "poll_io_completions B s =
    (case io_poll_complete B (io_backend s) of
       (Ready completions, b) \<Rightarrow>
         (if completions = [] then (False, s\<lparr>io_backend := b\<rparr>, [])
          else let (s', ws) = process_completions completions (s\<lparr>io_backend := b\<rparr>) in (True, s', ws))
     | (Pending, b) \<Rightarrow> (False, s\<lparr>io_backend := b\<rparr>, []))"

section \<open>The world of I/O futures\<close>

record ('b, 'w) io_world =
  io_states :: "'b cpu_io_state list"
  cur_io :: "nat option"
  token_counter :: u64
  io_rest :: 'w

definition io_state :: "('b, 'w) io_world \<Rightarrow> nat may_panic" where
  "io_state w =
    (case cur_io w of
       Some i \<Rightarrow> Inr i
     | None \<Rightarrow> Inl (ExpectFailed ''I/O operation attempted outside of a miniss runtime thread''))"

definition set_current_io_state :: "nat \<Rightarrow> ('b, 'w) io_world \<Rightarrow> ('b, 'w) io_world" where
  "set_current_io_state i w = w\<lparr>cur_io := Some i\<rparr>"

definition clear_current_io_state :: "('b, 'w) io_world \<Rightarrow> ('b, 'w) io_world" where
  "clear_current_io_state w = w\<lparr>cur_io := None\<rparr>"

definition io_update :: "nat \<Rightarrow> ('b cpu_io_state \<Rightarrow> 'b cpu_io_state) \<Rightarrow> ('b, 'w) io_world \<Rightarrow> ('b, 'w) io_world" where
  "io_update i f w = w\<lparr>io_states := (io_states w)[i := f (io_states w ! i)]\<rparr>"

section \<open>IoFuture\<close>

text \<open>On the I/O state: take the result out, or register the waker.\<close>

definition io_take :: "io_token \<Rightarrow> waker \<Rightarrow> 'b cpu_io_state \<Rightarrow> io_result poll \<times> 'b cpu_io_state" where
  "io_take token wk s =
    (case completed_io s token of
       Some result \<Rightarrow> (Ready result, s\<lparr>completed_io := (completed_io s)(token := None)\<rparr>)
     | None \<Rightarrow> (Pending, s\<lparr>io_wakers := (io_wakers s)(token \<mapsto> wk)\<rparr>))"

definition io_forget :: "io_token \<Rightarrow> 'b cpu_io_state \<Rightarrow> 'b cpu_io_state" where
  "io_forget token s = s\<lparr>io_wakers := (io_wakers s)(token := None),
     completed_io := (completed_io s)(token := None)\<rparr>"

definition io_future_poll ::
  "waker \<Rightarrow> io_token \<Rightarrow> ('b, 'w) io_world \<Rightarrow> (panic + io_result poll) \<times> ('b, 'w) io_world" where
  "io_future_poll wk token w =
    (case io_state w of
       Inl e \<Rightarrow> (Inl e, w)
     | Inr i \<Rightarrow>
         let (p, s) = io_take token wk (io_states w ! i) in (Inr p, io_update i (\<lambda>_. s) w))"

definition io_future_drop :: "io_token \<Rightarrow> ('b, 'w) io_world \<Rightarrow> ('b, 'w) io_world may_panic" where
  "io_future_drop token w =
    (case io_state w of
       Inl e \<Rightarrow> Inl e
     | Inr i \<Rightarrow> Inr (io_update i (io_forget token) w))"

section \<open>Interleavings of futures and completions\<close>

text \<open>
  A run of one I/O state: operations are submitted, their futures are polled with changing
  wakers and dropped, and the owner of the state reaps completions, in any order.  Besides the
  state and the token counter the run keeps, for the statements only: how many tokens were
  issued, which futures exist, the waker of the last poll of each future that is waiting, the
  wakers called since then, and the tokens whose result was delivered.
\<close>

record 'b io_run =
  run_io :: "'b cpu_io_state"
  run_counter :: u64
  issued :: nat
  futures :: "io_token set"
  waiting :: "io_token \<rightharpoonup> waker"
  wake_log :: "io_token \<Rightarrow> waker list"
  delivered :: "io_token list"

definition io_run_start :: "'b \<Rightarrow> 'b io_run" where
  "io_run_start b = \<lparr>run_io = io_state_new b, run_counter = TOKEN_COUNTER_init, issued = 0,
     futures = {}, waiting = Map.empty, wake_log = (\<lambda>_. []), delivered = []\<rparr>"

inductive io_step :: "'b io_ops \<Rightarrow> 'b io_run \<Rightarrow> 'b io_run \<Rightarrow> bool" for B where
  io_submits: "io_submit B op (run_counter s) (io_backend (run_io s)) = (tok, c, b) \<Longrightarrow>
    issued s < 2 ^ 64 - 1 \<Longrightarrow>
    io_step B s (s\<lparr>run_io := (run_io s)\<lparr>io_backend := b\<rparr>, run_counter := c,
      issued := Suc (issued s), futures := insert tok (futures s)\<rparr>)"
| io_polls_pending: "tok \<in> futures s \<Longrightarrow> io_take tok wk (run_io s) = (Pending, st) \<Longrightarrow>
    io_step B s (s\<lparr>run_io := st, waiting := (waiting s)(tok \<mapsto> wk),
      wake_log := (wake_log s)(tok := [])\<rparr>)"
| io_polls_ready: "tok \<in> futures s \<Longrightarrow> io_take tok wk (run_io s) = (Ready r, st) \<Longrightarrow>
    io_step B s (s\<lparr>run_io := st, waiting := (waiting s)(tok := None),
      delivered := tok # delivered s\<rparr>)"
| io_drops: "tok \<in> futures s \<Longrightarrow>
    io_step B s (s\<lparr>run_io := io_forget tok (run_io s), waiting := (waiting s)(tok := None),
      futures := futures s - {tok}\<rparr>)"
| io_reaps: "poll_io_completions B (run_io s) = (progress, st, ws) \<Longrightarrow>
    io_step B s (s\<lparr>run_io := st, wake_log := (\<lambda>tok. wake_log s tok @ ws)\<rparr>)"

definition io_reachable :: "'b io_ops \<Rightarrow> 'b \<Rightarrow> 'b io_run \<Rightarrow> bool" where
  "io_reachable B b s \<longleftrightarrow> (io_step B)\<^sup>*\<^sup>* (io_run_start b) s"

definition issued_tokens :: "'b io_run \<Rightarrow> io_token set" where
  "issued_tokens s = (\<lambda>k. IoToken (of_nat k)) ` {1..issued s}"

text \<open>A future that waits has its waker registered, or its result is there and its waker was
  called; a token is in flight, has a result or was delivered, never two of these.\<close>

definition io_inv :: "('b \<Rightarrow> io_token set) \<Rightarrow> ('b \<Rightarrow> bool) \<Rightarrow> 'b io_run \<Rightarrow> bool" where
  "io_inv in_flight ok s \<longleftrightarrow>
    ok (io_backend (run_io s))
    \<and> run_counter s = of_nat (Suc (issued s)) \<and> issued s < 2 ^ 64
    \<and> in_flight (io_backend (run_io s)) \<union> dom (completed_io (run_io s)) \<union> set (delivered s) \<subseteq> issued_tokens s
    \<and> in_flight (io_backend (run_io s)) \<inter> (dom (completed_io (run_io s)) \<union> set (delivered s)) = {}
    \<and> dom (completed_io (run_io s)) \<inter> set (delivered s) = {}
    \<and> distinct (delivered s)
    \<and> (\<forall>tok wk. waiting s tok = Some wk \<longrightarrow>
        (completed_io (run_io s) tok \<noteq> None \<and> wk \<in> set (wake_log s tok))
        \<or> (completed_io (run_io s) tok = None \<and> io_wakers (run_io s) tok = Some wk))"

lemma io_inv_waiting:
  "io_inv in_flight ok s \<Longrightarrow> waiting s tok = Some wk \<Longrightarrow>
   (completed_io (run_io s) tok \<noteq> None \<and> wk \<in> set (wake_log s tok))
   \<or> (completed_io (run_io s) tok = None \<and> io_wakers (run_io s) tok = Some wk)"
  unfolding io_inv_def by blast

lemma process_completions_eq:
  assumes "distinct (map fst cs)" "process_completions cs s = (s', ws)"
  shows "io_backend s' = io_backend s
    \<and> dom (completed_io s') = dom (completed_io s) \<union> set (map fst cs)
    \<and> (\<forall>tok. tok \<notin> set (map fst cs) \<longrightarrow> completed_io s' tok = completed_io s tok
        \<and> io_wakers s' tok = io_wakers s tok)
    \<and> (\<forall>tok op r. (tok, op, r) \<in> set cs \<longrightarrow> completed_io s' tok = Some r \<and> io_wakers s' tok = None
        \<and> (\<forall>wk. io_wakers s tok = Some wk \<longrightarrow> wk \<in> set ws))"
  using assms
proof (induction cs arbitrary: s ws)
  case (Cons c cs)
  obtain tok op r where c: "c = (tok, op, r)" by (metis prod_cases3)
  let ?s1 = "s\<lparr>completed_io := (completed_io s)(tok \<mapsto> r), io_wakers := (io_wakers s)(tok := None)\<rparr>"
  obtain ws' where rec: "process_completions cs ?s1 = (s', ws')"
    "ws = (case io_wakers s tok of Some wk \<Rightarrow> [wk] | None \<Rightarrow> []) @ ws'"
    using Cons.prems(2) c by (auto split: prod.splits)
  have dist: "distinct (map fst cs)" "tok \<notin> set (map fst cs)" using Cons.prems(1) c by simp_all
  note IH = Cons.IH [OF dist(1) rec(1)]
  have self: "completed_io s' tok = Some r \<and> io_wakers s' tok = None" using IH dist(2) by simp
  have "io_wakers ?s1 t = io_wakers s t" if "(t, op', r') \<in> set cs" for t op' r'
    using that dist(2) by force
  with IH have others: "completed_io s' t = Some r' \<and> io_wakers s' t = None
      \<and> (\<forall>wk. io_wakers s t = Some wk \<longrightarrow> wk \<in> set ws)" if "(t, op', r') \<in> set cs" for t op' r'
    using that rec(2) by (metis Un_iff set_append)
  have "dom (completed_io s') = dom (completed_io s) \<union> set (map fst (c # cs))"
    using IH c by auto
  then show ?case
    using IH self others c rec(2) by (auto split: option.splits)
qed simp

lemma issued_tokens_frame [simp]:
  "issued_tokens (s\<lparr>run_io := a\<rparr>) = issued_tokens s"
  "issued_tokens (s\<lparr>run_counter := b\<rparr>) = issued_tokens s"
  "issued_tokens (s\<lparr>futures := c\<rparr>) = issued_tokens s"
  "issued_tokens (s\<lparr>waiting := d\<rparr>) = issued_tokens s"
  "issued_tokens (s\<lparr>wake_log := e\<rparr>) = issued_tokens s"
  "issued_tokens (s\<lparr>delivered := f\<rparr>) = issued_tokens s"
  by (simp_all add: issued_tokens_def)

lemma issued_tokens_Suc:
  "issued_tokens (s\<lparr>issued := Suc (issued s)\<rparr>) = insert (IoToken (of_nat (Suc (issued s)))) (issued_tokens s)"
  by (simp add: issued_tokens_def atLeastAtMostSuc_conv)

lemma fresh_token: "issued s < 2 ^ 64 - 1 \<Longrightarrow> IoToken (of_nat (Suc (issued s))) \<notin> issued_tokens s"
proof
  assume bound: "issued s < 2 ^ 64 - 1" and "IoToken (of_nat (Suc (issued s))) \<in> issued_tokens s"
  then obtain k where "k \<le> issued s" "(of_nat (Suc (issued s)) :: u64) = of_nat k"
    by (auto simp: issued_tokens_def)
  with bound word_of_nat_add_inj [of "Suc (issued s)" k "0 :: u64"] show False by simp
qed

context io_provider
begin

lemma submit_inv:
  assumes inv: "io_inv in_flight ok s"
    and sub: "io_submit B op (run_counter s) (io_backend (run_io s)) = (tok, c, b)"
    and bound: "issued s < 2 ^ 64 - 1"
  shows "io_inv in_flight ok (s\<lparr>run_io := (run_io s)\<lparr>io_backend := b\<rparr>, run_counter := c,
    issued := Suc (issued s), futures := insert tok (futures s)\<rparr>)"
proof -
  let ?new = "IoToken (of_nat (Suc (issued s)))"
  have c: "c = run_counter s + 1" using submit_token [OF sub] by simp
  have counter: "run_counter s = of_nat (Suc (issued s))" using inv by (simp add: io_inv_def)
  have fresh: "?new \<notin> issued_tokens s" using fresh_token [OF bound] .
  then have "IoToken (run_counter s) \<notin> in_flight (io_backend (run_io s))"
    using inv counter by (auto simp: io_inv_def)
  from submit_pending [OF _ this sub] inv counter
  have b: "ok b" "in_flight b \<subseteq> insert ?new (in_flight (io_backend (run_io s)))"
    by (simp_all add: io_inv_def)
  have tokens: "issued_tokens (s\<lparr>run_io := (run_io s)\<lparr>io_backend := b\<rparr>, run_counter := c,
    issued := Suc (issued s), futures := insert tok (futures s)\<rparr>) = insert ?new (issued_tokens s)"
    using issued_tokens_Suc [of s] by (simp add: issued_tokens_def)
  have "in_flight b \<union> dom (completed_io (run_io s)) \<union> set (delivered s) \<subseteq> insert ?new (issued_tokens s)"
    using inv b(2) by (auto simp: io_inv_def)
  moreover have "in_flight b \<inter> (dom (completed_io (run_io s)) \<union> set (delivered s)) = {}"
    using inv b(2) fresh unfolding io_inv_def by blast
  ultimately show ?thesis
    using inv b(1) c counter bound tokens by (simp add: io_inv_def)
qed

lemma reap_inv:
  assumes inv: "io_inv in_flight ok s" and reap: "poll_io_completions B (run_io s) = (progress, st, ws)"
  shows "io_inv in_flight ok (s\<lparr>run_io := st, wake_log := (\<lambda>tok. wake_log s tok @ ws)\<rparr>)"
proof -
  obtain p b where poll: "io_poll_complete B (io_backend (run_io s)) = (p, b)" by fastforce
  have ok: "ok (io_backend (run_io s))" using inv by (simp add: io_inv_def)
  show ?thesis
  proof (cases "\<exists>cs. p = Ready cs \<and> cs \<noteq> []")
    case False
    then have st: "st = (run_io s)\<lparr>io_backend := b\<rparr>" "ws = []"
      using reap poll by (auto simp: poll_io_completions_def split: poll.splits)
    have "ok b \<and> in_flight b \<subseteq> in_flight (io_backend (run_io s))"
      using False poll complete_pending [OF ok, of "[]" b] complete_none [OF ok, of b]
      by (cases p) auto
    with inv st show ?thesis unfolding io_inv_def by auto
  next
    case True
    then obtain cs where cs: "p = Ready cs" "cs \<noteq> []" by blast
    with reap poll have proc: "process_completions cs ((run_io s)\<lparr>io_backend := b\<rparr>) = (st, ws)"
      by (auto simp: poll_io_completions_def split: prod.splits)
    have b: "ok b" "set (map fst cs) \<subseteq> in_flight (io_backend (run_io s))" "distinct (map fst cs)"
      "in_flight b \<subseteq> in_flight (io_backend (run_io s)) - set (map fst cs)"
      using complete_pending [OF ok] poll cs by auto
    note eff = process_completions_eq [OF b(3) proc]
    have st: "io_backend st = b" "dom (completed_io st) = dom (completed_io (run_io s)) \<union> set (map fst cs)"
      using eff by simp_all
    have wait: "(completed_io st tok \<noteq> None \<and> wk \<in> set (wake_log s tok @ ws))
        \<or> (completed_io st tok = None \<and> io_wakers st tok = Some wk)" if "waiting s tok = Some wk" for tok wk
    proof (cases "tok \<in> set (map fst cs)")
      case True
      then obtain op r where in_cs: "(tok, op, r) \<in> set cs" by auto
      have "tok \<notin> dom (completed_io (run_io s))" using True b(2) inv unfolding io_inv_def by blast
      then have "io_wakers (run_io s) tok = Some wk" using inv that by (auto simp: io_inv_def)
      with eff in_cs have "wk \<in> set ws" "completed_io st tok = Some r" by auto
      then show ?thesis by auto
    next
      case False
      with eff have "completed_io st tok = completed_io (run_io s) tok"
        "io_wakers st tok = io_wakers (run_io s) tok" by simp_all
      with io_inv_waiting [OF inv that] show ?thesis by auto
    qed
    have "in_flight b \<union> dom (completed_io st) \<union> set (delivered s) \<subseteq> issued_tokens s"
      "in_flight b \<inter> (dom (completed_io st) \<union> set (delivered s)) = {}"
      "dom (completed_io st) \<inter> set (delivered s) = {}"
      using inv b(2,4) unfolding st(2) io_inv_def by blast+
    then show ?thesis
      using inv b(1) st(1) wait unfolding io_inv_def by simp
  qed
qed

lemma poll_pending_inv:
  assumes inv: "io_inv in_flight ok s" and take: "io_take tok wk (run_io s) = (Pending, st)"
  shows "io_inv in_flight ok (s\<lparr>run_io := st, waiting := (waiting s)(tok \<mapsto> wk),
    wake_log := (wake_log s)(tok := [])\<rparr>)"
proof -
  have st: "completed_io (run_io s) tok = None" "st = (run_io s)\<lparr>io_wakers := (io_wakers (run_io s))(tok \<mapsto> wk)\<rparr>"
    using take by (auto simp: io_take_def split: option.splits)
  with inv show ?thesis by (auto simp: io_inv_def)
qed

lemma poll_ready_inv:
  assumes inv: "io_inv in_flight ok s" and take: "io_take tok wk (run_io s) = (Ready r, st)"
  shows "io_inv in_flight ok (s\<lparr>run_io := st, waiting := (waiting s)(tok := None),
    delivered := tok # delivered s\<rparr>)"
proof -
  have st: "tok \<in> dom (completed_io (run_io s))"
    "st = (run_io s)\<lparr>completed_io := (completed_io (run_io s))(tok := None)\<rparr>"
    using take by (auto simp: io_take_def split: option.splits)
  have "tok \<notin> set (delivered s)" "tok \<notin> in_flight (io_backend (run_io s))" "tok \<in> issued_tokens s"
    using inv st(1) unfolding io_inv_def by blast+
  with inv st(2) show ?thesis by (auto simp: io_inv_def)
qed

lemma drop_inv:
  assumes inv: "io_inv in_flight ok s"
  shows "io_inv in_flight ok (s\<lparr>run_io := io_forget tok (run_io s), waiting := (waiting s)(tok := None),
    futures := futures s - {tok}\<rparr>)"
  using inv by (auto simp: io_inv_def io_forget_def)

lemma io_step_inv:
  assumes "io_step B s s'" "io_inv in_flight ok s"
  shows "io_inv in_flight ok s'"
  using assms
proof (cases rule: io_step.cases)
  case (io_submits op tok c b)
  with submit_inv [OF assms(2)] show ?thesis by blast
next
  case (io_polls_pending tok wk st)
  with poll_pending_inv [OF assms(2)] show ?thesis by simp
next
  case (io_polls_ready tok wk r st)
  with poll_ready_inv [OF assms(2)] show ?thesis by simp
next
  case (io_drops tok)
  with drop_inv [OF assms(2)] show ?thesis by simp
next
  case (io_reaps progress st ws)
  with reap_inv [OF assms(2)] show ?thesis by simp
qed

lemma io_steps_inv: "(io_step B)\<^sup>*\<^sup>* s s' \<Longrightarrow> io_inv in_flight ok s \<Longrightarrow> io_inv in_flight ok s'"
  by (induction rule: rtranclp_induct) (auto intro: io_step_inv)

lemma io_reachable_inv:
  assumes "ok b" "in_flight b = {}" "io_reachable B b s"
  shows "io_inv in_flight ok s"
proof (rule io_steps_inv)
  show "(io_step B)\<^sup>*\<^sup>* (io_run_start b) s" using assms(3) by (simp add: io_reachable_def)
  show "io_inv in_flight ok (io_run_start b)"
    using assms(1,2) by (simp add: io_inv_def io_run_start_def io_state_new_def TOKEN_COUNTER_init_def)
qed

text \<open>A result that no future will fetch stays.\<close>

lemma orphan_step:
  assumes "io_step B s s'" "io_inv in_flight ok s" "tok \<notin> futures s" "tok \<in> issued_tokens s"
    and "completed_io (run_io s) tok = Some r"
  shows "tok \<notin> futures s' \<and> tok \<in> issued_tokens s' \<and> completed_io (run_io s') tok = Some r"
  using assms(1)
proof (cases rule: io_step.cases)
  case (io_submits op t c b)
  have "run_counter s = of_nat (Suc (issued s))" using assms(2) by (simp add: io_inv_def)
  with submit_token [OF io_submits(2)] fresh_token [OF io_submits(3)] assms(4) have "t \<noteq> tok" by auto
  moreover have "issued_tokens s \<subseteq> issued_tokens (s\<lparr>issued := Suc (issued s)\<rparr>)"
    unfolding issued_tokens_Suc by blast
  ultimately show ?thesis using io_submits assms(3-5) by (auto simp: issued_tokens_def)
next
  case (io_reaps progress st ws)
  obtain p b where poll: "io_poll_complete B (io_backend (run_io s)) = (p, b)" by fastforce
  have "completed_io st tok = Some r"
  proof (cases "\<exists>cs. p = Ready cs \<and> cs \<noteq> []")
    case True
    then obtain cs where cs: "p = Ready cs" "cs \<noteq> []" by blast
    with io_reaps(2) poll have proc: "process_completions cs ((run_io s)\<lparr>io_backend := b\<rparr>) = (st, ws)"
      by (auto simp: poll_io_completions_def split: prod.splits)
    have b: "distinct (map fst cs)" "set (map fst cs) \<subseteq> in_flight (io_backend (run_io s))"
      using complete_pending [of "io_backend (run_io s)" cs b] poll cs assms(2) by (auto simp: io_inv_def)
    then have "tok \<notin> set (map fst cs)" using assms(2,5) unfolding io_inv_def by blast
    with process_completions_eq [OF b(1) proc] assms(5) show ?thesis by simp
  next
    case False
    then show ?thesis using io_reaps(2) poll assms(5)
      by (auto simp: poll_io_completions_def split: poll.splits)
  qed
  with io_reaps assms(3,4) show ?thesis by simp
qed (use assms in \<open>auto simp: io_take_def io_forget_def split: option.splits\<close>)

end

text \<open>A backend for examples: it keeps the tokens of its operations and completes all of them
  at the next poll.\<close>

definition queue_backend :: "(io_token \<times> op) list io_ops" where
  "queue_backend = \<lparr>io_submit = (\<lambda>op c b. (IoToken c, c + 1, b @ [(IoToken c, op)])),
     io_poll_complete = (\<lambda>b. (Ready (map (\<lambda>(t, op). (t, op, Inr CFsync)) b), []))\<rparr>"

interpretation queue_backend: io_provider queue_backend "\<lambda>b. set (map fst b)" "\<lambda>b. distinct (map fst b)"
  by unfold_locales (auto simp: queue_backend_def comp_def split_beta)

text \<open>Submit, poll, reap; and submit, drop, reap.\<close>

definition demo_io_waiting :: "(io_token \<times> op) list io_run" where
  "demo_io_waiting = \<lparr>run_io = \<lparr>io_backend = [], io_wakers = Map.empty,
      completed_io = [IoToken 1 \<mapsto> Inr CFsync]\<rparr>, run_counter = 2, issued = 1, futures = {IoToken 1},
    waiting = [IoToken 1 \<mapsto> TaskWaker (TaskId 5)],
    wake_log = (\<lambda>t. [TaskWaker (TaskId 5)]), delivered = []\<rparr>"

definition demo_io_dropped :: "(io_token \<times> op) list io_run" where
  "demo_io_dropped = \<lparr>run_io = \<lparr>io_backend = [], io_wakers = Map.empty,
      completed_io = [IoToken 1 \<mapsto> Inr CFsync]\<rparr>, run_counter = 2, issued = 1, futures = {},
    waiting = Map.empty, wake_log = (\<lambda>t. []), delivered = []\<rparr>"

definition demo_io_submitted :: "(io_token \<times> op) list io_run" where
  "demo_io_submitted = \<lparr>run_io = \<lparr>io_backend = [(IoToken 1, OpFsync 3)], io_wakers = Map.empty,
      completed_io = Map.empty\<rparr>, run_counter = 2, issued = 1, futures = {IoToken 1},
    waiting = Map.empty, wake_log = (\<lambda>t. []), delivered = []\<rparr>"

lemma demo_io_submit: "io_step queue_backend (io_run_start []) demo_io_submitted"
  using io_submits [of queue_backend "OpFsync 3" "io_run_start []" "IoToken 1" 2 "[(IoToken 1, OpFsync 3)]"]
  by (simp add: io_run_start_def io_state_new_def TOKEN_COUNTER_init_def queue_backend_def
      demo_io_submitted_def)

lemma demo_io_waiting_reachable: "io_reachable queue_backend [] demo_io_waiting"
proof -
  define s where "s = demo_io_submitted\<lparr>run_io := \<lparr>io_backend = [(IoToken 1, OpFsync 3)],
      io_wakers = [IoToken 1 \<mapsto> TaskWaker (TaskId 5)], completed_io = Map.empty\<rparr>,
    waiting := [IoToken 1 \<mapsto> TaskWaker (TaskId 5)]\<rparr>"
  have "io_step queue_backend demo_io_submitted s"
    using io_polls_pending [of "IoToken 1" demo_io_submitted "TaskWaker (TaskId 5)" "run_io s" queue_backend]
    by (simp add: demo_io_submitted_def s_def io_take_def)
  moreover have "io_step queue_backend s demo_io_waiting"
    using io_reaps [of queue_backend s True "run_io demo_io_waiting" "[TaskWaker (TaskId 5)]"]
    by (simp add: s_def demo_io_submitted_def demo_io_waiting_def poll_io_completions_def
        queue_backend_def)
  ultimately show ?thesis
    unfolding io_reachable_def
    by (rule rtranclp_three [where r = "io_step queue_backend", OF demo_io_submit])
qed

lemma demo_io_dropped_reachable: "io_reachable queue_backend [] demo_io_dropped"
proof -
  define s where "s = demo_io_submitted\<lparr>futures := {}\<rparr>"
  have "io_step queue_backend demo_io_submitted s"
    using io_drops [of "IoToken 1" demo_io_submitted queue_backend]
    by (simp add: demo_io_submitted_def s_def io_forget_def)
  moreover have "io_step queue_backend s demo_io_dropped"
    using io_reaps [of queue_backend s True "run_io demo_io_dropped" "[]"]
    by (simp add: s_def demo_io_submitted_def demo_io_dropped_def poll_io_completions_def
        queue_backend_def)
  ultimately show ?thesis
    unfolding io_reachable_def
    by (rule rtranclp_three [where r = "io_step queue_backend", OF demo_io_submit])
qed

section \<open>Properties\<close>

text \<open>No I/O completion is lost.  In every interleaving of submissions, polls, drops and
  reaping over any backend that keeps its contract: if the last poll of a future was pending,
  then either its latest waker is registered and its result is not there yet, or the result is
  there, that waker has been called since the poll, and the next poll returns the result.\<close>

theorem io_no_lost_wakeup:
  assumes "io_provider B in_flight ok" "ok b" "in_flight b = {}" "io_reachable B b s"
    and "waiting s tok = Some wk"
  shows "(io_wakers (run_io s) tok = Some wk \<and> completed_io (run_io s) tok = None)
    \<or> (\<exists>r. completed_io (run_io s) tok = Some r \<and> wk \<in> set (wake_log s tok)
        \<and> fst (io_take tok wk' (run_io s)) = Ready r)"
proof -
  have "io_inv in_flight ok s" using io_provider.io_reachable_inv [OF assms(1-4)] .
  from io_inv_waiting [OF this assms(5)] show ?thesis
    by (cases "completed_io (run_io s) tok") (auto simp: io_take_def)
qed

theorem io_no_lost_wakeup_witness:
  "TaskWaker (TaskId 5) \<in> set (wake_log demo_io_waiting (IoToken 1))
   \<and> fst (io_take (IoToken 1) DummyWaker (run_io demo_io_waiting)) = Ready (Inr CFsync)"
proof -
  have "waiting demo_io_waiting (IoToken 1) = Some (TaskWaker (TaskId 5))"
    "completed_io (run_io demo_io_waiting) (IoToken 1) = Some (Inr CFsync)"
    by (simp_all add: demo_io_waiting_def)
  with io_no_lost_wakeup [OF queue_backend.io_provider_axioms _ _ demo_io_waiting_reachable this(1),
      of DummyWaker] show ?thesis by simp
qed

text \<open>Every I/O result is delivered at most once: over any history no token occurs twice
  among the delivered results, and a delivered token is neither in flight nor waiting to be
  fetched, so a further poll of its future would be pending.\<close>

theorem io_delivered_once:
  assumes "io_provider B in_flight ok" "ok b" "in_flight b = {}" "io_reachable B b s"
  shows "distinct (delivered s)
    \<and> (\<forall>tok \<in> set (delivered s). tok \<notin> in_flight (io_backend (run_io s))
        \<and> fst (io_take tok wk (run_io s)) = Pending)"
proof -
  have inv: "io_inv in_flight ok s" using io_provider.io_reachable_inv [OF assms(1-4)] .
  moreover have "completed_io (run_io s) tok = None" "tok \<notin> in_flight (io_backend (run_io s))"
    if "tok \<in> set (delivered s)" for tok
    using inv that unfolding io_inv_def by blast+
  ultimately show ?thesis by (auto simp: io_inv_def io_take_def)
qed

theorem io_delivered_once_witness:
  "distinct (delivered demo_io_waiting)"
  using io_delivered_once [OF queue_backend.io_provider_axioms _ _ demo_io_waiting_reachable] by simp

text \<open>The result of a dropped future leaks.  When the future of an operation has been dropped
  and the operation then completes, its entry in \<open>completed_io\<close> stays there in every later
  state.\<close>

theorem dropped_future_leaks_result:
  assumes "io_provider B in_flight ok" "ok b" "in_flight b = {}" "io_reachable B b s"
    and "tok \<in> issued_tokens s" "tok \<notin> futures s" "completed_io (run_io s) tok = Some r"
    and "(io_step B)\<^sup>*\<^sup>* s s'"
  shows "completed_io (run_io s') tok = Some r"
proof -
  have inv: "io_inv in_flight ok s" using io_provider.io_reachable_inv [OF assms(1-4)] .
  from assms(8) have "io_inv in_flight ok s' \<and> tok \<notin> futures s' \<and> tok \<in> issued_tokens s'
      \<and> completed_io (run_io s') tok = Some r"
  proof (induction rule: rtranclp_induct)
    case (step s1 s2)
    then show ?case
      using io_provider.orphan_step [OF assms(1) step(2)] io_provider.io_step_inv [OF assms(1) step(2)]
      by simp
  qed (use inv assms(5-7) in simp)
  then show ?thesis by simp
qed

theorem dropped_future_leaks_result_witness:
  "completed_io (run_io (demo_io_dropped\<lparr>wake_log := (\<lambda>t. [] @ [])\<rparr>)) (IoToken 1) = Some (Inr CFsync)"
proof (rule dropped_future_leaks_result [OF queue_backend.io_provider_axioms _ _ demo_io_dropped_reachable])
  have "io_step queue_backend demo_io_dropped (demo_io_dropped\<lparr>wake_log := (\<lambda>t. [] @ [])\<rparr>)"
    using io_reaps [of queue_backend demo_io_dropped False "run_io demo_io_dropped" "[]"]
    by (simp add: demo_io_dropped_def poll_io_completions_def queue_backend_def)
  then show "(io_step queue_backend)\<^sup>*\<^sup>* demo_io_dropped (demo_io_dropped\<lparr>wake_log := (\<lambda>t. [] @ [])\<rparr>)"
    by blast
qed (simp_all add: demo_io_dropped_def issued_tokens_def)

end
