(* ===== verification/Cpu.thy ===== *)
theory Cpu
  imports Io Timer
begin

text \<open>
  The per-thread event loop of \<open>src/cpu.rs\<close>: \<open>Cpu\<close>, its messages and \<open>CpuHandle\<close>.

  The state of a CPU comes with the store of result channels, the world of its futures (which
  holds the I/O states) and the number of clock readings.  Its parameters, in \<open>cpu_env\<close>, are the
  run queue, the result channels, the message channel, the futures, the I/O backend and the
  clock.  Unlike the executor, \<open>Cpu::tick\<close> does not catch panics: a panic of a future leaves
  \<open>tick\<close> and \<open>run\<close>.  Loops that other code can keep going take fuel.
\<close>

datatype 'f cross_cpu_message =
    SubmitTask task_id 'f
  | Shutdown
  | Ping usize
  | CancelTask task_id

record ('f, 'v, 'b, 'w, 'q, 'c, 'm) cpu_env =
  c_queue :: "('q, task_id) queue_ops"
  c_chan :: "('c, 'v task_result) chan_ops"
  c_msgs :: "('m, 'f cross_cpu_message) chan_ops"
  c_futs :: "('f, 'v, ('b, 'w) io_world) future_ops"
  c_io :: "'b io_ops"
  c_clock :: "nat \<Rightarrow> instant"

record ('f, 'q, 'm) cpu =
  c_id :: usize
  task_queue :: "task_id \<rightharpoonup> 'f task"
  cpu_ready :: 'q
  message_receiver :: 'm
  next_id :: u64
  timer :: "waker timer_wheel"
  running :: bool
  cpu_io :: nat
  cancelled_tasks :: "task_id set"

record ('f, 'b, 'w, 'q, 'c, 'm) cpu_state = "('f, 'q, 'm) cpu" +
  c_results :: "'c chan_store"
  c_world :: "('b, 'w) io_world"
  c_reads :: nat

definition GLOBAL_TASK_ID_COUNTER_init :: u64 where
  "GLOBAL_TASK_ID_COUNTER_init = 1"

definition generate_global_task_id :: "u64 \<Rightarrow> task_id \<times> u64" where
  "generate_global_task_id counter = (let (c, counter') = fetch_add counter 1 in (TaskId c, counter'))"

text \<open>\<open>Cpu::new\<close>; the I/O state it creates is the new last one of the world.\<close>

definition cpu_new ::
  "('f, 'v, 'b, 'w, 'q, 'c, 'm) cpu_env \<Rightarrow> usize \<Rightarrow> 'm \<Rightarrow> 'b \<Rightarrow> 'c chan_store \<Rightarrow> ('b, 'w) io_world \<Rightarrow> nat
   \<Rightarrow> ('f, 'b, 'w, 'q, 'c, 'm) cpu_state" where
  "cpu_new E i rx b st w k =
    \<lparr>c_id = i, task_queue = Map.empty, cpu_ready = q_new (c_queue E), message_receiver = rx,
     next_id = push_bit 32 (of_nat i), timer = wheel_default (c_clock E k), running = True,
     cpu_io = length (io_states w), cancelled_tasks = {},
     c_results = st, c_world = w\<lparr>io_states := io_states w @ [io_state_new b]\<rparr>, c_reads = Suc k\<rparr>"

definition cpu_next_task_id :: "('f, 'b, 'w, 'q, 'c, 'm) cpu_state
   \<Rightarrow> task_id \<times> ('f, 'b, 'w, 'q, 'c, 'm) cpu_state" where
  "cpu_next_task_id s = (let (c, n) = fetch_add (next_id s) 1 in (TaskId c, s\<lparr>next_id := n\<rparr>))"

definition cpu_wake :: "('f, 'v, 'b, 'w, 'q, 'c, 'm) cpu_env \<Rightarrow> waker list
   \<Rightarrow> ('f, 'b, 'w, 'q, 'c, 'm) cpu_state \<Rightarrow> ('f, 'b, 'w, 'q, 'c, 'm) cpu_state" where
  "cpu_wake E ws s = s\<lparr>cpu_ready := wake_all (c_queue E) ws (cpu_ready s)\<rparr>"

definition cpu_discard :: "('f, 'v, 'b, 'w, 'q, 'c, 'm) cpu_env \<Rightarrow> 'f task option
   \<Rightarrow> ('f, 'b, 'w, 'q, 'c, 'm) cpu_state \<Rightarrow> ('f, 'b, 'w, 'q, 'c, 'm) cpu_state" where
  "cpu_discard E t s =
    (case t of
       None \<Rightarrow> s
     | Some t \<Rightarrow>
         let (st, w, ws) = task_drop (c_futs E) (c_chan E) t (c_results s) (c_world s) in
         cpu_wake E ws (s\<lparr>c_results := st, c_world := w\<rparr>))"

text \<open>\<open>task_queue.insert\<close> and \<open>task_queue.remove\<close> with the drop of what they replace or take
  out.\<close>

definition cpu_insert :: "('f, 'v, 'b, 'w, 'q, 'c, 'm) cpu_env \<Rightarrow> task_id \<Rightarrow> 'f task
   \<Rightarrow> ('f, 'b, 'w, 'q, 'c, 'm) cpu_state \<Rightarrow> ('f, 'b, 'w, 'q, 'c, 'm) cpu_state" where
  "cpu_insert E i t s = cpu_discard E (task_queue s i) (s\<lparr>task_queue := (task_queue s)(i \<mapsto> t)\<rparr>)"

definition cpu_remove :: "('f, 'v, 'b, 'w, 'q, 'c, 'm) cpu_env \<Rightarrow> task_id
   \<Rightarrow> ('f, 'b, 'w, 'q, 'c, 'm) cpu_state \<Rightarrow> ('f, 'b, 'w, 'q, 'c, 'm) cpu_state" where
  "cpu_remove E i s = cpu_discard E (task_queue s i) (s\<lparr>task_queue := (task_queue s)(i := None)\<rparr>)"

definition cpu_spawn :: "('f, 'v, 'b, 'w, 'q, 'c, 'm) cpu_env \<Rightarrow> 'f
   \<Rightarrow> ('f, 'b, 'w, 'q, 'c, 'm) cpu_state \<Rightarrow> join_handle \<times> ('f, 'b, 'w, 'q, 'c, 'm) cpu_state" where
  "cpu_spawn E f s =
    (let (i, s1) = cpu_next_task_id s;
         (r, st) = store_alloc (ch_bounded (c_chan E) 1) (c_results s1);
         s2 = cpu_insert E i (task_new i (Wrapped f r)) (s1\<lparr>c_results := st\<rparr>);
         s3 = s2\<lparr>cpu_ready := q_push (c_queue E) (cpu_ready s2) i\<rparr>
     in (join_handle_new i r, s3))"

fun handle_message :: "('f, 'v, 'b, 'w, 'q, 'c, 'm) cpu_env \<Rightarrow> 'f cross_cpu_message
   \<Rightarrow> ('f, 'b, 'w, 'q, 'c, 'm) cpu_state \<Rightarrow> ('f, 'b, 'w, 'q, 'c, 'm) cpu_state" where
  "handle_message E (SubmitTask i f) s =
    (let s1 = cpu_insert E i (from_pinned i (Raw f)) s in
     s1\<lparr>cpu_ready := q_push (c_queue E) (cpu_ready s1) i\<rparr>)"
| "handle_message E Shutdown s = s\<lparr>running := False\<rparr>"
| "handle_message E (Ping _) s = s"
| "handle_message E (CancelTask i) s =
    cpu_remove E i (s\<lparr>cancelled_tasks := insert i (cancelled_tasks s)\<rparr>)"

primrec process_messages :: "('f, 'v, 'b, 'w, 'q, 'c, 'm) cpu_env \<Rightarrow> nat
   \<Rightarrow> ('f, 'b, 'w, 'q, 'c, 'm) cpu_state \<Rightarrow> ('f, 'b, 'w, 'q, 'c, 'm) cpu_state option" where
  "process_messages E 0 s = None"
| "process_messages E (Suc fuel) s =
    (case ch_try_recv (c_msgs E) (message_receiver s) of
       (RecvOk message, rx) \<Rightarrow>
         process_messages E fuel (handle_message E message (s\<lparr>message_receiver := rx\<rparr>))
     | (_, rx) \<Rightarrow> Some (s\<lparr>message_receiver := rx\<rparr>))"

definition cpu_poll_io_completions :: "('f, 'v, 'b, 'w, 'q, 'c, 'm) cpu_env
   \<Rightarrow> ('f, 'b, 'w, 'q, 'c, 'm) cpu_state \<Rightarrow> bool \<times> ('f, 'b, 'w, 'q, 'c, 'm) cpu_state" where
  "cpu_poll_io_completions E s =
    (let (progress, st, ws) = poll_io_completions (c_io E) (io_states (c_world s) ! cpu_io s) in
     (progress, cpu_wake E ws (s\<lparr>c_world := io_update (cpu_io s) (\<lambda>_. st) (c_world s)\<rparr>)))"

text \<open>The timers that are due, woken in order.\<close>

definition cpu_expire_timers :: "('f, 'v, 'b, 'w, 'q, 'c, 'm) cpu_env
   \<Rightarrow> ('f, 'b, 'w, 'q, 'c, 'm) cpu_state \<Rightarrow> (bool \<times> ('f, 'b, 'w, 'q, 'c, 'm) cpu_state) may_panic" where
  "cpu_expire_timers E s =
    (case expire (c_clock E (c_reads s)) (timer s) [] of
       Inl e \<Rightarrow> Inl e
     | Inr (wheel, ready_wakers) \<Rightarrow>
         Inr (ready_wakers \<noteq> [],
           cpu_wake E ready_wakers (s\<lparr>timer := wheel, c_reads := Suc (c_reads s)\<rparr>)))"

text \<open>One iteration over the run queue, for a popped identifier.  \<open>None\<close> is a send that blocks
  for ever; a panic comes with the state after unwinding, in which the task is dropped.\<close>

definition cpu_poll_one :: "('f, 'v, 'b, 'w, 'q, 'c, 'm) cpu_env \<Rightarrow> task_id
   \<Rightarrow> ('f, 'b, 'w, 'q, 'c, 'm) cpu_state
   \<Rightarrow> (bool may_panic \<times> ('f, 'b, 'w, 'q, 'c, 'm) cpu_state) option" where
  "cpu_poll_one E i s =
    (if i \<in> cancelled_tasks s
     then Some (Inr True, cpu_remove E i (s\<lparr>cancelled_tasks := cancelled_tasks s - {i}\<rparr>))
     else case task_queue s i of
       None \<Rightarrow> Some (Inr False, s)
     | Some t \<Rightarrow>
         let s1 = s\<lparr>task_queue := (task_queue s)(i := None)\<rparr> in
         case task_poll (c_futs E) (c_chan E) (TaskWaker i) t (c_results s1) (c_world s1) of
           None \<Rightarrow> None
         | Some (res, t', st, w, ws) \<Rightarrow>
             let s2 = cpu_wake E ws (s1\<lparr>c_results := st, c_world := w\<rparr>) in
             (case res of
                Inr (Ready _) \<Rightarrow> Some (Inr True, cpu_discard E (Some t') s2)
              | Inr Pending \<Rightarrow> Some (Inr True, cpu_insert E i t' s2)
              | Inl p \<Rightarrow> Some (Inl (UserPanic p), cpu_discard E (Some t') s2)))"

primrec cpu_run_tasks :: "('f, 'v, 'b, 'w, 'q, 'c, 'm) cpu_env \<Rightarrow> nat
   \<Rightarrow> ('f, 'b, 'w, 'q, 'c, 'm) cpu_state \<Rightarrow> bool
   \<Rightarrow> (bool may_panic \<times> ('f, 'b, 'w, 'q, 'c, 'm) cpu_state) option" where
  "cpu_run_tasks E 0 s made_progress = None"
| "cpu_run_tasks E (Suc fuel) s made_progress =
    (case q_pop (c_queue E) (cpu_ready s) of
       (None, q) \<Rightarrow> Some (Inr made_progress, s\<lparr>cpu_ready := q\<rparr>)
     | (Some i, q) \<Rightarrow>
         (case cpu_poll_one E i (s\<lparr>cpu_ready := q\<rparr>) of
            None \<Rightarrow> None
          | Some (Inl e, s') \<Rightarrow> Some (Inl e, s')
          | Some (Inr p, s') \<Rightarrow> cpu_run_tasks E fuel s' (made_progress \<or> p)))"

definition cpu_tick :: "('f, 'v, 'b, 'w, 'q, 'c, 'm) cpu_env \<Rightarrow> nat
   \<Rightarrow> ('f, 'b, 'w, 'q, 'c, 'm) cpu_state
   \<Rightarrow> (bool may_panic \<times> ('f, 'b, 'w, 'q, 'c, 'm) cpu_state) option" where
  "cpu_tick E fuel s =
    (case process_messages E fuel s of
       None \<Rightarrow> None
     | Some s1 \<Rightarrow>
         (case cpu_expire_timers E s1 of
            Inl e \<Rightarrow> Some (Inl e, s1)
          | Inr (expired, s2) \<Rightarrow>
              (case cpu_run_tasks E fuel s2 expired of
                 Some (Inr made_progress, s3) \<Rightarrow>
                   (let (completed, s4) = cpu_poll_io_completions E s3 in
                    Some (Inr (made_progress \<or> completed), s4))
               | r \<Rightarrow> r)))"

definition cpu_schedule_timer :: "('f, 'v, 'b, 'w, 'q, 'c, 'm) cpu_env \<Rightarrow> instant \<Rightarrow> task_id \<Rightarrow> u64
   \<Rightarrow> ('f, 'b, 'w, 'q, 'c, 'm) cpu_state
   \<Rightarrow> (u64 \<times> ('f, 'b, 'w, 'q, 'c, 'm) cpu_state) may_panic" where
  "cpu_schedule_timer E at i counter s =
    (case schedule at (TaskWaker i) counter (timer s) of
       Inl e \<Rightarrow> Inl e
     | Inr (_, counter', wheel) \<Rightarrow> Inr (counter', s\<lparr>timer := wheel\<rparr>))"

text \<open>What other threads do while the CPU waits in round \<open>k\<close> of its loop: they send messages and
  call wakers.\<close>

definition cpu_interfere :: "('f, 'v, 'b, 'w, 'q, 'c, 'm) cpu_env
   \<Rightarrow> 'f cross_cpu_message list \<times> waker list
   \<Rightarrow> ('f, 'b, 'w, 'q, 'c, 'm) cpu_state \<Rightarrow> ('f, 'b, 'w, 'q, 'c, 'm) cpu_state" where
  "cpu_interfere E x s =
    cpu_wake E (snd x)
      (s\<lparr>message_receiver := fold (\<lambda>m c. snd (ch_send (c_msgs E) c m)) (fst x) (message_receiver s)\<rparr>)"

text \<open>\<open>recv_timeout\<close> when the run queue is empty, otherwise every message that is there.\<close>

definition cpu_wait :: "('f, 'v, 'b, 'w, 'q, 'c, 'm) cpu_env \<Rightarrow> nat
   \<Rightarrow> ('f, 'b, 'w, 'q, 'c, 'm) cpu_state \<Rightarrow> ('f, 'b, 'w, 'q, 'c, 'm) cpu_state option" where
  "cpu_wait E fuel s =
    (if q_is_empty (c_queue E) (cpu_ready s)
     then case ch_try_recv (c_msgs E) (message_receiver s) of
            (RecvOk msg, rx) \<Rightarrow> Some (handle_message E msg (s\<lparr>message_receiver := rx\<rparr>))
          | (RecvDisconnected, rx) \<Rightarrow> Some (s\<lparr>message_receiver := rx, running := False\<rparr>)
          | (RecvEmpty, rx) \<Rightarrow> Some (s\<lparr>message_receiver := rx\<rparr>)
     else process_messages E fuel s)"

primrec cpu_run_loop :: "('f, 'v, 'b, 'w, 'q, 'c, 'm) cpu_env
   \<Rightarrow> (nat \<Rightarrow> 'f cross_cpu_message list \<times> waker list) \<Rightarrow> nat \<Rightarrow> nat \<Rightarrow> nat
   \<Rightarrow> ('f, 'b, 'w, 'q, 'c, 'm) cpu_state
   \<Rightarrow> (unit may_panic \<times> ('f, 'b, 'w, 'q, 'c, 'm) cpu_state) option" where
  "cpu_run_loop E ext inner k 0 s = None"
| "cpu_run_loop E ext inner k (Suc fuel) s =
    (if running s
     then case cpu_tick E inner s of
            None \<Rightarrow> None
          | Some (Inl e, s1) \<Rightarrow> Some (Inl e, s1)
          | Some (Inr _, s1) \<Rightarrow>
              (case cpu_wait E inner (cpu_interfere E (ext k) s1) of
                 None \<Rightarrow> None
               | Some s2 \<Rightarrow> cpu_run_loop E ext inner (Suc k) fuel s2)
     else Some (Inr (), s\<lparr>c_world := clear_current_io_state (c_world s)\<rparr>))"

definition cpu_run :: "('f, 'v, 'b, 'w, 'q, 'c, 'm) cpu_env
   \<Rightarrow> (nat \<Rightarrow> 'f cross_cpu_message list \<times> waker list) \<Rightarrow> nat \<Rightarrow> nat
   \<Rightarrow> ('f, 'b, 'w, 'q, 'c, 'm) cpu_state
   \<Rightarrow> (unit may_panic \<times> ('f, 'b, 'w, 'q, 'c, 'm) cpu_state) option" where
  "cpu_run E ext inner fuel s =
    cpu_run_loop E ext inner 0 fuel (s\<lparr>c_world := set_current_io_state (cpu_io s) (c_world s)\<rparr>)"

section \<open>CpuHandle\<close>

definition CROSS_CPU_CHANNEL_CAPACITY :: usize where
  "CROSS_CPU_CHANNEL_CAPACITY = 1000"

definition cpu_handle_new :: "('m, 'f cross_cpu_message) chan_ops \<Rightarrow> 'm" where
  "cpu_handle_new M = ch_bounded M CROSS_CPU_CHANNEL_CAPACITY"

definition submit_task :: "('m, 'f cross_cpu_message) chan_ops \<Rightarrow> 'f \<Rightarrow> u64 \<Rightarrow> 'm
   \<Rightarrow> send_result \<times> task_id \<times> u64 \<times> 'm" where
  "submit_task M f counter ch =
    (let (i, counter') = generate_global_task_id counter;
         (res, ch') = ch_send M ch (SubmitTask i f)
     in (res, i, counter', ch'))"

definition handle_shutdown :: "('m, 'f cross_cpu_message) chan_ops \<Rightarrow> 'm \<Rightarrow> send_result \<times> 'm" where
  "handle_shutdown M ch = ch_send M ch Shutdown"

definition handle_ping :: "('m, 'f cross_cpu_message) chan_ops \<Rightarrow> usize \<Rightarrow> 'm \<Rightarrow> send_result \<times> 'm" where
  "handle_ping M from_cpu ch = ch_send M ch (Ping from_cpu)"

definition handle_cancel_task :: "('m, 'f cross_cpu_message) chan_ops \<Rightarrow> task_id \<Rightarrow> 'm \<Rightarrow> send_result \<times> 'm" where
  "handle_cancel_task M i ch = ch_send M ch (CancelTask i)"

text \<open>The handle keeps the thread of the CPU; \<open>join_thread\<close> waits for it.\<close>

definition set_thread_handle :: "'h \<Rightarrow> 'h option \<Rightarrow> 'h option" where
  "set_thread_handle h thread_handle = Some h"

definition handle_join :: "('h \<Rightarrow> panic + unit) \<Rightarrow> 'h option \<Rightarrow> panic + unit" where
  "handle_join join_thread thread_handle =
    (case thread_handle of Some h \<Rightarrow> join_thread h | None \<Rightarrow> Inr ())"

section \<open>Frame facts\<close>

lemma cpu_discard_frame [simp]:
  "task_queue (cpu_discard E t s) = task_queue s" "message_receiver (cpu_discard E t s) = message_receiver s"
  "running (cpu_discard E t s) = running s" "cancelled_tasks (cpu_discard E t s) = cancelled_tasks s"
  "timer (cpu_discard E t s) = timer s" "next_id (cpu_discard E t s) = next_id s"
  by (simp_all add: cpu_discard_def cpu_wake_def split: option.splits prod.splits)

lemma cpu_wake_frame [simp]:
  "task_queue (cpu_wake E ws s) = task_queue s" "message_receiver (cpu_wake E ws s) = message_receiver s"
  "running (cpu_wake E ws s) = running s" "c_results (cpu_wake E ws s) = c_results s"
  "cancelled_tasks (cpu_wake E ws s) = cancelled_tasks s" "timer (cpu_wake E ws s) = timer s"
  by (simp_all add: cpu_wake_def)

lemma handle_message_receiver [simp]:
  "message_receiver (handle_message E m s) = message_receiver s"
  by (cases m) (simp_all add: cpu_insert_def cpu_remove_def Let_def)

lemma handle_message_running: "running (handle_message E m s) \<longleftrightarrow> running s \<and> m \<noteq> Shutdown"
  by (cases m) (auto simp: cpu_insert_def cpu_remove_def Let_def)

lemma handle_messages_running: "running (fold (handle_message E) ms s) \<longleftrightarrow> running s \<and> Shutdown \<notin> set ms"
  by (induction ms arbitrary: s) (auto simp: handle_message_running)

lemma fold_handle_receiver [simp]:
  "message_receiver (fold (handle_message E) ms s) = message_receiver s"
  by (induction ms arbitrary: s) simp_all

lemma handle_message_set_receiver:
  "(handle_message E m s)\<lparr>message_receiver := rx\<rparr> = handle_message E m (s\<lparr>message_receiver := rx\<rparr>)"
proof (cases m)
  case (SubmitTask i f)
  then show ?thesis
    by (simp add: cpu_insert_def cpu_discard_def cpu_wake_def Let_def split: option.splits prod.splits)
next
  case (CancelTask i)
  then show ?thesis
    by (simp add: cpu_remove_def cpu_discard_def cpu_wake_def split: option.splits prod.splits)
qed simp_all

lemma fold_handle_set_receiver:
  "(fold (handle_message E) ms s)\<lparr>message_receiver := rx\<rparr> = fold (handle_message E) ms (s\<lparr>message_receiver := rx\<rparr>)"
  by (induction ms arbitrary: s) (simp_all add: handle_message_set_receiver)

locale cpu_messages =
  fixes E :: "('f, 'v, 'b, 'w, 'q, 'c, 'm) cpu_env"
    and mview :: "'m \<Rightarrow> 'f cross_cpu_message chan_view"
  assumes messages: "channel (c_msgs E) mview"
begin

sublocale m: channel "c_msgs E" mview by (rule messages)

lemma try_recv_cases:
  obtains (message) m ms rx where "ch_try_recv (c_msgs E) c = (RecvOk m, rx)" "queued (mview c) = m # ms"
      "mview rx = (mview c)\<lparr>queued := ms\<rparr>"
  | (none) x rx where "ch_try_recv (c_msgs E) c = (x, rx)" "x = RecvEmpty \<or> x = RecvDisconnected"
      "queued (mview c) = []" "mview rx = mview c"
proof -
  obtain x rx where r: "ch_try_recv (c_msgs E) c = (x, rx)" by fastforce
  then have "x = fst (view_try_recv (mview c))" "mview rx = snd (view_try_recv (mview c))"
    using m.fst_try_recv [of c] m.view_snd_try_recv [of c] by simp_all
  with r that show ?thesis
    by (cases "queued (mview c)") (auto simp: view_try_recv_def)
qed

text \<open>All queued messages are handled, in their order.\<close>

lemma process_messages_eq:
  assumes "length (queued (mview (message_receiver s))) < fuel"
  shows "\<exists>rx. process_messages E fuel s
      = Some ((fold (handle_message E) (queued (mview (message_receiver s))) s)\<lparr>message_receiver := rx\<rparr>)
    \<and> mview rx = (mview (message_receiver s))\<lparr>queued := []\<rparr>"
  using assms
proof (induction fuel arbitrary: s)
  case (Suc fuel)
  show ?case
  proof (cases rule: try_recv_cases [of "message_receiver s"])
    case (message m ms rx)
    let ?s = "handle_message E m (s\<lparr>message_receiver := rx\<rparr>)"
    have "length (queued (mview (message_receiver ?s))) < fuel"
      using Suc.prems message by simp
    from Suc.IH [OF this] message obtain rx' where
      "process_messages E fuel ?s = Some ((fold (handle_message E) ms ?s)\<lparr>message_receiver := rx'\<rparr>)"
      "mview rx' = (mview rx)\<lparr>queued := []\<rparr>"
      by auto
    with message show ?thesis
      by (intro exI [of _ rx']) (simp add: fold_handle_set_receiver handle_message_set_receiver)
  next
    case (none x rx)
    then show ?thesis by (intro exI [of _ rx]) auto
  qed
qed simp

end

definition list_cpu :: "('f, 'v, ('b, 'w) io_world) future_ops \<Rightarrow> 'b io_ops \<Rightarrow> (nat \<Rightarrow> instant)
   \<Rightarrow> ('f, 'v, 'b, 'w, task_id list, 'v task_result chan_view, 'f cross_cpu_message chan_view) cpu_env" where
  "list_cpu F B clock = \<lparr>c_queue = list_queue, c_chan = view_channel, c_msgs = view_channel,
     c_futs = F, c_io = B, c_clock = clock\<rparr>"

lemma list_cpu_sel [simp]:
  "c_queue (list_cpu F B clock) = list_queue" "c_chan (list_cpu F B clock) = view_channel"
  "c_msgs (list_cpu F B clock) = view_channel" "c_futs (list_cpu F B clock) = F"
  "c_io (list_cpu F B clock) = B" "c_clock (list_cpu F B clock) = clock"
  by (simp_all add: list_cpu_def)

interpretation list_cpu: cpu_messages "list_cpu F B clock" "\<lambda>v. v" for F B clock
  by (rule cpu_messages.intro) (simp add: view_channel.channel_axioms)

section \<open>A CPU that is stopped stays stopped\<close>

lemma process_messages_stopped:
  "process_messages E fuel s = Some s' \<Longrightarrow> \<not> running s \<Longrightarrow> \<not> running s'"
proof (induction fuel arbitrary: s)
  case (Suc fuel)
  obtain x rx where r: "ch_try_recv (c_msgs E) (message_receiver s) = (x, rx)" by fastforce
  show ?case
  proof (cases x)
    case (RecvOk m)
    then show ?thesis
      using Suc.IH [of "handle_message E m (s\<lparr>message_receiver := rx\<rparr>)"] Suc.prems r
      by (simp add: handle_message_running)
  qed (use Suc.prems r in auto)
qed simp

lemma cpu_poll_one_running:
  "cpu_poll_one E i s = Some (res, s') \<Longrightarrow> running s' = running s"
  by (auto simp: cpu_poll_one_def cpu_remove_def cpu_insert_def Let_def
      split: if_splits option.splits prod.splits sum.splits poll.splits)

lemma cpu_run_tasks_running:
  "cpu_run_tasks E fuel s b = Some (res, s') \<Longrightarrow> running s' = running s"
proof (induction fuel arbitrary: s b)
  case (Suc fuel)
  obtain i q where pop: "q_pop (c_queue E) (cpu_ready s) = (i, q)" by fastforce
  show ?case
  proof (cases i)
    case None
    with Suc.prems pop show ?thesis by auto
  next
    case (Some j)
    with Suc.prems pop obtain r s1 where p: "cpu_poll_one E j (s\<lparr>cpu_ready := q\<rparr>) = Some (r, s1)"
      by (auto split: option.splits)
    from cpu_poll_one_running [OF p] Suc Some pop p show ?thesis by (cases r) auto
  qed
qed simp

lemma cpu_tick_running:
  assumes "cpu_tick E fuel s = Some (Inr p, s')" "process_messages E fuel s = Some s1"
  shows "running s' = running s1"
  using assms by (auto simp: cpu_tick_def cpu_expire_timers_def cpu_poll_io_completions_def
      dest!: cpu_run_tasks_running split: option.splits sum.splits prod.splits)

lemma cpu_wait_stopped:
  "cpu_wait E fuel s = Some s' \<Longrightarrow> \<not> running s \<Longrightarrow> \<not> running s'"
  by (auto simp: cpu_wait_def handle_message_running process_messages_stopped
      split: if_splits prod.splits try_recv.splits)

section \<open>Tasks that are gone stay gone\<close>

lemma cpu_poll_one_absent:
  assumes "task_queue s j = None" "cpu_poll_one E i s = Some (res, s')"
  shows "task_queue s' j = None"
  using assms
  by (auto simp: cpu_poll_one_def cpu_remove_def cpu_insert_def Let_def
      split: if_splits option.splits prod.splits sum.splits poll.splits)

lemma cpu_run_tasks_absent:
  assumes "task_queue s j = None" "cpu_run_tasks E fuel s b = Some (res, s')"
  shows "task_queue s' j = None"
  using assms
proof (induction fuel arbitrary: s b)
  case (Suc fuel)
  obtain i q where pop: "q_pop (c_queue E) (cpu_ready s) = (i, q)" by fastforce
  show ?case
  proof (cases i)
    case None
    with Suc.prems pop show ?thesis by auto
  next
    case (Some j')
    with Suc.prems pop obtain r s1 where p: "cpu_poll_one E j' (s\<lparr>cpu_ready := q\<rparr>) = Some (r, s1)"
      by (auto split: option.splits)
    have "task_queue s1 j = None" using cpu_poll_one_absent [OF _ p] Suc.prems(1) by simp
    with Suc Some pop p show ?thesis by (cases r) auto
  qed
qed simp

lemma jh_poll_discarded:
  assumes "channel (c_chan E) view" "chan_open view (c_results s) r" "t_future t = Wrapped f r"
  shows "fst (jh_poll (c_chan E) wk (join_handle_new i r) (c_results (cpu_discard E (Some t) s)))
    = Ready (Inl Cancelled)"
proof -
  have chan: "result_channel (c_chan E) view" using assms(1) by (rule result_channel.intro)
  obtain w ws where "fo_drop (c_futs E) f (c_world s) = (w, ws)" by fastforce
  then have "c_results (cpu_discard E (Some t) s) = store_update r (ch_drop_tx (c_chan E)) (c_results s)"
    using assms(3) by (simp add: cpu_discard_def task_drop.simps)
  with result_channel.jh_poll_holds [OF chan, where xs = "[]"]
    result_channel.drop_tx_open [OF chan assms(2)] show ?thesis
    by (simp add: join_handle_new_def)
qed

section \<open>Properties\<close>


text \<open>Futures for the examples: ready at once with their own number.\<close>

definition immediate :: "(nat, nat, (unit, unit) io_world) future_ops" where
  "immediate = \<lparr>fo_poll = (\<lambda>wk f w. (Inr (Ready f), f, w, [])), fo_drop = (\<lambda>f w. (w, []))\<rparr>"

definition demo_world :: "(unit, unit) io_world" where
  "demo_world = \<lparr>io_states = [], cur_io = None, token_counter = 1, io_rest = ()\<rparr>"

abbreviation "demo_env \<equiv> list_cpu immediate DummyIoBackend (\<lambda>k. k)"

definition demo_cpu :: "nat cross_cpu_message list \<Rightarrow> (nat, unit, unit, task_id list,
    nat task_result chan_view, nat cross_cpu_message chan_view) cpu_state" where
  "demo_cpu ms = cpu_new demo_env 0 \<lparr>queued = ms, chan_cap = 1000, senders = 1, receivers = 1\<rparr> ()
     store_empty demo_world 0"


text \<open>C31. A task that is submitted to CPU 0 can replace a spawned one.  \<open>CpuHandle::submit_task\<close>
  draws identifiers from a process-wide counter that starts at 1, and \<open>Cpu::spawn\<close> on CPU 0
  counts from 0; so the first submitted task gets the identifier of the second spawned task.  If
  that one is still in the task queue it is dropped unfinished, and its join handle reports
  \<open>Cancelled\<close>.\<close>

theorem submitted_task_replaces_spawned:
  assumes "channel (c_chan E) view"
    and "cpu_spawn E f0 (cpu_new E 0 rx b store_empty w k) = (h0, s1)" "cpu_spawn E f1 s1 = (h1, s2)"
    and "generate_global_task_id GLOBAL_TASK_ID_COUNTER_init = (i, c)"
  shows "task_queue s2 i = Some (task_new i (Wrapped f1 (jh_receiver h1)))
    \<and> task_queue (handle_message E (SubmitTask i f2) s2) i = Some (from_pinned i (Raw f2))
    \<and> fst (jh_poll (c_chan E) wk h1 (c_results (handle_message E (SubmitTask i f2) s2)))
      = Ready (Inl Cancelled)"
proof -
  have i: "i = TaskId 1"
    using assms(4) by (simp add: generate_global_task_id_def GLOBAL_TASK_ID_COUNTER_init_def fetch_add_def)
  let ?t = "task_new (TaskId 1) (Wrapped f1 1)"
  have s2: "h1 = join_handle_new (TaskId 1) 1" "task_queue s2 (TaskId 1) = Some ?t"
    "c_results s2 = \<lparr>cells = [0 \<mapsto> ch_bounded (c_chan E) 1, 1 \<mapsto> ch_bounded (c_chan E) 1], next_cell = 2\<rparr>"
    using assms(2,3) by (auto simp: cpu_spawn_def cpu_new_def cpu_next_task_id_def fetch_add_def
        store_alloc_def store_empty_def cpu_insert_def cpu_discard_def Let_def)
  then have "chan_open view (c_results s2) 1"
    using channel.view_ch_bounded [OF assms(1), of 1] by (simp add: chan_open_def view_bounded_def)
  then have "fst (jh_poll (c_chan E) wk (join_handle_new (TaskId 1) 1)
      (c_results (cpu_discard E (Some ?t) (s2\<lparr>task_queue := (task_queue s2)(TaskId 1 \<mapsto> from_pinned (TaskId 1) (Raw f2))\<rparr>))))
    = Ready (Inl Cancelled)"
    by (intro jh_poll_discarded [OF assms(1)]) (simp_all add: task_new_def)
  then show ?thesis using s2 i
    by (simp add: cpu_insert_def Let_def join_handle_new_def)
qed

theorem submitted_task_replaces_spawned_witness:
  "fst (jh_poll view_channel DummyWaker (fst (cpu_spawn demo_env 11 (snd (cpu_spawn demo_env 10 (demo_cpu [])))))
     (c_results (handle_message demo_env (SubmitTask (fst (generate_global_task_id GLOBAL_TASK_ID_COUNTER_init)) 12)
       (snd (cpu_spawn demo_env 11 (snd (cpu_spawn demo_env 10 (demo_cpu [])))))))) = Ready (Inl Cancelled)"
proof -
  have "channel (c_chan demo_env) (\<lambda>v. v)" using view_channel.channel_axioms by simp
  from submitted_task_replaces_spawned [OF this prod.collapse [symmetric] prod.collapse [symmetric]
      prod.collapse [symmetric], where ?f0.0 = 10 and ?f1.0 = 11 and ?f2.0 = 12 and b = "()" and k = 0
      and w = demo_world and wk = DummyWaker
      and rx = "\<lparr>queued = [], chan_cap = 1000, senders = 1, receivers = 1\<rparr>"]
  show ?thesis unfolding demo_cpu_def list_cpu_sel by blast
qed

text \<open>Shutdown stops a CPU.  If a \<open>Shutdown\<close> message is in its channel when a round of \<open>run\<close>
  begins, and no task of that round panics or loops, then \<open>run\<close> returns at the end of the round
  and the thread-local I/O state is cleared.\<close>

theorem shutdown_stops_cpu:
  assumes "channel (c_msgs E) mview" "Shutdown \<in> set (queued (mview (message_receiver s)))"
    and "length (queued (mview (message_receiver s))) < inner" "running s"
    and "cpu_tick E inner s = Some (Inr p, s1)" "cpu_wait E inner (cpu_interfere E (ext k) s1) = Some s2"
  shows "\<exists>s'. cpu_run_loop E ext inner k 2 s = Some (Inr (), s') \<and> cur_io (c_world s') = None"
proof -
  have env: "cpu_messages E mview" using assms(1) by (rule cpu_messages.intro)
  obtain rx where pm: "process_messages E inner s
      = Some ((fold (handle_message E) (queued (mview (message_receiver s))) s)\<lparr>message_receiver := rx\<rparr>)"
    using cpu_messages.process_messages_eq [OF env assms(3)] by blast
  have "\<not> running s1"
    using cpu_tick_running [OF assms(5) pm] assms(2) by (simp add: handle_messages_running)
  then have "\<not> running s2"
    using cpu_wait_stopped [OF assms(6)] by (simp add: cpu_interfere_def)
  then show ?thesis
    using assms(4-6) by (simp add: numeral_2_eq_2 clear_current_io_state_def)
qed

theorem shutdown_stops_cpu_witness:
  "\<exists>s'. cpu_run_loop demo_env (\<lambda>_. ([], [])) 5 0 2 (demo_cpu [Ping 1, Shutdown]) = Some (Inr (), s')
    \<and> cur_io (c_world s') = None"
proof -
  let ?s = "demo_cpu [Ping 1, Shutdown]"
  have "process_messages demo_env 5 ?s = Some (?s\<lparr>message_receiver := (message_receiver ?s)\<lparr>queued := []\<rparr>, running := False\<rparr>)"
    by (simp add: demo_cpu_def cpu_new_def eval_nat_numeral view_channel_def view_try_recv_def)
  moreover have "expire 1 (wheel_default 0 :: waker timer_wheel) [] = Inr (wheel_default 0, [])"
    by (simp add: expire_def wheel_default_def wheel_new_def slot_offset_def as_millis_def saturating_duration_since_def)
      (subst expire_loop.simps, simp)
  ultimately obtain s1 where tick: "cpu_tick demo_env 5 ?s = Some (Inr False, s1)"
    "cpu_ready s1 = []" "message_receiver s1 = \<lparr>queued = [], chan_cap = 1000, senders = 1, receivers = 1\<rparr>"
    by (simp add: cpu_tick_def cpu_expire_timers_def demo_cpu_def cpu_new_def cpu_wake_def eval_nat_numeral list_queue_def
       cpu_poll_io_completions_def poll_io_completions_def DummyIoBackend_def dummy_poll_complete_def demo_world_def)
  have "cpu_wait demo_env 5 (cpu_interfere demo_env ([], []) s1) = Some s1"
    using tick by (simp add: cpu_wait_def cpu_interfere_def cpu_wake_def list_queue_def view_channel_def view_try_recv_def)
  with tick shutdown_stops_cpu [of demo_env "\<lambda>v. v" ?s 5 False s1 "\<lambda>_. ([], [])" 0 s1]
    view_channel.channel_axioms show ?thesis by (simp add: demo_cpu_def cpu_new_def)
qed

text \<open>Cancelling a spawned task by message takes effect at once: the task is dropped unpolled,
  its join handle yields \<open>Cancelled\<close>, and no later processing of the run queue brings the task
  back.\<close>

theorem cancel_message_drops_task:
  assumes "channel (c_chan E) view" "task_queue s i = Some t" "t_future t = Wrapped f r"
    and "chan_open view (c_results s) r"
  shows "fst (jh_poll (c_chan E) wk (join_handle_new i r) (c_results (handle_message E (CancelTask i) s)))
      = Ready (Inl Cancelled)
    \<and> task_queue (handle_message E (CancelTask i) s) i = None
    \<and> (\<forall>fuel b res s'. cpu_run_tasks E fuel (handle_message E (CancelTask i) s) b = Some (res, s')
        \<longrightarrow> task_queue s' i = None)"
proof -
  let ?s = "s\<lparr>cancelled_tasks := insert i (cancelled_tasks s), task_queue := (task_queue s)(i := None)\<rparr>"
  have eq: "handle_message E (CancelTask i) s = cpu_discard E (Some t) ?s"
    using assms(2) by (simp add: cpu_remove_def)
  have "fst (jh_poll (c_chan E) wk (join_handle_new i r) (c_results (cpu_discard E (Some t) ?s)))
      = Ready (Inl Cancelled)"
    using assms(4) by (intro jh_poll_discarded [OF assms(1) _ assms(3)]) simp
  moreover have gone: "task_queue (cpu_discard E (Some t) ?s) i = None" by simp
  ultimately show ?thesis unfolding eq using cpu_run_tasks_absent [OF gone] by blast
qed

theorem cancel_message_drops_task_witness:
  "fst (jh_poll view_channel DummyWaker (join_handle_new (TaskId 0) 0)
     (c_results (handle_message demo_env (CancelTask (TaskId 0)) (snd (cpu_spawn demo_env 10 (demo_cpu []))))))
   = Ready (Inl Cancelled)"
proof -
  let ?s = "snd (cpu_spawn demo_env 10 (demo_cpu []))"
  have "channel (c_chan demo_env) (\<lambda>v. v)" using view_channel.channel_axioms by simp
  moreover have "task_queue ?s (TaskId 0) = Some (task_new (TaskId 0) (Wrapped 10 0))"
    "c_results ?s = \<lparr>cells = [0 \<mapsto> view_bounded 1], next_cell = 1\<rparr>"
    by (simp_all add: cpu_spawn_def demo_cpu_def cpu_new_def cpu_next_task_id_def fetch_add_def
        store_alloc_def store_empty_def cpu_insert_def cpu_discard_def view_channel_def)
  ultimately have "fst (jh_poll (c_chan demo_env) DummyWaker (join_handle_new (TaskId 0) 0)
     (c_results (handle_message demo_env (CancelTask (TaskId 0)) ?s))) = Ready (Inl Cancelled)"
    using cancel_message_drops_task [of demo_env "\<lambda>v. v" ?s "TaskId 0"]
    by (simp add: task_new_def chan_open_def view_bounded_def del: handle_message.simps)
  then show ?thesis by simp
qed

end
