(* ===== verification/Signal.thy ===== *)
theory Signal
  imports Cpu
begin

text \<open>
  The signal handler of \<open>src/signal.rs\<close>: the handler with its flag, senders and callbacks, and the
  thread that \<open>start\<close> spawns.

  The channels of the CPUs are a list; a \<open>Sender\<close>, and every clone of it, is the index of its
  channel.  The iterator of \<open>signal-hook\<close> is an argument: the list of signals that it yields while
  the thread is observed.  A send to a full channel blocks the thread; the outcome then names the
  channels that are still to be served.
\<close>

section \<open>The handler\<close>

type_synonym signal = int

definition SIGHUP :: signal where
  "SIGHUP = 1"

definition SIGINT :: signal where
  "SIGINT = 2"

definition SIGTERM :: signal where
  "SIGTERM = 15"

record 'cb signal_handler =
  cpu_senders :: "nat list option"
  callbacks :: "signal \<rightharpoonup> 'cb list"

text \<open>The flag is shared with the creator of the handler and is part of the state below.\<close>

definition signal_handler_new :: "'cb signal_handler" where
  "signal_handler_new = \<lparr>cpu_senders = None, callbacks = Map.empty\<rparr>"

definition with_cpu_handles :: "nat list \<Rightarrow> 'cb signal_handler" where
  "with_cpu_handles handles = \<lparr>cpu_senders = Some handles, callbacks = Map.empty\<rparr>"

definition register_callback :: "signal \<Rightarrow> 'cb \<Rightarrow> 'cb signal_handler \<Rightarrow> 'cb signal_handler" where
  "register_callback sig cb h =
    h\<lparr>callbacks := (callbacks h)(sig \<mapsto> (case callbacks h sig of None \<Rightarrow> [] | Some cbs \<Rightarrow> cbs) @ [cb])\<rparr>"

section \<open>The thread\<close>

text \<open>What the thread shares with the program: the flag and the channels.\<close>

record 'm signal_state =
  sg_shutdown :: bool
  sg_chans :: "'m list"

datatype signal_outcome = Listening | Sending "nat list" | ProcessExit int | SignalPanic panic

primrec broadcast_shutdown :: "('m, 'f cross_cpu_message) chan_ops \<Rightarrow> nat list \<Rightarrow> 'm list
   \<Rightarrow> nat list \<times> 'm list" where
  "broadcast_shutdown M [] chans = ([], chans)"
| "broadcast_shutdown M (i # hs) chans =
    (case ch_send M (chans ! i) Shutdown of
       (SendBlocked, _) \<Rightarrow> (i # hs, chans)
     | (_, c) \<Rightarrow> broadcast_shutdown M hs (chans[i := c]))"

definition on_signal :: "('m, 'f cross_cpu_message) chan_ops \<Rightarrow> 'cb signal_handler \<Rightarrow> signal
   \<Rightarrow> 'm signal_state \<Rightarrow> signal_outcome \<times> 'm signal_state" where
  "on_signal M h sig s =
    (if sig \<in> {SIGINT, SIGTERM, SIGHUP} then
       (if \<not> sg_shutdown s then
          (let s1 = s\<lparr>sg_shutdown := True\<rparr> in
           case cpu_senders h of
             Some handles \<Rightarrow>
               (let (rest, chans) = broadcast_shutdown M handles (sg_chans s1)
                in (if rest = [] then Listening else Sending rest, s1\<lparr>sg_chans := chans\<rparr>))
           | None \<Rightarrow> (Listening, s1))
        else (ProcessExit 1, s))
     else (SignalPanic (ExpectFailed ''internal error: entered unreachable code''), s))"

text \<open>The loop over the signals.  \<open>set_up\<close> is whether \<open>Signals::new\<close> succeeds.\<close>

primrec listen :: "('m, 'f cross_cpu_message) chan_ops \<Rightarrow> 'cb signal_handler \<Rightarrow> signal list
   \<Rightarrow> 'm signal_state \<Rightarrow> signal_outcome \<times> 'm signal_state" where
  "listen M h [] s = (Listening, s)"
| "listen M h (sig # sigs) s =
    (case on_signal M h sig s of
       (Listening, s') \<Rightarrow> listen M h sigs s'
     | (out, s') \<Rightarrow> (out, s'))"

definition signal_start :: "('m, 'f cross_cpu_message) chan_ops \<Rightarrow> bool \<Rightarrow> 'cb signal_handler \<Rightarrow> signal list
   \<Rightarrow> 'm signal_state \<Rightarrow> signal_outcome \<times> 'm signal_state" where
  "signal_start M set_up h sigs s =
    (if set_up then listen M h sigs s
     else (SignalPanic (ExpectFailed ''Failed to setup signal handler''), s))"

section \<open>Broadcasting\<close>

text \<open>The channels that take a message: connected and not full.\<close>

definition has_room :: "'a chan_view \<Rightarrow> bool" where
  "has_room v \<longleftrightarrow> receivers v \<noteq> 0 \<and> length (queued v) < chan_cap v"

context channel
begin

lemma send_with_room:
  assumes "has_room (view c)"
  obtains c' where "ch_send C c x = (SendOk, c')" "view c' = (view c)\<lparr>queued := queued (view c) @ [x]\<rparr>"
  using assms fst_send [of c x] view_snd_send [of c x]
  by (cases "ch_send C c x") (auto simp: has_room_def view_send_def)

end

lemma broadcast_reaches_all:
  assumes "channel M view" "distinct hs" "\<forall>i \<in> set hs. i < length chans \<and> has_room (view (chans ! i))"
  shows "\<exists>chans'. broadcast_shutdown M hs chans = ([], chans') \<and> length chans' = length chans
    \<and> (\<forall>j < length chans. view (chans' ! j) = (if j \<in> set hs
        then (view (chans ! j))\<lparr>queued := queued (view (chans ! j)) @ [Shutdown]\<rparr> else view (chans ! j)))"
  using assms(2,3)
proof (induction hs arbitrary: chans)
  case (Cons i hs)
  obtain c where c: "ch_send M (chans ! i) Shutdown = (SendOk, c)"
    "view c = (view (chans ! i))\<lparr>queued := queued (view (chans ! i)) @ [Shutdown]\<rparr>"
    using Cons.prems(2) by (auto intro: channel.send_with_room [OF assms(1)])
  have "\<forall>j \<in> set hs. j < length (chans[i := c]) \<and> has_room (view (chans[i := c] ! j))"
    using Cons.prems by (metis distinct.simps(2) length_list_update list.set_intros(2) nth_list_update_neq)
  from Cons.IH [OF _ this] Cons.prems(1) obtain chans' where
    IH: "broadcast_shutdown M hs (chans[i := c]) = ([], chans')" "length chans' = length chans"
    "\<And>j. j < length chans \<Longrightarrow> view (chans' ! j) = (if j \<in> set hs
        then (view (chans[i := c] ! j))\<lparr>queued := queued (view (chans[i := c] ! j)) @ [Shutdown]\<rparr>
        else view (chans[i := c] ! j))"
    by auto
  have "view (chans' ! j) = (if j \<in> set (i # hs)
        then (view (chans ! j))\<lparr>queued := queued (view (chans ! j)) @ [Shutdown]\<rparr> else view (chans ! j))"
    if "j < length chans" for j
    using IH(3) [OF that] Cons.prems(1) that c(2) by (cases "j = i") auto
  then show ?case using c(1) IH(1,2) by simp
qed simp

text \<open>The callbacks are never consulted.\<close>

lemma listen_ignores_callbacks:
  "listen M (register_callback sig cb h) sigs s = listen M h sigs s"
proof -
  have "on_signal M (register_callback sig cb h) = on_signal M h"
    by (intro ext) (simp add: on_signal_def register_callback_def)
  then show ?thesis by (induction sigs arbitrary: s) (simp_all split: prod.split signal_outcome.split)
qed

section \<open>Properties\<close>

text \<open>C38. The first signal asks every CPU to stop, once, and the second ends the process.  When the
  flag is unset and the channels of the CPUs are connected and not full, the first of SIGINT,
  SIGTERM and SIGHUP sets the flag and appends exactly one \<open>Shutdown\<close> to the channel of every
  registered CPU and to no other; a second signal then exits with status 1 and sends nothing.\<close>

theorem signals_shut_down:
  assumes "channel M view" "cpu_senders h = Some hs" "distinct hs"
    and "\<forall>i \<in> set hs. i < length (sg_chans s) \<and> has_room (view (sg_chans s ! i))"
    and "\<not> sg_shutdown s" "sig1 \<in> {SIGINT, SIGTERM, SIGHUP}" "sig2 \<in> {SIGINT, SIGTERM, SIGHUP}"
  shows "\<exists>s'. listen M h [sig1] s = (Listening, s') \<and> sg_shutdown s'
    \<and> (\<forall>j < length (sg_chans s). queued (view (sg_chans s' ! j))
        = queued (view (sg_chans s ! j)) @ (if j \<in> set hs then [Shutdown] else []))
    \<and> listen M h (sig1 # sig2 # sigs) s = (ProcessExit 1, s')"
proof -
  obtain chans where b: "broadcast_shutdown M hs (sg_chans s) = ([], chans)"
    "\<forall>j < length (sg_chans s). view (chans ! j) = (if j \<in> set hs
        then (view (sg_chans s ! j))\<lparr>queued := queued (view (sg_chans s ! j)) @ [Shutdown]\<rparr>
        else view (sg_chans s ! j))"
    using broadcast_reaches_all [OF assms(1,3,4)] by blast
  have "on_signal M h sig1 s = (Listening, s\<lparr>sg_shutdown := True, sg_chans := chans\<rparr>)"
    using assms(2,5,6) b(1) by (simp add: on_signal_def)
  moreover have "on_signal M h sig2 (s\<lparr>sg_shutdown := True, sg_chans := chans\<rparr>)
      = (ProcessExit 1, s\<lparr>sg_shutdown := True, sg_chans := chans\<rparr>)"
    using assms(7) by (simp add: on_signal_def)
  ultimately show ?thesis using b(2) by simp
qed

theorem signals_shut_down_witness:
  "\<exists>s'. listen view_channel (with_cpu_handles [0, 1] :: nat signal_handler) [SIGTERM]
      \<lparr>sg_shutdown = False, sg_chans = [view_bounded 3, view_bounded 3]\<rparr> = (Listening, s')
    \<and> queued (sg_chans s' ! 1 :: nat cross_cpu_message chan_view) = [Shutdown]"
  using signals_shut_down [OF view_channel.channel_axioms, of "with_cpu_handles [0, 1] :: nat signal_handler"
      "[0, 1]" "\<lparr>sg_shutdown = False, sg_chans = [view_bounded 3, view_bounded 3 :: nat cross_cpu_message chan_view]\<rparr>"
      SIGTERM SIGINT "[]"]
  by (auto simp: with_cpu_handles_def has_room_def view_bounded_def)

text \<open>C39. A signal stops the CPUs.  Take a registered CPU and the channels as the handler leaves them
  after the first signal.  When the CPU next processes its messages, which takes no more steps than
  there are messages, it is no longer running.\<close>

theorem signal_stops_cpu:
  assumes "channel (c_msgs E) view" "cpu_senders h = Some hs" "distinct hs"
    and "\<forall>i \<in> set hs. i < length (sg_chans s) \<and> has_room (view (sg_chans s ! i))"
    and "\<not> sg_shutdown s" "sig \<in> {SIGINT, SIGTERM, SIGHUP}" "j \<in> set hs"
    and "message_receiver c = sg_chans (snd (listen (c_msgs E) h [sig] s)) ! j"
    and "length (queued (view (sg_chans s ! j))) + 1 < inner"
  shows "\<exists>c'. process_messages E inner c = Some c' \<and> \<not> running c'"
proof -
  obtain chans where "broadcast_shutdown (c_msgs E) hs (sg_chans s) = ([], chans)"
    "view (chans ! j) = (view (sg_chans s ! j))\<lparr>queued := queued (view (sg_chans s ! j)) @ [Shutdown]\<rparr>"
    using broadcast_reaches_all [OF assms(1,3,4)] assms(4,7) by (metis (no_types, lifting))
  then have q: "queued (view (message_receiver c)) = queued (view (sg_chans s ! j)) @ [Shutdown]"
    using assms(2,5,6,8) by (simp add: on_signal_def)
  have "cpu_messages E view" using assms(1) by (rule cpu_messages.intro)
  from cpu_messages.process_messages_eq [OF this, of c inner] obtain rx where
    "process_messages E inner c
      = Some ((fold (handle_message E) (queued (view (message_receiver c))) c)\<lparr>message_receiver := rx\<rparr>)"
    using q assms(9) by auto
  then show ?thesis using q by (simp add: handle_messages_running)
qed

theorem signal_stops_cpu_witness:
  "\<exists>c'. process_messages demo_env 5 (demo_cpu [Ping 1, Shutdown]) = Some c' \<and> \<not> running c'"
proof (rule signal_stops_cpu [where view = "\<lambda>v. v" and h = "with_cpu_handles [0] :: nat signal_handler"
    and hs = "[0]" and sig = SIGHUP and j = 0
    and s = "\<lparr>sg_shutdown = False, sg_chans = [\<lparr>queued = [Ping 1], chan_cap = 1000, senders = 1, receivers = 1\<rparr>]\<rparr>"])
  show "channel (c_msgs demo_env) (\<lambda>v. v)" using view_channel.channel_axioms by simp
qed (simp_all add: with_cpu_handles_def has_room_def on_signal_def demo_cpu_def cpu_new_def
    view_channel_def view_send_def)

end
