(* ===== verification/Block_On.thy ===== *)
theory Block_On
  imports Io
begin

text \<open>
  \<open>Runtime::block_on\<close> and \<open>Executor::block_on\<close> of \<open>src/executor.rs\<close>, \<open>block_on\<close> of
  \<open>src/lib.rs\<close>, and the shape that all asynchronous I/O methods of \<open>src/net.rs\<close> and
  \<open>src/fs.rs\<close> share: submit an operation, await its \<open>IoFuture\<close>, convert the result.

  The order in which \<open>Runtime::block_on\<close> clears the thread-local I/O state and drops its future
  matters, because \<open>IoFuture::drop\<close> panics without that state; so the futures of this theory
  have a drop that may panic.  Parking only delays a loop that polls again anyway, and the
  waker of \<open>block_on\<close> only cuts the parking short, so it is \<open>DummyWaker\<close>.
\<close>

record ('f, 'v, 'w) boxed_future =
  bf_poll :: "waker \<Rightarrow> 'f \<Rightarrow> 'w \<Rightarrow> (panic + 'v poll) \<times> 'f \<times> 'w"
  bf_drop :: "'f \<Rightarrow> 'w \<Rightarrow> 'w may_panic"

section \<open>Runtime::block\_on\<close>

text \<open>\<open>None\<close> is a call that has not returned within the fuel, or an abort because the drop
  panicked while a panic was unwinding.\<close>

primrec block_on_loop ::
  "'b io_ops \<Rightarrow> ('f, 'v, ('b, 'w) io_world) boxed_future \<Rightarrow> nat \<Rightarrow> nat \<Rightarrow> 'f \<Rightarrow> ('b, 'w) io_world
   \<Rightarrow> ('v may_panic \<times> ('b, 'w) io_world) option" where
  "block_on_loop B F i 0 f w = None"
| "block_on_loop B F i (Suc fuel) f w =
    (case bf_poll F DummyWaker f w of
       (Inl e, f', w') \<Rightarrow>
         (case bf_drop F f' w' of
            Inl _ \<Rightarrow> None
          | Inr w'' \<Rightarrow> Some (Inl e, w''))
     | (Inr (Ready output), f', w') \<Rightarrow>
         (let w1 = clear_current_io_state w' in
          case bf_drop F f' w1 of
            Inl e \<Rightarrow> Some (Inl e, w1)
          | Inr w2 \<Rightarrow> Some (Inr output, w2))
     | (Inr Pending, f', w') \<Rightarrow>
         (let (_, st, _) = poll_io_completions B (io_states w' ! i) in
          block_on_loop B F i fuel f' (io_update i (\<lambda>_. st) w')))"

text \<open>\<open>new\<close> is the result of creating the backend that the build selected: the text of the error,
  or the backend.\<close>

definition runtime_block_on ::
  "'b io_ops \<Rightarrow> string + 'b \<Rightarrow> ('f, 'v, ('b, 'w) io_world) boxed_future \<Rightarrow> nat \<Rightarrow> 'f \<Rightarrow> ('b, 'w) io_world
   \<Rightarrow> ('v may_panic \<times> ('b, 'w) io_world) option" where
  "runtime_block_on B new F fuel f w =
    (case new of
       Inl e \<Rightarrow> Some (Inl (ExpectFailed (''IO backend initialization failed: '' @ e)), w)
     | Inr b \<Rightarrow>
         (let i = length (io_states w);
              w1 = w\<lparr>io_states := io_states w @ [io_state_new b]\<rparr>
          in block_on_loop B F i fuel f (set_current_io_state i w1)))"

section \<open>Runtime::spawn\<close>

text \<open>The single-threaded runtime: an executor behind a mutex, and a flag for signal handlers.\<close>

record ('f, 'q, 'c, 'w) runtime =
  rt_executor :: "('f, 'q, 'c, 'w) exec_state"
  shutdown_flag :: bool

definition single_runtime_new :: "('f, 'v, 'w, 'q, 'c) exec_env \<Rightarrow> 'c chan_store \<Rightarrow> 'w
    \<Rightarrow> ('f, 'q, 'c, 'w) runtime" where
  "single_runtime_new E st w = \<lparr>rt_executor = executor_new E st w, shutdown_flag = False\<rparr>"

definition single_runtime_spawn :: "('f, 'v, 'w, 'q, 'c) exec_env \<Rightarrow> 'f \<Rightarrow> ('f, 'q, 'c, 'w) runtime
    \<Rightarrow> join_handle \<times> ('f, 'q, 'c, 'w) runtime" where
  "single_runtime_spawn E f rt =
    (let (h, s) = exec_spawn E f (rt_executor rt) in (h, rt\<lparr>rt_executor := s\<rparr>))"

text \<open>\<open>block_on\<close> of \<open>lib.rs\<close>: a runtime of its own for one future.\<close>

definition lib_block_on ::
  "('g, 'u, 'w, 'q, 'c) exec_env \<Rightarrow> 'c chan_store \<Rightarrow> 'w
   \<Rightarrow> 'b io_ops \<Rightarrow> string + 'b \<Rightarrow> ('f, 'v, ('b, 'x) io_world) boxed_future \<Rightarrow> nat \<Rightarrow> 'f \<Rightarrow> ('b, 'x) io_world
   \<Rightarrow> ('v may_panic \<times> ('b, 'x) io_world) option" where
  "lib_block_on E st g B new F fuel f w =
    (let _ = single_runtime_new E st g in runtime_block_on B new F fuel f w)"

text \<open>A \<open>JoinHandle\<close> as the future of a \<open>block_on\<close>; the channels are the rest of the world.\<close>

definition join_future :: "('c, 'v task_result) chan_ops
    \<Rightarrow> (join_handle, 'v task_result, ('b, 'c chan_store) io_world) boxed_future" where
  "join_future C = \<lparr>
     bf_poll = (\<lambda>wk h w. let (p, h', st) = jh_poll C wk h (io_rest w) in (Inr p, h', w\<lparr>io_rest := st\<rparr>)),
     bf_drop = (\<lambda>h w. Inr (w\<lparr>io_rest := store_update (jh_receiver h) (ch_drop_rx C) (io_rest w)\<rparr>))\<rparr>"

section \<open>Executor::block\_on\<close>

text \<open>Here the thread parks until it is unparked: by the waker during the poll, or by another
  thread (or spuriously) in round \<open>k\<close>, which \<open>ext k\<close> tells.  Otherwise the call hangs.\<close>

primrec executor_block_on ::
  "('f, 'v, 'w) future_ops \<Rightarrow> (nat \<Rightarrow> bool) \<Rightarrow> nat \<Rightarrow> nat \<Rightarrow> 'f \<Rightarrow> 'w \<Rightarrow> (nat + 'v) option" where
  "executor_block_on F ext k 0 f w = None"
| "executor_block_on F ext k (Suc fuel) f w =
    (case fo_poll F (TaskWaker (TaskId 0)) f w of
       (Inl p, f', w', ws) \<Rightarrow> Some (Inl p)
     | (Inr (Ready output), f', w', ws) \<Rightarrow> Some (Inr output)
     | (Inr Pending, f', w', ws) \<Rightarrow>
         if TaskWaker (TaskId 0) \<in> set ws \<or> ext k
         then executor_block_on F ext (Suc k) fuel f' w' else None)"

section \<open>Asynchronous I/O methods\<close>

text \<open>Not started, awaiting the future of the submitted operation, over.\<close>

datatype method_state = Submit op | Await io_token | Over

definition method_await ::
  "waker \<Rightarrow> io_token \<Rightarrow> ('b, 'w) io_world
   \<Rightarrow> (panic + io_result poll) \<times> method_state \<times> ('b, 'w) io_world" where
  "method_await wk token w =
    (case io_future_poll wk token w of
       (Inl e, w1) \<Rightarrow> (Inl e, Await token, w1)
     | (Inr Pending, w1) \<Rightarrow> (Inr Pending, Await token, w1)
     | (Inr (Ready r), w1) \<Rightarrow>
         (case io_future_drop token w1 of
            Inl e \<Rightarrow> (Inl e, Over, w1)
          | Inr w2 \<Rightarrow> (Inr (Ready r), Over, w2)))"

fun method_poll ::
  "'b io_ops \<Rightarrow> waker \<Rightarrow> method_state \<Rightarrow> ('b, 'w) io_world
   \<Rightarrow> (panic + io_result poll) \<times> method_state \<times> ('b, 'w) io_world" where
  "method_poll B wk (Submit op) w =
    (case io_state w of
       Inl e \<Rightarrow> (Inl e, Over, w)
     | Inr i \<Rightarrow>
         (let (token, c, b) = io_submit B op (token_counter w) (io_backend (io_states w ! i));
              w1 = io_update i (\<lambda>s. s\<lparr>io_backend := b\<rparr>) (w\<lparr>token_counter := c\<rparr>)
          in method_await wk token w1))"
| "method_poll B wk (Await token) w = method_await wk token w"
| "method_poll B wk Over w = (Inl (UserPanic resumed_after_completion), Over, w)"

fun method_drop :: "method_state \<Rightarrow> ('b, 'w) io_world \<Rightarrow> ('b, 'w) io_world may_panic" where
  "method_drop (Await token) w = io_future_drop token w"
| "method_drop _ w = Inr w"

definition method_future :: "'b io_ops \<Rightarrow> (method_state, io_result, ('b, 'w) io_world) boxed_future" where
  "method_future B = \<lparr>bf_poll = method_poll B, bf_drop = method_drop\<rparr>"

text \<open>An \<open>IoFuture\<close> on its own.\<close>

definition io_future :: "(io_token, io_result, ('b, 'w) io_world) boxed_future" where
  "io_future = \<lparr>bf_poll = (\<lambda>wk token w. case io_future_poll wk token w of (p, w') \<Rightarrow> (p, token, w')),
     bf_drop = io_future_drop\<rparr>"

section \<open>Lemmas\<close>

text \<open>The backend completes the operation with result \<open>r\<close> at its poll number \<open>k\<close>.\<close>

primrec completes_after :: "'b io_ops \<Rightarrow> nat \<Rightarrow> 'b \<Rightarrow> io_token \<Rightarrow> io_result \<Rightarrow> bool" where
  "completes_after B 0 b token r \<longleftrightarrow>
    (case io_poll_complete B b of
       (Ready cs, b') \<Rightarrow> distinct (map fst cs) \<and> (\<exists>c \<in> set cs. fst c = token \<and> snd (snd c) = r)
     | (Pending, b') \<Rightarrow> False)"
| "completes_after B (Suc k) b token r \<longleftrightarrow>
    (case io_poll_complete B b of
       (Ready cs, b') \<Rightarrow> distinct (map fst cs) \<and> token \<notin> fst ` set cs \<and> completes_after B k b' token r
     | (Pending, b') \<Rightarrow> completes_after B k b' token r)"

lemma reap_completes_now:
  assumes "completes_after B 0 (io_backend s) token r"
  shows "completed_io (fst (snd (poll_io_completions B s))) token = Some r"
proof -
  obtain cs b op where cs: "io_poll_complete B (io_backend s) = (Ready cs, b)" "distinct (map fst cs)"
    "(token, op, r) \<in> set cs"
    using assms by (auto split: prod.splits poll.splits)
  obtain st ws where "process_completions cs (s\<lparr>io_backend := b\<rparr>) = (st, ws)" by fastforce
  with process_completions_eq [OF cs(2) this] cs show ?thesis
    by (auto simp: poll_io_completions_def)
qed

lemma reap_completes_later:
  assumes "completes_after B (Suc k) (io_backend s) token r" "completed_io s token = None"
  shows "completed_io (fst (snd (poll_io_completions B s))) token = None
    \<and> completes_after B k (io_backend (fst (snd (poll_io_completions B s)))) token r"
proof -
  obtain p b where p: "io_poll_complete B (io_backend s) = (p, b)" by fastforce
  show ?thesis
  proof (cases "\<exists>cs. p = Ready cs \<and> cs \<noteq> []")
    case True
    then obtain cs where cs: "p = Ready cs" "cs \<noteq> []" by blast
    obtain st ws where proc: "process_completions cs (s\<lparr>io_backend := b\<rparr>) = (st, ws)" by fastforce
    have dist: "distinct (map fst cs)" "token \<notin> set (map fst cs)" "completes_after B k b token r"
      using assms(1) p cs by auto
    with process_completions_eq [OF dist(1) proc] p cs proc assms(2) show ?thesis
      by (simp add: poll_io_completions_def)
  next
    case False
    with assms p show ?thesis by (auto simp: poll_io_completions_def split: poll.splits)
  qed
qed

lemma io_update_simps [simp]:
  "cur_io (io_update i f w) = cur_io w" "length (io_states (io_update i f w)) = length (io_states w)"
  "i < length (io_states w) \<Longrightarrow> io_states (io_update i f w) ! i = f (io_states w ! i)"
  by (simp_all add: io_update_def)

text \<open>A future that is pending while its token has no result makes the loop reap until the
  result is there.\<close>

lemma loop_until_completed:
  assumes poll: "\<And>w. cur_io w = Some i \<Longrightarrow> completed_io (io_states w ! i) token = None \<Longrightarrow>
      bf_poll F DummyWaker f w = (Inr Pending, f, io_update i (\<lambda>s. snd (io_take token DummyWaker s)) w)"
    and "cur_io w = Some i" "i < length (io_states w)" "completed_io (io_states w ! i) token = None"
    and "completes_after B k (io_backend (io_states w ! i)) token r"
  shows "\<exists>n w'. (\<forall>m. block_on_loop B F i (n + m) f w = block_on_loop B F i m f w')
    \<and> cur_io w' = Some i \<and> i < length (io_states w') \<and> completed_io (io_states w' ! i) token = Some r"
  using assms(2-5)
proof (induction k arbitrary: w)
  case (0 w)
  let ?s = "snd (io_take token DummyWaker (io_states w ! i))"
  let ?w1 = "io_update i (\<lambda>s. snd (io_take token DummyWaker s)) w"
  let ?w2 = "io_update i (\<lambda>_. fst (snd (poll_io_completions B ?s))) ?w1"
  have s: "io_states ?w1 ! i = ?s" "io_backend ?s = io_backend (io_states w ! i)"
    using 0 by (simp_all add: io_take_def)
  have "\<forall>m. block_on_loop B F i (1 + m) f w = block_on_loop B F i m f ?w2"
    using poll [OF 0(1,3)] s(1) by (simp add: split_beta)
  moreover have "completed_io (fst (snd (poll_io_completions B ?s))) token = Some r"
    using reap_completes_now [of B ?s token r] 0(4) s(2) by simp
  ultimately show ?case
    using 0 by (intro exI [of _ 1] exI [of _ ?w2]) simp
next
  case (Suc k w)
  let ?s = "snd (io_take token DummyWaker (io_states w ! i))"
  let ?w1 = "io_update i (\<lambda>s. snd (io_take token DummyWaker s)) w"
  let ?w2 = "io_update i (\<lambda>_. fst (snd (poll_io_completions B ?s))) ?w1"
  have s: "io_states ?w1 ! i = ?s" "io_backend ?s = io_backend (io_states w ! i)" "completed_io ?s token = None"
    using Suc.prems by (simp_all add: io_take_def)
  have step: "\<forall>m. block_on_loop B F i (Suc m) f w = block_on_loop B F i m f ?w2"
    using poll [OF Suc.prems(1,3)] s(1) by (simp add: split_beta)
  have "completes_after B (Suc k) (io_backend ?s) token r" using Suc.prems(4) s(2) by (simp only:)
  from reap_completes_later [OF this s(3)]
  have "completed_io (io_states ?w2 ! i) token = None" "completes_after B k (io_backend (io_states ?w2 ! i)) token r"
    using Suc.prems(2) by simp_all
  from Suc.IH [OF _ _ this] Suc.prems(1,2) obtain n w' where
    n: "\<forall>m. block_on_loop B F i (n + m) f ?w2 = block_on_loop B F i m f w'"
    "cur_io w' = Some i" "i < length (io_states w')" "completed_io (io_states w' ! i) token = Some r"
    by auto
  have "block_on_loop B F i (Suc n + m) f w = block_on_loop B F i m f w'" for m
    using step n(1) by (simp del: block_on_loop.simps)
  with n(2-4) show ?case by blast
qed

lemma method_await_pending:
  "cur_io w = Some i \<Longrightarrow> completed_io (io_states w ! i) token = None \<Longrightarrow>
   method_await wk token w
     = (Inr Pending, Await token, io_update i (\<lambda>s. snd (io_take token wk s)) w)"
  by (simp add: method_await_def io_future_poll_def io_state_def io_take_def io_update_def)

lemma method_await_ready:
  assumes "cur_io w = Some i" "i < length (io_states w)" "completed_io (io_states w ! i) token = Some r"
  shows "\<exists>w'. method_await wk token w = (Inr (Ready r), Over, w') \<and> cur_io w' = Some i"
  using assms by (simp add: method_await_def io_future_poll_def io_future_drop_def io_state_def
      io_take_def)

lemma io_future_ready:
  assumes "cur_io w = Some i" "i < length (io_states w)" "completed_io (io_states w ! i) token = Some r"
  shows "\<exists>w'. bf_poll io_future wk token w = (Inr (Ready r), token, w')"
  using assms by (simp add: io_future_def io_future_poll_def io_state_def io_take_def)

section \<open>Properties\<close>

text \<open>\<open>Runtime::block_on\<close> completes asynchronous I/O: if the backend accepts the operation and
  completes it with result \<open>r\<close> after any number of polls, then blocking on a method of \<open>net\<close> or
  \<open>fs\<close> (submit, await, convert) returns exactly \<open>r\<close>, and the thread-local I/O state is cleared
  again.\<close>

theorem block_on_completes_io:
  assumes "io_submit B op (token_counter w) b = (token, c, b')" "completes_after B k b' token r"
  shows "\<exists>fuel w'. runtime_block_on B (Inr b) (method_future B) fuel (Submit op) w = Some (Inr r, w')
    \<and> cur_io w' = None"
proof -
  let ?i = "length (io_states w)"
  let ?w0 = "set_current_io_state ?i (w\<lparr>io_states := io_states w @ [io_state_new b]\<rparr>)"
  define w1 where "w1 = io_update ?i (\<lambda>s. s\<lparr>io_backend := b'\<rparr>) (?w0\<lparr>token_counter := c\<rparr>)"
  define w2 where "w2 = io_update ?i (\<lambda>s. snd (io_take token DummyWaker s)) w1"
  have w1: "cur_io w1 = Some ?i" "?i < length (io_states w1)" "completed_io (io_states w1 ! ?i) token = None"
    "io_backend (io_states w1 ! ?i) = b'"
    by (simp_all add: w1_def set_current_io_state_def io_state_new_def io_update_def)
  have "method_poll B DummyWaker (Submit op) ?w0 = method_await DummyWaker token w1"
    using assms(1) by (simp add: io_state_def set_current_io_state_def w1_def io_state_new_def Let_def)
  then have first: "block_on_loop B (method_future B) ?i (Suc m) (Submit op) ?w0
      = block_on_loop B (method_future B) ?i (Suc m) (Await token) w1" for m
    by (simp add: method_future_def)
  have "\<And>w. cur_io w = Some ?i \<Longrightarrow> completed_io (io_states w ! ?i) token = None \<Longrightarrow>
      bf_poll (method_future B) DummyWaker (Await token) w
        = (Inr Pending, Await token, io_update ?i (\<lambda>s. snd (io_take token DummyWaker s)) w)"
    using method_await_pending by (simp add: method_future_def)
  from loop_until_completed [OF this w1(1-3)] assms(2) w1(4) obtain n w' where
    n: "\<forall>m. block_on_loop B (method_future B) ?i (n + m) (Await token) w1
        = block_on_loop B (method_future B) ?i m (Await token) w'"
    "cur_io w' = Some ?i" "?i < length (io_states w')" "completed_io (io_states w' ! ?i) token = Some r"
    by blast
  obtain w'' where "method_await DummyWaker token w' = (Inr (Ready r), Over, w'')"
    using method_await_ready [OF n(2-4)] by blast
  then have "block_on_loop B (method_future B) ?i 1 (Await token) w' = Some (Inr r, clear_current_io_state w'')"
    by (simp add: method_future_def)
  then have "runtime_block_on B (Inr b) (method_future B) (Suc n) (Submit op) w
      = Some (Inr r, clear_current_io_state w'')"
    using first [of n] n(1) [rule_format, of 1] by (simp add: runtime_block_on_def del: block_on_loop.simps)
  moreover have "cur_io (clear_current_io_state w'') = None" by (simp add: clear_current_io_state_def)
  ultimately show ?thesis by blast
qed

theorem block_on_completes_io_witness:
  "\<exists>fuel w'. runtime_block_on queue_backend (Inr []) (method_future queue_backend) fuel (Submit (OpFsync 3))
      \<lparr>io_states = [], cur_io = None, token_counter = 7, io_rest = ()\<rparr> = Some (Inr (Inr CFsync), w')
    \<and> cur_io w' = None"
  by (rule block_on_completes_io [where token = "IoToken 7" and c = 8 and k = 0
        and b' = "[(IoToken 7, OpFsync 3)]"]) (simp_all add: queue_backend_def)



text \<open>\<open>Executor::block_on\<close> returns what the future computes, provided that the future calls
  its waker whenever it is pending, whatever other threads do.\<close>

theorem executor_block_on_drives:
  assumes "drive F (TaskWaker (TaskId 0)) n f w = Some res"
  shows "executor_block_on F ext k n f w = Some res"
  using assms
proof (induction n arbitrary: f w k)
  case (Suc n)
  then show ?case by (auto split: prod.splits sum.splits poll.splits if_splits)
qed simp

theorem executor_block_on_drives_witness:
  "executor_block_on countdown (\<lambda>_. False) 0 4 3 () = Some (Inr 7)"
  by (rule executor_block_on_drives) (simp add: countdown_def eval_nat_numeral)



lemma block_on_join_pending:
  assumes "channel C view" "chan_open view (io_rest w) (jh_receiver h)"
  shows "block_on_loop B (join_future C) i fuel h w = None"
  using assms(2)
proof (induction fuel arbitrary: h w)
  case (Suc fuel)
  have "result_channel C view" using assms(1) by (rule result_channel.intro)
  from result_channel.jh_poll_stays_open [OF this Suc.prems] obtain h' st where
    p: "jh_poll C DummyWaker h (io_rest w) = (Pending, h', st)" "jh_receiver h' = jh_receiver h"
      "chan_open view st (jh_receiver h)"
    by blast
  obtain a s ws where r: "poll_io_completions B (io_states w ! i) = (a, s, ws)" by (rule prod_cases3)
  from p Suc.IH [of "io_update i (\<lambda>_. s) (w\<lparr>io_rest := st\<rparr>)" h'] r show ?case
    by (simp add: join_future_def io_update_def)
qed simp

text \<open>C29. A task spawned on the single-threaded \<open>Runtime\<close> is never run.  \<open>Runtime::spawn\<close> puts it
  into the executor of the runtime, but nothing in \<open>Runtime\<close> ticks that executor, and \<open>block_on\<close>
  only polls its own future; so awaiting the join handle inside \<open>block_on\<close> never returns.\<close>

theorem runtime_spawn_never_completes:
  assumes "seg_queue (run_ops E) items" "channel (chan E) view" "exec_wf view (rt_executor rt)"
    and "single_runtime_spawn E f rt = (h, rt')" "io_rest w = results (rt_executor rt')"
  shows "runtime_block_on B (Inr b) (join_future (chan E)) fuel h w = None"
proof -
  have env: "executor_env E items view" using assms(1,2) by (rule executor_env.intro)
  have spawn: "exec_spawn E f (rt_executor rt) = (h, rt_executor rt')"
    using assms(4) by (auto simp: single_runtime_spawn_def split: prod.splits)
  note eff = executor_env.exec_spawn_effect [OF env assms(3) spawn]
  have "chan_open view (results (rt_executor rt')) (jh_receiver h)"
    using eff channel.view_ch_bounded [OF assms(2)]
    by (simp add: chan_open_def join_handle_new_def view_bounded_def)
  with assms(2,5) show ?thesis
    by (simp add: runtime_block_on_def Let_def set_current_io_state_def block_on_join_pending)
qed

theorem runtime_spawn_never_completes_witness:
  "runtime_block_on DummyIoBackend (Inr ()) (join_future view_channel) 1000
     (fst (single_runtime_spawn (list_env countdown) 3 (single_runtime_new (list_env countdown) store_empty ())))
     \<lparr>io_states = [], cur_io = None, token_counter = TOKEN_COUNTER_init, io_rest = results (rt_executor
       (snd (single_runtime_spawn (list_env countdown) 3 (single_runtime_new (list_env countdown) store_empty ()))))\<rparr>
   = None"
proof -
  have "exec_wf (\<lambda>v. v) (rt_executor (single_runtime_new (list_env countdown) store_empty ()))"
    by (simp add: exec_wf_def single_runtime_new_def executor_new_def store_wf_empty)
  moreover have "seg_queue (run_ops (list_env countdown)) (\<lambda>q. q)" "channel (chan (list_env countdown)) (\<lambda>v. v)"
    "chan (list_env countdown) = view_channel"
    by (simp_all add: list_env_def list_queue.seg_queue_axioms view_channel.channel_axioms)
  moreover have "io_rest \<lparr>io_states = [], cur_io = None, token_counter = c, io_rest = st\<rparr> = st" for c st
    by simp
  ultimately show ?thesis
    by (metis runtime_spawn_never_completes prod.collapse)
qed

end
