(* ===== verification/Multicore.thy ===== *)
theory Multicore
  imports Block_On Timer
begin

text \<open>
  The thread-per-core runtime of \<open>src/multicore.rs\<close>.

  First the event loop of one core (\<open>CpuCore\<close>).  Its tasks are polled with the dummy waker in
  round-robin order, so that wake-ups play no role.  A panic of a task leaves \<open>run\<close> and ends the
  thread.  The inbox of a core is shared with the runtime and is part of its state here.

  Then the runtime object.  Its methods only touch atomics and lock-free queues, and they run
  on many threads at once; they are modelled twice: as functions, and as programs whose atomic
  steps interleave.
\<close>

section \<open>Messages and cores\<close>

datatype 'f core_message =
    CoreTask task_id 'f
  | CorePing usize
  | CoreShutdown
  | CoreCancelTask task_id

text \<open>The task of \<open>Task::from_pinned\<close> is the pair of its identifier and its future.\<close>

record ('f, 'b, 'q, 'w) cpu_core =
  core_id :: usize
  core_tasks :: "(task_id \<times> 'f) list"
  message_inbox :: 'q
  timer_wheel :: "waker timer_wheel"
  core_backend :: 'b
  core_stop :: bool
  local_task_count :: usize
  core_world :: 'w

record ('f, 'v, 'b, 'q, 'w) core_env =
  inbox_ops :: "('q, 'f core_message) queue_ops"
  core_futs :: "('f, 'v, 'w) boxed_future"
  core_io :: "'b io_ops"

definition core_new :: "('f, 'v, 'b, 'q, 'w) core_env \<Rightarrow> usize \<Rightarrow> 'b \<Rightarrow> instant \<Rightarrow> 'w
    \<Rightarrow> ('f, 'b, 'q, 'w) cpu_core" where
  "core_new E i b now w = \<lparr>core_id = i, core_tasks = [], message_inbox = q_new (inbox_ops E),
     timer_wheel = wheel_new 1024 1 now, core_backend = b, core_stop = False, local_task_count = 0,
     core_world = w\<rparr>"

primrec drop_futures :: "('f, 'v, 'w) boxed_future \<Rightarrow> 'f list \<Rightarrow> 'w \<Rightarrow> 'w may_panic" where
  "drop_futures F [] w = Inr w"
| "drop_futures F (f # fs) w =
    (case bf_drop F f w of Inl e \<Rightarrow> Inl e | Inr w' \<Rightarrow> drop_futures F fs w')"

definition core_handle :: "('f, 'v, 'b, 'q, 'w) core_env \<Rightarrow> 'f core_message
    \<Rightarrow> ('f, 'b, 'q, 'w) cpu_core \<Rightarrow> ('f, 'b, 'q, 'w) cpu_core may_panic" where
  "core_handle E m s =
    (case m of
       CoreTask i f \<Rightarrow>
         Inr (s\<lparr>core_tasks := core_tasks s @ [(i, f)], local_task_count := local_task_count s + 1\<rparr>)
     | CorePing _ \<Rightarrow> Inr s
     | CoreShutdown \<Rightarrow> Inr (s\<lparr>core_stop := True\<rparr>)
     | CoreCancelTask i \<Rightarrow>
         (case drop_futures (core_futs E) (map snd (filter (\<lambda>t. fst t = i) (core_tasks s))) (core_world s) of
            Inl e \<Rightarrow> Inl e
          | Inr w \<Rightarrow> Inr (s\<lparr>core_tasks := filter (\<lambda>t. fst t \<noteq> i) (core_tasks s), core_world := w\<rparr>)))"

text \<open>\<open>process_messages\<close> with \<open>n\<close> messages left in the budget of 32; the result tells whether a
  message was processed.\<close>

primrec core_messages :: "('f, 'v, 'b, 'q, 'w) core_env \<Rightarrow> nat \<Rightarrow> bool
    \<Rightarrow> ('f, 'b, 'q, 'w) cpu_core \<Rightarrow> (bool \<times> ('f, 'b, 'q, 'w) cpu_core) may_panic" where
  "core_messages E 0 processed s = Inr (processed, s)"
| "core_messages E (Suc n) processed s =
    (case q_pop (inbox_ops E) (message_inbox s) of
       (None, q) \<Rightarrow> Inr (processed, s\<lparr>message_inbox := q\<rparr>)
     | (Some m, q) \<Rightarrow>
         (case core_handle E m (s\<lparr>message_inbox := q\<rparr>) of
            Inl e \<Rightarrow> Inl e
          | Inr s1 \<Rightarrow> (case m of CoreShutdown \<Rightarrow> Inr (True, s1) | _ \<Rightarrow> core_messages E n True s1)))"

definition core_process_messages :: "('f, 'v, 'b, 'q, 'w) core_env
    \<Rightarrow> ('f, 'b, 'q, 'w) cpu_core \<Rightarrow> (bool \<times> ('f, 'b, 'q, 'w) cpu_core) may_panic" where
  "core_process_messages E s = core_messages E 32 False s"

text \<open>One task polled, and the loop over at most 16 of them.\<close>

definition core_poll_front :: "('f, 'v, 'b, 'q, 'w) core_env \<Rightarrow> task_id \<times> 'f \<Rightarrow> (task_id \<times> 'f) list
    \<Rightarrow> ('f, 'b, 'q, 'w) cpu_core \<Rightarrow> ('f, 'b, 'q, 'w) cpu_core may_panic" where
  "core_poll_front E t rest s =
    (case bf_poll (core_futs E) dummy_waker (snd t) (core_world s) of
       (Inl e, f, w) \<Rightarrow> Inl e
     | (Inr (Ready _), f, w) \<Rightarrow>
         (if local_task_count s = 0 then Inl ArithmeticOverflow
          else case bf_drop (core_futs E) f w of
            Inl e \<Rightarrow> Inl e
          | Inr w' \<Rightarrow> Inr (s\<lparr>core_tasks := rest, local_task_count := local_task_count s - 1, core_world := w'\<rparr>))
     | (Inr Pending, f, w) \<Rightarrow> Inr (s\<lparr>core_tasks := rest @ [(fst t, f)], core_world := w\<rparr>))"

primrec core_execute :: "('f, 'v, 'b, 'q, 'w) core_env \<Rightarrow> nat
    \<Rightarrow> ('f, 'b, 'q, 'w) cpu_core \<Rightarrow> ('f, 'b, 'q, 'w) cpu_core may_panic" where
  "core_execute E 0 s = Inr s"
| "core_execute E (Suc n) s =
    (case core_tasks s of
       [] \<Rightarrow> Inr s
     | t # rest \<Rightarrow>
         (case core_poll_front E t rest s of
            Inl e \<Rightarrow> Inl e
          | Inr s1 \<Rightarrow> core_execute E n s1))"

definition execute_tasks :: "('f, 'v, 'b, 'q, 'w) core_env
    \<Rightarrow> ('f, 'b, 'q, 'w) cpu_core \<Rightarrow> (bool \<times> ('f, 'b, 'q, 'w) cpu_core) may_panic" where
  "execute_tasks E s =
    (case core_execute E 16 s of Inl e \<Rightarrow> Inl e | Inr s1 \<Rightarrow> Inr (core_tasks s \<noteq> [], s1))"

text \<open>The completions are only counted.\<close>

definition process_io :: "('f, 'v, 'b, 'q, 'w) core_env
    \<Rightarrow> ('f, 'b, 'q, 'w) cpu_core \<Rightarrow> bool \<times> ('f, 'b, 'q, 'w) cpu_core" where
  "process_io E s =
    (case io_poll_complete (core_io E) (core_backend s) of
       (Ready completions, b) \<Rightarrow> (completions \<noteq> [], s\<lparr>core_backend := b\<rparr>)
     | (Pending, b) \<Rightarrow> (False, s\<lparr>core_backend := b\<rparr>))"

definition process_timers :: "('f, 'b, 'q, 'w) cpu_core \<Rightarrow> bool \<times> ('f, 'b, 'q, 'w) cpu_core" where
  "process_timers s = (False, s)"

text \<open>\<open>run\<close>; \<open>ext k\<close> are the messages that other threads push in round \<open>k\<close>.  A panic ends the
  thread.\<close>

primrec core_run :: "('f, 'v, 'b, 'q, 'w) core_env \<Rightarrow> (nat \<Rightarrow> 'f core_message list) \<Rightarrow> nat \<Rightarrow> nat
    \<Rightarrow> ('f, 'b, 'q, 'w) cpu_core \<Rightarrow> (('f, 'b, 'q, 'w) cpu_core may_panic) option" where
  "core_run E ext k 0 s = None"
| "core_run E ext k (Suc fuel) s =
    (if core_stop s then Some (Inr s)
     else case core_process_messages E s of
         Inl e \<Rightarrow> Some (Inl e)
       | Inr (_, s1) \<Rightarrow>
           (case execute_tasks E s1 of
              Inl e \<Rightarrow> Some (Inl e)
            | Inr (_, s2) \<Rightarrow>
                let s3 = snd (process_timers (snd (process_io E s2))) in
                core_run E ext (Suc k) fuel
                  (s3\<lparr>message_inbox := q_push_all (inbox_ops E) (message_inbox s3) (ext k)\<rparr>)))"

section \<open>The event loop of a core\<close>

text \<open>The messages that one round takes: at most \<open>n\<close>, none after a shutdown.\<close>

fun batch :: "nat \<Rightarrow> 'f core_message list \<Rightarrow> 'f core_message list" where
  "batch 0 ms = []"
| "batch (Suc n) [] = []"
| "batch (Suc n) (CoreShutdown # ms) = [CoreShutdown]"
| "batch (Suc n) (m # ms) = m # batch n ms"

definition before_shutdown :: "'f core_message list \<Rightarrow> 'f core_message list" where
  "before_shutdown ms = takeWhile (\<lambda>m. m \<noteq> CoreShutdown) ms"

text \<open>The futures neither panic when polled nor when dropped.\<close>

definition panic_free :: "('f, 'v, 'w) boxed_future \<Rightarrow> bool" where
  "panic_free F \<longleftrightarrow> (\<forall>wk f w. \<exists>p f' w'. bf_poll F wk f w = (Inr p, f', w'))
     \<and> (\<forall>f w. \<exists>w'. bf_drop F f w = Inr w')"

text \<open>The task counter never underflows.\<close>

definition core_wf :: "('f, 'b, 'q, 'w) cpu_core \<Rightarrow> bool" where
  "core_wf s \<longleftrightarrow> length (core_tasks s) \<le> local_task_count s"

lemma before_shutdown_simps [simp]:
  "before_shutdown [] = []"
  "before_shutdown (CoreShutdown # ms) = []"
  "m \<noteq> CoreShutdown \<Longrightarrow> before_shutdown (m # ms) = m # before_shutdown ms"
  by (simp_all add: before_shutdown_def)

lemma before_shutdown_append:
  "CoreShutdown \<in> set ms \<Longrightarrow> before_shutdown (ms @ ns) = before_shutdown ms"
  by (simp add: before_shutdown_def takeWhile_append1)

lemma before_shutdown_length: "CoreShutdown \<in> set ms \<Longrightarrow> Suc (length (before_shutdown ms)) \<le> length ms"
  unfolding before_shutdown_def by (induction ms) auto

lemma batch_shutdown:
  assumes "CoreShutdown \<in> set ms" "length (before_shutdown ms) < n"
  shows "CoreShutdown \<in> set (batch n ms) \<and> length (batch n ms) = Suc (length (before_shutdown ms))"
  using assms by (induction n ms rule: batch.induct) auto

lemma batch_no_shutdown:
  assumes "CoreShutdown \<in> set ms" "n \<le> length (before_shutdown ms)"
  shows "CoreShutdown \<notin> set (batch n ms) \<and> length (batch n ms) = n \<and> CoreShutdown \<in> set (drop n ms)
    \<and> length (before_shutdown ms) = n + length (before_shutdown (drop n ms))"
  using assms by (induction n ms rule: batch.induct) auto

lemma drop_futures_panic_free: "panic_free F \<Longrightarrow> \<exists>w'. drop_futures F fs w = Inr w'"
proof (induction fs arbitrary: w)
  case (Cons f fs)
  then obtain w' where "bf_drop F f w = Inr w'" by (meson panic_free_def)
  with Cons show ?case by simp
qed simp

lemma core_handle_panic_free:
  assumes "panic_free (core_futs E)"
  shows "\<exists>s'. core_handle E m s = Inr s' \<and> message_inbox s' = message_inbox s
    \<and> core_stop s' = (core_stop s \<or> m = CoreShutdown) \<and> (core_wf s \<longrightarrow> core_wf s')"
proof (cases m)
  case (CoreCancelTask i)
  from drop_futures_panic_free [OF assms] obtain w where
    "drop_futures (core_futs E) (map snd (filter (\<lambda>t. fst t = i) (core_tasks s))) (core_world s) = Inr w"
    by blast
  with CoreCancelTask show ?thesis
    by (auto simp: core_handle_def core_wf_def intro: order_trans [OF length_filter_le])
qed (auto simp: core_handle_def core_wf_def)

lemma core_poll_front_panic_free:
  assumes "panic_free (core_futs E)" "core_wf s" "core_tasks s = t # rest"
  shows "\<exists>s' more. core_poll_front E t rest s = Inr s' \<and> core_tasks s' = rest @ more
    \<and> message_inbox s' = message_inbox s \<and> core_stop s' = core_stop s \<and> core_wf s'"
proof -
  obtain p f w where p: "bf_poll (core_futs E) dummy_waker (snd t) (core_world s) = (Inr p, f, w)"
    using assms(1) by (meson panic_free_def)
  obtain w' where "bf_drop (core_futs E) f w = Inr w'"
    using assms(1) by (meson panic_free_def)
  with p assms(2,3) show ?thesis
    by (cases p) (auto simp: core_poll_front_def core_wf_def)
qed

lemma core_execute_panic_free:
  assumes "panic_free (core_futs E)" "core_wf s"
  shows "\<exists>s'. core_execute E n s = Inr s'
    \<and> message_inbox s' = message_inbox s \<and> core_stop s' = core_stop s \<and> core_wf s'"
  using assms(2)
proof (induction n arbitrary: s)
  case (Suc n)
  show ?case
  proof (cases "core_tasks s")
    case (Cons t rest)
    from core_poll_front_panic_free [OF assms(1) Suc.prems Cons] obtain s' where
      "core_poll_front E t rest s = Inr s'" "message_inbox s' = message_inbox s"
      "core_stop s' = core_stop s" "core_wf s'"
      by blast
    with Suc.IH [of s'] Cons show ?thesis by auto
  qed (use Suc.prems in simp)
qed simp

text \<open>What a core needs of its inbox.\<close>

locale core_loop =
  fixes E :: "('f, 'v, 'b, 'q, 'w) core_env"
    and items :: "'q \<Rightarrow> 'f core_message list"
  assumes inbox: "seg_queue (inbox_ops E) items"
begin

sublocale box: seg_queue "inbox_ops E" items by (rule inbox)

lemma core_messages_batch:
  assumes "panic_free (core_futs E)" "core_wf s"
  shows "\<exists>p s'. core_messages E n processed s = Inr (p, s') \<and> core_wf s'
    \<and> items (message_inbox s) = batch n (items (message_inbox s)) @ items (message_inbox s')
    \<and> core_stop s' = (core_stop s \<or> CoreShutdown \<in> set (batch n (items (message_inbox s))))"
  using assms(2)
proof (induction n arbitrary: s processed)
  case (Suc n)
  show ?case
  proof (cases rule: box.pop_cases [of "message_inbox s"])
    case (empty q)
    with Suc.prems show ?thesis by (simp add: core_wf_def)
  next
    case (item m ms q)
    from core_handle_panic_free [OF assms(1), of m "s\<lparr>message_inbox := q\<rparr>"] Suc.prems obtain s1 where
      s1: "core_handle E m (s\<lparr>message_inbox := q\<rparr>) = Inr s1" "message_inbox s1 = q"
        "core_stop s1 = (core_stop s \<or> m = CoreShutdown)" "core_wf s1"
      by (auto simp: core_wf_def)
    from Suc.IH [OF s1(4), of True] s1 item show ?thesis
      by (cases m) auto
  qed
qed simp

lemma core_round:
  assumes "panic_free (core_futs E)" "core_wf s" "\<not> core_stop s"
    and "ms = items (message_inbox s)"
  shows "\<exists>s'. core_run E ext k (Suc fuel) s = core_run E ext (Suc k) fuel s' \<and> core_wf s'
    \<and> items (message_inbox s') = drop (length (batch 32 ms)) ms @ ext k
    \<and> core_stop s' = (CoreShutdown \<in> set (batch 32 ms))"
proof -
  from core_messages_batch [OF assms(1,2), of 32 False] assms(3,4) obtain p s1 where
    s1: "core_process_messages E s = Inr (p, s1)" "core_wf s1" "ms = batch 32 ms @ items (message_inbox s1)"
      "core_stop s1 = (CoreShutdown \<in> set (batch 32 ms))"
    by (auto simp: core_process_messages_def)
  then have rest: "items (message_inbox s1) = drop (length (batch 32 ms)) ms"
    by (metis append_eq_conv_conj)
  from core_execute_panic_free [OF assms(1) s1(2), of 16] obtain s2 where
    s2: "core_execute E 16 s1 = Inr s2" "message_inbox s2 = message_inbox s1"
      "core_stop s2 = core_stop s1" "core_wf s2"
    by blast
  obtain c b where "io_poll_complete (core_io E) (core_backend s2) = (c, b)" by fastforce
  with s1 s2 rest assms(3) show ?thesis
    by (cases c) (auto simp: execute_tasks_def process_timers_def process_io_def core_wf_def)
qed

lemma core_run_until_shutdown:
  assumes "panic_free (core_futs E)" "core_wf s" "\<not> core_stop s"
    and "CoreShutdown \<in> set (items (message_inbox s))"
    and "length (before_shutdown (items (message_inbox s))) < 32 * r"
  shows "\<exists>s' pushed. core_run E ext k (Suc r) s = Some (Inr s')
    \<and> items (message_inbox s')
        = drop (Suc (length (before_shutdown (items (message_inbox s))))) (items (message_inbox s)) @ pushed"
  using assms(2-)
proof (induction r arbitrary: s k)
  case (Suc r)
  let ?ms = "items (message_inbox s)"
  from core_round [OF assms(1) Suc.prems(1,2) refl, of ext k "Suc r"] obtain s1 where
    s1: "core_run E ext k (Suc (Suc r)) s = core_run E ext (Suc k) (Suc r) s1" "core_wf s1"
      "items (message_inbox s1) = drop (length (batch 32 ?ms)) ?ms @ ext k"
      "core_stop s1 = (CoreShutdown \<in> set (batch 32 ?ms))"
    by blast
  show ?case
  proof (cases "length (before_shutdown ?ms) < 32")
    case True
    with batch_shutdown [OF Suc.prems(3)] s1 show ?thesis by auto
  next
    case False
    then have b: "CoreShutdown \<notin> set (batch 32 ?ms)" "length (batch 32 ?ms) = 32"
      "CoreShutdown \<in> set (drop 32 ?ms)"
      "length (before_shutdown ?ms) = 32 + length (before_shutdown (drop 32 ?ms))"
      using batch_no_shutdown [OF Suc.prems(3), of 32] by auto
    moreover from b(3) have "before_shutdown (drop 32 ?ms @ ext k) = before_shutdown (drop 32 ?ms)"
      by (rule before_shutdown_append)
    ultimately obtain s2 pushed where "core_run E ext (Suc k) (Suc r) s1 = Some (Inr s2)"
      "items (message_inbox s2)
        = drop (Suc (length (before_shutdown (drop 32 ?ms)))) (drop 32 ?ms @ ext k) @ pushed"
      using Suc.IH [of s1 "Suc k"] s1 Suc.prems(4) by auto
    moreover have "Suc (length (before_shutdown (drop 32 ?ms))) \<le> length (drop 32 ?ms)"
      using b(3) by (rule before_shutdown_length)
    ultimately show ?thesis using s1(1) b(4) by (auto simp: add.commute)
  qed
qed simp

end

interpretation list_core: core_loop "\<lparr>inbox_ops = list_queue, core_futs = F, core_io = B\<rparr>" "\<lambda>q. q" for F B
  by (rule core_loop.intro) (simp add: list_queue.seg_queue_axioms)

subsection \<open>Round robin\<close>

lemma core_execute_add:
  "core_execute E (m + n) s = (case core_execute E m s of Inl e \<Rightarrow> Inl e | Inr s1 \<Rightarrow> core_execute E n s1)"
proof (induction m arbitrary: s)
  case (Suc m)
  show ?case
  proof (cases "core_tasks s")
    case Nil
    then show ?thesis by (cases n) simp_all
  qed (auto simp: Suc split: sum.splits)
qed simp

lemma core_execute_front:
  assumes "panic_free (core_futs E)" "core_wf s" "core_tasks s = before @ after"
  shows "\<exists>s' more. core_execute E (length before) s = Inr s' \<and> core_tasks s' = after @ more \<and> core_wf s'"
  using assms(2,3)
proof (induction before arbitrary: s after)
  case (Cons t ts)
  from core_poll_front_panic_free [OF assms(1) Cons.prems(1), of t "ts @ after"] Cons.prems(2) obtain s1 more where
    s1: "core_poll_front E t (ts @ after) s = Inr s1" "core_tasks s1 = ts @ (after @ more)" "core_wf s1"
    by auto
  from Cons.IH [OF s1(3,2)] s1(1) Cons.prems(2) show ?case by auto
qed simp


text \<open>Futures that become ready after some polls, and a core that runs them.\<close>

definition countdown_future :: "(nat, nat, unit) boxed_future" where
  "countdown_future = \<lparr>bf_poll = (\<lambda>wk f w. (Inr (if f = 0 then Ready 7 else Pending), f - 1, w)),
     bf_drop = (\<lambda>f w. Inr w)\<rparr>"

definition demo_core :: "nat core_message list \<Rightarrow> (nat, unit, nat core_message list, unit) cpu_core" where
  "demo_core ms = \<lparr>core_id = 0, core_tasks = [(TaskId 5, 20), (TaskId 6, 0)], message_inbox = ms,
     timer_wheel = wheel_new 1024 1 0, core_backend = (), core_stop = False, local_task_count = 2,
     core_world = ()\<rparr>"

abbreviation "demo_core_env \<equiv>
  \<lparr>inbox_ops = list_queue, core_futs = countdown_future, core_io = DummyIoBackend\<rparr>"

lemma panic_free_countdown: "panic_free countdown_future"
  by (auto simp: panic_free_def countdown_future_def)

lemma core_wf_demo: "core_wf (demo_core ms)"
  by (simp add: core_wf_def demo_core_def)


subsection \<open>Shutdown\<close>



subsection \<open>I/O on a core\<close>

text \<open>C32. The event loop of a core never installs its I/O state in the thread-local of
  \<open>src/cpu.rs\<close>.  So the first I/O operation of any task panics, and since \<open>execute_tasks\<close> does not
  catch panics, the thread of the core ends with all its tasks.\<close>

theorem core_io_kills_core:
  assumes "seg_queue (inbox_ops E) items" "core_futs E = method_future B"
    and "\<not> core_stop s" "items (message_inbox s) = []" "core_tasks s = (i, Submit op) # others"
    and "cur_io (core_world s) = None"
  shows "core_run E ext k (Suc fuel) s =
    Some (Inl (ExpectFailed ''I/O operation attempted outside of a miniss runtime thread''))"
proof -
  obtain q where "q_pop (inbox_ops E) (message_inbox s) = (None, q)"
    using seg_queue.pop_empty [OF assms(1,4)] by (metis prod.collapse)
  with assms(2-) show ?thesis
    by (simp add: core_process_messages_def execute_tasks_def core_poll_front_def numeral_eq_Suc
        method_future_def io_state_def)
qed

theorem core_io_kills_core_witness:
  "core_run \<lparr>inbox_ops = list_queue, core_futs = method_future DummyIoBackend, core_io = DummyIoBackend\<rparr>
     (\<lambda>_. []) 0 1
     \<lparr>core_id = 0, core_tasks = [(TaskId 5, Submit (OpAccept 3)), (TaskId 6, Over)], message_inbox = [],
      timer_wheel = wheel_new 1024 1 0, core_backend = (), core_stop = False, local_task_count = 2,
      core_world = \<lparr>io_states = [], cur_io = None, token_counter = TOKEN_COUNTER_init, io_rest = ()\<rparr>\<rparr>
   = Some (Inl (ExpectFailed ''I/O operation attempted outside of a miniss runtime thread''))"
  unfolding One_nat_def
  by (rule core_io_kills_core [where items = "\<lambda>q. q" and i = "TaskId 5" and op = "OpAccept 3"
        and others = "[(TaskId 6, Over)]" and B = DummyIoBackend])
    (simp_all add: list_queue.seg_queue_axioms)

section \<open>The runtime object\<close>

datatype runtime_error = NotInitialized | TaskFailed string | IoFailed std_io_error

datatype runtime_state = Initializing | Running | ShuttingDown | Terminated

record 'q multi_core_runtime =
  num_cores :: usize
  core_senders :: "'q list"
  rt_state :: runtime_state
  next_core :: u64

definition NEXT_TASK_ID_init :: u64 where
  "NEXT_TASK_ID_init = 1"

definition next_task_id :: "u64 \<Rightarrow> task_id \<times> u64" where
  "next_task_id counter = (let (c, counter') = fetch_add counter 1 in (TaskId c, counter'))"

text \<open>The backends that the build compiled in are tried in order; \<open>attempts\<close> are the results of
  their constructors.\<close>

primrec create_io_backend :: "(std_io_error + 'b) list \<Rightarrow> runtime_error + 'b" where
  "create_io_backend [] = Inl (IoFailed (SimpleError Unsupported ''No suitable IO backend available''))"
| "create_io_backend (a # attempts) = (case a of Inr b \<Rightarrow> Inr b | Inl _ \<Rightarrow> create_io_backend attempts)"

text \<open>The loop of \<open>new\<close>: \<open>attempts i\<close> are the backends of core \<open>i\<close>, and \<open>thread i\<close> is the result
  of spawning its thread.  The inbox that \<open>CpuCore::new\<close> makes is replaced by the one the runtime
  keeps a reference to.\<close>

primrec start_cores :: "('f, 'v, 'b, 'q, 'w) core_env \<Rightarrow> (usize \<Rightarrow> (std_io_error + 'b) list)
    \<Rightarrow> (usize \<Rightarrow> string + unit) \<Rightarrow> instant \<Rightarrow> 'w \<Rightarrow> usize list
    \<Rightarrow> runtime_error + ('f, 'b, 'q, 'w) cpu_core list" where
  "start_cores E attempts thread now w [] = Inr []"
| "start_cores E attempts thread now w (i # is) =
    (case create_io_backend (attempts i) of
       Inl e \<Rightarrow> Inl e
     | Inr b \<Rightarrow>
         (let core = (core_new E i b now w)\<lparr>message_inbox := q_new (inbox_ops E)\<rparr> in
          case thread i of
            Inl e \<Rightarrow> Inl (TaskFailed (''Failed to spawn core thread: '' @ e))
          | Inr _ \<Rightarrow>
              (case start_cores E attempts thread now w is of
                 Inl e \<Rightarrow> Inl e
               | Inr cores \<Rightarrow> Inr (core # cores))))"

text \<open>\<open>num_cpus\<close> is the result of \<open>num_cpus::get\<close>.\<close>

definition runtime_new :: "('f, 'v, 'b, 'q, 'w) core_env \<Rightarrow> (usize \<Rightarrow> (std_io_error + 'b) list)
    \<Rightarrow> (usize \<Rightarrow> string + unit) \<Rightarrow> instant \<Rightarrow> 'w \<Rightarrow> usize \<Rightarrow> usize option
    \<Rightarrow> runtime_error + ('q multi_core_runtime \<times> ('f, 'b, 'q, 'w) cpu_core list)" where
  "runtime_new E attempts thread now w num_cpus n =
    (let num = (case n of Some k \<Rightarrow> k | None \<Rightarrow> num_cpus) in
     if num = 0 then Inl (TaskFailed ''Cannot create runtime with 0 CPUs'')
     else case start_cores E attempts thread now w [0..<num] of
       Inl e \<Rightarrow> Inl e
     | Inr cores \<Rightarrow>
         let rt = \<lparr>num_cores = num, core_senders = map message_inbox cores, rt_state = Initializing,
                   next_core = 0\<rparr>
         in Inr (rt\<lparr>rt_state := Running\<rparr>, cores))"

definition spawn_on_core :: "('q, 'f core_message) queue_ops \<Rightarrow> usize \<Rightarrow> task_id \<Rightarrow> 'f
    \<Rightarrow> 'q multi_core_runtime \<Rightarrow> (task_id \<times> 'q multi_core_runtime) may_panic" where
  "spawn_on_core Q core tid f rt =
    (if core < length (core_senders rt)
     then Inr (tid, rt\<lparr>core_senders := (core_senders rt)[core := q_push Q (core_senders rt ! core) (CoreTask tid f)]\<rparr>)
     else Inl IndexOutOfBounds)"

definition runtime_spawn :: "('q, 'f core_message) queue_ops \<Rightarrow> 'f \<Rightarrow> u64 \<Rightarrow> 'q multi_core_runtime
    \<Rightarrow> ((runtime_error + task_id) \<times> u64 \<times> 'q multi_core_runtime) may_panic" where
  "runtime_spawn Q f ids rt =
    (if rt_state rt \<noteq> Running then Inr (Inl (TaskFailed ''Runtime is not running''), ids, rt)
     else let (tid, ids') = next_task_id ids;
              (n, next) = fetch_add (next_core rt) 1;
              rt1 = rt\<lparr>next_core := next\<rparr>
       in if num_cores rt = 0 then Inl RemainderByZero
          else case spawn_on_core Q (unat n mod num_cores rt) tid f rt1 of
            Inl e \<Rightarrow> Inl e
          | Inr (tid, rt2) \<Rightarrow> Inr (Inr tid, ids', rt2))"

definition runtime_spawn_on :: "('q, 'f core_message) queue_ops \<Rightarrow> usize \<Rightarrow> 'f \<Rightarrow> u64 \<Rightarrow> 'q multi_core_runtime
    \<Rightarrow> ((runtime_error + task_id) \<times> u64 \<times> 'q multi_core_runtime) may_panic" where
  "runtime_spawn_on Q core f ids rt =
    (if rt_state rt \<noteq> Running then Inr (Inl (TaskFailed ''Runtime is not running''), ids, rt)
     else if num_cores rt \<le> core then Inr (Inl (TaskFailed (''Invalid core ID: '' @ decimal core)), ids, rt)
     else let (tid, ids') = next_task_id ids in
       case spawn_on_core Q core tid f rt of
         Inl e \<Rightarrow> Inl e
       | Inr (tid, rt2) \<Rightarrow> Inr (Inr tid, ids', rt2))"

text \<open>\<open>compare_exchange\<close> on the state: whether it succeeded, and the new runtime.\<close>

definition cas_state :: "runtime_state \<Rightarrow> runtime_state \<Rightarrow> 'q multi_core_runtime \<Rightarrow> bool \<times> 'q multi_core_runtime" where
  "cas_state expected new rt =
    (if rt_state rt = expected then (True, rt\<lparr>rt_state := new\<rparr>) else (False, rt))"

definition over :: "runtime_state \<Rightarrow> bool" where
  "over st \<longleftrightarrow> st = ShuttingDown \<or> st = Terminated"

definition runtime_shutdown :: "('q, 'f core_message) queue_ops \<Rightarrow> 'q multi_core_runtime
    \<Rightarrow> (runtime_error + unit) \<times> 'q multi_core_runtime" where
  "runtime_shutdown Q rt =
    (if over (rt_state rt) then (Inr (), rt)
     else case cas_state Running ShuttingDown rt of
       (False, rt1) \<Rightarrow>
         (if over (rt_state rt1) then (Inr (), rt1)
          else (Inl (TaskFailed ''Failed to initiate shutdown''), rt1))
     | (True, rt1) \<Rightarrow>
         (Inr (), rt1\<lparr>core_senders := map (\<lambda>q. q_push Q q CoreShutdown) (core_senders rt1)\<rparr>))"

definition runtime_cancel_task :: "task_id \<Rightarrow> 'q multi_core_runtime \<Rightarrow> runtime_error + unit" where
  "runtime_cancel_task tid rt =
    (if rt_state rt \<noteq> Running then Inl (TaskFailed ''Runtime is not running'') else Inr ())"

definition ping_all :: "('q, 'f core_message) queue_ops \<Rightarrow> 'q multi_core_runtime \<Rightarrow> 'q multi_core_runtime" where
  "ping_all Q rt = rt\<lparr>core_senders :=
     map (\<lambda>(from_core, q). q_push_all Q q
           (map (\<lambda>_. CorePing from_core) (filter (\<lambda>to_core. from_core \<noteq> to_core) [0..<num_cores rt])))
       (enumerate 0 (core_senders rt))\<rparr>"

text \<open>\<open>join\<close>, given how the threads of the cores end: with a panic (and its debug text) or with
  the result of \<open>run\<close>.\<close>

primrec join_all :: "(string + (runtime_error + unit)) list \<Rightarrow> runtime_error + unit" where
  "join_all [] = Inr ()"
| "join_all (r # rs) =
    (case r of
       Inr (Inr _) \<Rightarrow> join_all rs
     | Inr (Inl e) \<Rightarrow> Inl e
     | Inl e \<Rightarrow> Inl (TaskFailed (''Thread join failed: '' @ e)))"

definition runtime_join :: "(string + (runtime_error + unit)) list \<Rightarrow> 'q multi_core_runtime
    \<Rightarrow> (runtime_error + unit) \<times> 'q multi_core_runtime" where
  "runtime_join ends rt =
    (case join_all ends of
       Inl e \<Rightarrow> (Inl e, rt)
     | Inr _ \<Rightarrow> (Inr (), rt\<lparr>rt_state := Terminated\<rparr>))"

text \<open>\<open>drop\<close>, which also runs at the end of \<open>join\<close>.\<close>

definition runtime_drop :: "('q, 'f core_message) queue_ops \<Rightarrow> 'q multi_core_runtime \<Rightarrow> 'q multi_core_runtime" where
  "runtime_drop Q rt = (if rt_state rt = Running then snd (runtime_shutdown Q rt) else rt)"

text \<open>\<open>block_on\<close> polls on the calling thread until the future is ready; \<open>None\<close> as in
  \<open>block_on_loop\<close>.\<close>

primrec multi_block_on :: "('f, 'v, 'w) boxed_future \<Rightarrow> nat \<Rightarrow> 'f \<Rightarrow> 'w \<Rightarrow> ('v may_panic \<times> 'w) option" where
  "multi_block_on F 0 f w = None"
| "multi_block_on F (Suc fuel) f w =
    (case bf_poll F dummy_waker f w of
       (Inl e, f', w') \<Rightarrow>
         (case bf_drop F f' w' of Inl _ \<Rightarrow> None | Inr w'' \<Rightarrow> Some (Inl e, w''))
     | (Inr (Ready result), f', w') \<Rightarrow>
         (case bf_drop F f' w' of Inl e \<Rightarrow> Some (Inl e, w') | Inr w'' \<Rightarrow> Some (Inr result, w''))
     | (Inr Pending, f', w') \<Rightarrow> multi_block_on F fuel f' w')"

definition block_on_cpu :: "('f, 'v, 'w) boxed_future \<Rightarrow> nat \<Rightarrow> usize \<Rightarrow> 'f \<Rightarrow> 'w \<Rightarrow> 'q multi_core_runtime
    \<Rightarrow> (runtime_error + ('v may_panic \<times> 'w) option)" where
  "block_on_cpu F fuel core f w rt =
    (if num_cores rt \<le> core then Inl (TaskFailed (''Invalid core ID: '' @ decimal core))
     else Inr (multi_block_on F fuel f w))"

record runtime_stats =
  stat_cores :: usize
  is_shutdown :: bool

definition runtime_stats_of :: "'q multi_core_runtime \<Rightarrow> runtime_stats" where
  "runtime_stats_of rt = \<lparr>stat_cores = num_cores rt,
     is_shutdown = (rt_state rt = ShuttingDown \<or> rt_state rt = Terminated)\<rparr>"

definition cpu_count :: "'q multi_core_runtime \<Rightarrow> usize" where
  "cpu_count rt = num_cores rt"

section \<open>The global runtime\<close>

text \<open>\<open>GLOBAL_RUNTIME\<close> is a \<open>OnceLock\<close>: it is set at most once.  When it was set before, the
  new runtime is dropped, which shuts it down.\<close>

definition init_runtime :: "('q, 'f core_message) queue_ops \<Rightarrow> runtime_error + 'q multi_core_runtime
    \<Rightarrow> 'q multi_core_runtime option
    \<Rightarrow> (runtime_error + unit) \<times> 'q multi_core_runtime option \<times> 'q multi_core_runtime option" where
  "init_runtime Q new global =
    (case new of
       Inl e \<Rightarrow> (Inl e, global, None)
     | Inr rt \<Rightarrow>
         (case global of
            None \<Rightarrow> (Inr (), Some rt, None)
          | Some _ \<Rightarrow> (Inl (TaskFailed ''Global runtime already initialized''), global, Some (runtime_drop Q rt))))"

definition global_runtime :: "'q multi_core_runtime option \<Rightarrow> runtime_error + 'q multi_core_runtime" where
  "global_runtime global = (case global of Some rt \<Rightarrow> Inr rt | None \<Rightarrow> Inl NotInitialized)"

definition global_spawn :: "('q, 'f core_message) queue_ops \<Rightarrow> 'f \<Rightarrow> u64 \<Rightarrow> 'q multi_core_runtime option
    \<Rightarrow> ((runtime_error + task_id) \<times> u64 \<times> 'q multi_core_runtime option) may_panic" where
  "global_spawn Q f ids global =
    (case global_runtime global of
       Inl e \<Rightarrow> Inr (Inl e, ids, global)
     | Inr rt \<Rightarrow>
         (case runtime_spawn Q f ids rt of
            Inl e \<Rightarrow> Inl e
          | Inr (r, ids', rt') \<Rightarrow> Inr (r, ids', Some rt')))"

definition global_shutdown :: "('q, 'f core_message) queue_ops \<Rightarrow> 'q multi_core_runtime option
    \<Rightarrow> (runtime_error + unit) \<times> 'q multi_core_runtime option" where
  "global_shutdown Q global =
    (case global_runtime global of
       Inl e \<Rightarrow> (Inl e, global)
     | Inr rt \<Rightarrow> (case runtime_shutdown Q rt of (r, rt') \<Rightarrow> (r, Some rt')))"

end
