(* ===== verification/Runtime_Calls.thy ===== *)
theory Runtime_Calls
  imports Multicore
begin

text \<open>
  The methods of the multi-core runtime as programs of atomic steps.

  \<open>shutdown\<close> and \<open>spawn\<close> may be called by any number of threads at the same time.  Each of
  their accesses to an atomic or to a queue is one step of \<open>call_step\<close>; the position of a call
  between two steps is a \<open>call_pc\<close>.  A system state holds the runtime, the task-id counter and
  the positions of all threads, and \<open>call_sys_step\<close> interleaves them.  The inboxes are not
  emptied here, so their contents are the histories of what was sent to the cores.
\<close>

datatype 'f call_pc =
    Idle
  | ShutdownLoad
  | ShutdownCas
  | ShutdownReload
  | ShutdownPush nat
  | ShutdownDone "runtime_error + unit"
  | SpawnLoad 'f
  | SpawnId 'f
  | SpawnPick 'f task_id
  | SpawnPush 'f task_id usize
  | SpawnDone "runtime_error + task_id"
  | CallPanicked panic

fun call_step :: "('q, 'f core_message) queue_ops \<Rightarrow> 'f call_pc \<Rightarrow> 'q multi_core_runtime \<times> u64
    \<Rightarrow> ('f call_pc \<times> 'q multi_core_runtime \<times> u64) option" where
  "call_step Q ShutdownLoad (rt, ids) =
    Some (if over (rt_state rt) then ShutdownDone (Inr ()) else ShutdownCas, rt, ids)"
| "call_step Q ShutdownCas (rt, ids) =
    (let (won, rt1) = cas_state Running ShuttingDown rt in
     Some (if won then ShutdownPush 0 else ShutdownReload, rt1, ids))"
| "call_step Q ShutdownReload (rt, ids) =
    Some (ShutdownDone (if over (rt_state rt) then Inr ()
      else Inl (TaskFailed ''Failed to initiate shutdown'')), rt, ids)"
| "call_step Q (ShutdownPush k) (rt, ids) =
    (if k < length (core_senders rt)
     then Some (ShutdownPush (Suc k),
       rt\<lparr>core_senders := (core_senders rt)[k := q_push Q (core_senders rt ! k) CoreShutdown]\<rparr>, ids)
     else Some (ShutdownDone (Inr ()), rt, ids))"
| "call_step Q (SpawnLoad f) (rt, ids) =
    Some (if rt_state rt \<noteq> Running then SpawnDone (Inl (TaskFailed ''Runtime is not running''))
      else SpawnId f, rt, ids)"
| "call_step Q (SpawnId f) (rt, ids) =
    (let (tid, ids') = next_task_id ids in Some (SpawnPick f tid, rt, ids'))"
| "call_step Q (SpawnPick f tid) (rt, ids) =
    (let (n, next) = fetch_add (next_core rt) 1 in
     Some (if num_cores rt = 0 then CallPanicked RemainderByZero
       else SpawnPush f tid (unat n mod num_cores rt), rt\<lparr>next_core := next\<rparr>, ids))"
| "call_step Q (SpawnPush f tid core) (rt, ids) =
    (case spawn_on_core Q core tid f rt of
       Inl e \<Rightarrow> Some (CallPanicked e, rt, ids)
     | Inr (tid', rt') \<Rightarrow> Some (SpawnDone (Inr tid'), rt', ids))"
| "call_step Q _ _ = None"

fun call_over :: "'f call_pc \<Rightarrow> bool" where
  "call_over (ShutdownDone _) = True"
| "call_over (SpawnDone _) = True"
| "call_over (CallPanicked _) = True"
| "call_over _ = False"

text \<open>A call that nobody interrupts.\<close>

primrec call_alone :: "('q, 'f core_message) queue_ops \<Rightarrow> nat \<Rightarrow> 'f call_pc
    \<Rightarrow> 'q multi_core_runtime \<times> u64 \<Rightarrow> 'f call_pc \<times> 'q multi_core_runtime \<times> u64" where
  "call_alone Q 0 pc st = (pc, st)"
| "call_alone Q (Suc n) pc st =
    (case call_step Q pc st of None \<Rightarrow> (pc, st) | Some (pc', st') \<Rightarrow> call_alone Q n pc' st')"

record ('f, 'q) call_sys =
  sys_rt :: "'q multi_core_runtime"
  sys_ids :: u64
  calls :: "nat \<Rightarrow> 'f call_pc"

inductive call_sys_step :: "('q, 'f core_message) queue_ops \<Rightarrow> ('f, 'q) call_sys \<Rightarrow> ('f, 'q) call_sys \<Rightarrow> bool"
  for Q where
  call_shutdown: "calls s t = Idle \<Longrightarrow>
    call_sys_step Q s (s\<lparr>calls := (calls s)(t := ShutdownLoad)\<rparr>)"
| call_spawn: "calls s t = Idle \<Longrightarrow>
    call_sys_step Q s (s\<lparr>calls := (calls s)(t := SpawnLoad f)\<rparr>)"
| call_act: "call_step Q (calls s t) (sys_rt s, sys_ids s) = Some (pc, rt, ids) \<Longrightarrow>
    call_sys_step Q s (s\<lparr>sys_rt := rt, sys_ids := ids, calls := (calls s)(t := pc)\<rparr>)"
| call_return: "call_over (calls s t) \<Longrightarrow>
    call_sys_step Q s (s\<lparr>calls := (calls s)(t := Idle)\<rparr>)"

text \<open>The runtime as \<open>new\<close> leaves it.\<close>

definition call_sys_start :: "('q, 'f core_message) queue_ops \<Rightarrow> usize \<Rightarrow> u64 \<Rightarrow> ('f, 'q) call_sys" where
  "call_sys_start Q n ids = \<lparr>sys_rt = \<lparr>num_cores = n, core_senders = replicate n (q_new Q),
     rt_state = Running, next_core = 0\<rparr>, sys_ids = ids, calls = (\<lambda>_. Idle)\<rparr>"

definition call_sys_reachable where
  "call_sys_reachable Q n s \<longleftrightarrow> (\<exists>ids. (call_sys_step Q)\<^sup>*\<^sup>* (call_sys_start Q n ids) s)"

section \<open>Calls on their own\<close>

lemma call_alone_over [simp]: "call_over pc \<Longrightarrow> call_alone Q n pc st = (pc, st)"
  by (cases n; cases pc; cases st) simp_all

lemma push_shutdown_alone:
  assumes "k + m = length (core_senders rt)"
  shows "call_alone Q (Suc m) (ShutdownPush k) (rt, ids) = (ShutdownDone (Inr ()),
    rt\<lparr>core_senders := take k (core_senders rt) @ map (\<lambda>q. q_push Q q CoreShutdown) (drop k (core_senders rt))\<rparr>, ids)"
  using assms
proof (induction m arbitrary: k rt)
  case (Suc m)
  let ?qs = "core_senders rt"
  let ?rt = "rt\<lparr>core_senders := ?qs[k := q_push Q (?qs ! k) CoreShutdown]\<rparr>"
  have k: "k < length ?qs" using Suc.prems by simp
  then have "take (Suc k) (core_senders ?rt) = take k ?qs @ [q_push Q (?qs ! k) CoreShutdown]"
    "drop (Suc k) (core_senders ?rt) = drop (Suc k) ?qs"
    "drop k ?qs = ?qs ! k # drop (Suc k) ?qs"
    by (simp_all add: take_Suc_conv_app_nth Cons_nth_drop_Suc)
  with Suc.IH [of "Suc k" ?rt] k Suc.prems show ?case by simp
qed simp


section \<open>Concurrent calls\<close>

definition shutdowns_sent :: "('q \<Rightarrow> 'f core_message list) \<Rightarrow> 'q multi_core_runtime \<Rightarrow> nat \<Rightarrow> nat" where
  "shutdowns_sent items rt i = count_list (items (core_senders rt ! i)) CoreShutdown"

fun is_push :: "'f call_pc \<Rightarrow> bool" where
  "is_push (ShutdownPush _) = True"
| "is_push _ = False"

definition nobody_pushes :: "('f, 'q) call_sys \<Rightarrow> bool" where
  "nobody_pushes s \<longleftrightarrow> (\<forall>t. \<not> is_push (calls s t))"

text \<open>While the runtime is running nobody broadcasts; once it is shutting down, the one thread that
  won the exchange is at core \<open>k\<close>, or has finished (\<open>k\<close> is the number of cores).\<close>

definition broadcast_at :: "('q \<Rightarrow> 'f core_message list) \<Rightarrow> ('f, 'q) call_sys \<Rightarrow> nat \<Rightarrow> bool" where
  "broadcast_at items s k \<longleftrightarrow> k \<le> num_cores (sys_rt s)
    \<and> (\<forall>i < num_cores (sys_rt s). shutdowns_sent items (sys_rt s) i = of_bool (i < k))"

definition call_inv :: "('q \<Rightarrow> 'f core_message list) \<Rightarrow> ('f, 'q) call_sys \<Rightarrow> bool" where
  "call_inv items s \<longleftrightarrow>
    length (core_senders (sys_rt s)) = num_cores (sys_rt s)
    \<and> (rt_state (sys_rt s) = Running \<and> nobody_pushes s \<and> broadcast_at items s 0
     \<or> rt_state (sys_rt s) = ShuttingDown
       \<and> (nobody_pushes s \<and> broadcast_at items s (num_cores (sys_rt s))
        \<or> (\<exists>t k. calls s t = ShutdownPush k \<and> (\<forall>t'. is_push (calls s t') \<longrightarrow> t' = t)
             \<and> broadcast_at items s k)))"

locale core_queues = seg_queue Q items
  for Q :: "('q, 'f core_message) queue_ops" and items :: "'q \<Rightarrow> 'f core_message list"
begin

lemma call_inv_start: "call_inv items (call_sys_start Q n ids)"
  by (simp add: call_inv_def call_sys_start_def nobody_pushes_def broadcast_at_def shutdowns_sent_def items_new)

lemma shutdowns_push:
  assumes "k < length (core_senders rt)"
  shows "shutdowns_sent items (rt\<lparr>core_senders := (core_senders rt)[k := q_push Q (core_senders rt ! k) m]\<rparr>) i
    = shutdowns_sent items rt i + of_bool (i = k \<and> m = CoreShutdown)"
  using assms by (cases "i = k") (simp_all add: shutdowns_sent_def items_push)

lemma call_inv_same:
  assumes "call_inv items s" "\<not> is_push (calls s t)" "\<not> is_push pc"
    and "num_cores rt = num_cores (sys_rt s)" "length (core_senders rt) = length (core_senders (sys_rt s))"
    and "rt_state rt = rt_state (sys_rt s)"
    and "\<And>i. shutdowns_sent items rt i = shutdowns_sent items (sys_rt s) i"
  shows "call_inv items (s\<lparr>sys_rt := rt, sys_ids := ids, calls := (calls s)(t := pc)\<rparr>)"
proof -
  have "nobody_pushes (s\<lparr>sys_rt := rt, sys_ids := ids, calls := (calls s)(t := pc)\<rparr>) = nobody_pushes s"
    using assms(2,3) by (auto simp: nobody_pushes_def)
  moreover have "broadcast_at items (s\<lparr>sys_rt := rt, sys_ids := ids, calls := (calls s)(t := pc)\<rparr>) k
      = broadcast_at items s k" for k
    using assms(4,7) by (simp add: broadcast_at_def)
  moreover have "calls s t' = ShutdownPush k \<Longrightarrow> t' \<noteq> t" for t' k using assms(2) by auto
  moreover have "is_push (((calls s)(t := pc)) t') = is_push (calls s t')" for t'
    using assms(2,3) by simp
  ultimately show ?thesis
    using assms(1,4-6) unfolding call_inv_def by simp metis
qed

lemma call_inv_cas:
  assumes "call_inv items s" "calls s t = ShutdownCas" "rt_state (sys_rt s) = Running"
  shows "call_inv items (s\<lparr>sys_rt := (sys_rt s)\<lparr>rt_state := ShuttingDown\<rparr>, sys_ids := ids,
    calls := (calls s)(t := ShutdownPush 0)\<rparr>)"
  using assms by (auto simp: call_inv_def nobody_pushes_def broadcast_at_def shutdowns_sent_def)

lemma call_inv_push:
  assumes "call_inv items s" "calls s t = ShutdownPush k"
    and "call_step Q (ShutdownPush k) (sys_rt s, sys_ids s) = Some (pc, rt, ids)"
  shows "call_inv items (s\<lparr>sys_rt := rt, sys_ids := ids, calls := (calls s)(t := pc)\<rparr>)"
proof -
  have inv: "length (core_senders (sys_rt s)) = num_cores (sys_rt s)" "rt_state (sys_rt s) = ShuttingDown"
    "\<And>t'. is_push (calls s t') \<Longrightarrow> t' = t" "broadcast_at items s k"
    using assms(1,2) unfolding call_inv_def nobody_pushes_def by (metis is_push.simps(1) call_pc.inject(1))+
  show ?thesis
  proof (cases "k < num_cores (sys_rt s)")
    case True
    let ?s = "s\<lparr>sys_rt := rt, sys_ids := ids, calls := (calls s)(t := pc)\<rparr>"
    from True inv assms(3) have "broadcast_at items ?s (Suc k)"
      by (auto simp: broadcast_at_def shutdowns_push less_Suc_eq)
    moreover from True inv assms(3) have "calls ?s t = ShutdownPush (Suc k)"
      "\<forall>t'. is_push (calls ?s t') \<longrightarrow> t' = t"
      "length (core_senders (sys_rt ?s)) = num_cores (sys_rt ?s)" "rt_state (sys_rt ?s) = ShuttingDown"
      by auto
    ultimately show ?thesis unfolding call_inv_def by blast
  next
    case False
    then have "k = num_cores (sys_rt s)" using inv(4) by (simp add: broadcast_at_def)
    with inv assms(3) show ?thesis
      by (auto simp: call_inv_def nobody_pushes_def broadcast_at_def)
  qed
qed

lemma call_inv_step:
  assumes "call_sys_step Q s s'" "call_inv items s"
  shows "call_inv items s'"
  using assms
proof cases
  case (call_shutdown t)
  then show ?thesis
    using call_inv_same [OF assms(2), of t ShutdownLoad "sys_rt s" "sys_ids s"] by simp
next
  case (call_spawn t f)
  then show ?thesis
    using call_inv_same [OF assms(2), of t "SpawnLoad f" "sys_rt s" "sys_ids s"] by simp
next
  case (call_return t)
  then have "\<not> is_push (calls s t)" by (cases "calls s t") simp_all
  then show ?thesis
    using call_inv_same [OF assms(2), of t Idle "sys_rt s" "sys_ids s"] call_return by simp
next
  case (call_act t pc rt ids)
  note same = call_inv_same [OF assms(2), of t pc rt ids]
  show ?thesis
  proof (cases "calls s t")
    case (ShutdownPush k)
    with call_inv_push [OF assms(2)] call_act show ?thesis by metis
  next
    case ShutdownCas
    show ?thesis
    proof (cases "rt_state (sys_rt s) = Running")
      case True
      with call_inv_cas [OF assms(2) ShutdownCas, of ids] call_act ShutdownCas show ?thesis
        by (auto simp: cas_state_def)
    qed (use same call_act ShutdownCas in \<open>auto simp: cas_state_def\<close>)
  next
    case (SpawnPush f tid core)
    show ?thesis
    proof (cases "core < length (core_senders (sys_rt s))")
      case True
      with same call_act SpawnPush show ?thesis by (auto simp: spawn_on_core_def shutdowns_push)
    qed (use same call_act SpawnPush in \<open>auto simp: spawn_on_core_def\<close>)
  qed (use same call_act in \<open>auto simp: next_task_id_def fetch_add_def shutdowns_sent_def split: if_splits\<close>)
qed

lemma call_inv_reachable: "call_sys_reachable Q n s \<Longrightarrow> call_inv items s"
  unfolding call_sys_reachable_def
  by (elim exE, erule rtranclp_induct) (auto intro: call_inv_start call_inv_step)

text \<open>Inboxes only grow, at their end.\<close>

lemma call_step_inboxes:
  assumes "call_step Q pc (rt, ids) = Some (pc', rt', ids')"
  shows "length (core_senders rt') = length (core_senders rt)
    \<and> (i < length (core_senders rt) \<longrightarrow>
        (\<exists>ys. items (core_senders rt' ! i) = items (core_senders rt ! i) @ ys))"
  using assms
  by (cases pc) (auto simp: next_task_id_def fetch_add_def cas_state_def spawn_on_core_def items_push
      nth_list_update split: if_splits)

lemma call_sys_step_inboxes:
  assumes "(call_sys_step Q)\<^sup>*\<^sup>* s s'" "i < length (core_senders (sys_rt s))"
  shows "length (core_senders (sys_rt s')) = length (core_senders (sys_rt s))
    \<and> (\<exists>ys. items (core_senders (sys_rt s') ! i) = items (core_senders (sys_rt s) ! i) @ ys)"
  using assms(1)
proof (induction rule: rtranclp_induct)
  case (step t u)
  from step.hyps(2) have "length (core_senders (sys_rt u)) = length (core_senders (sys_rt t))
      \<and> (i < length (core_senders (sys_rt t)) \<longrightarrow>
          (\<exists>ys. items (core_senders (sys_rt u) ! i) = items (core_senders (sys_rt t) ! i) @ ys))"
    by cases (auto dest: call_step_inboxes [where i = i])
  with step.IH assms(2) show ?case by auto
qed simp

end

interpretation list_cores: core_queues list_queue "\<lambda>q. q"
  by (rule core_queues.intro) (rule list_queue.seg_queue_axioms)

text \<open>C3. Shutdown reaches every core exactly once, however many threads call \<open>shutdown\<close> and \<open>spawn\<close>
  at the same time.  No core is ever sent two \<open>Shutdown\<close> messages; when the runtime has left the
  running state and no call is still broadcasting, each core has been sent exactly one; and what
  was sent to a core while the runtime was running stays in front of it.\<close>

theorem shutdown_broadcast_once:
  assumes "seg_queue Q items" "call_sys_reachable Q n s" "i < num_cores (sys_rt s)"
  shows "shutdowns_sent items (sys_rt s) i \<le> 1
    \<and> (rt_state (sys_rt s) \<noteq> Running \<and> nobody_pushes s \<longrightarrow> shutdowns_sent items (sys_rt s) i = 1)
    \<and> (rt_state (sys_rt s) = Running \<and> (call_sys_step Q)\<^sup>*\<^sup>* s s' \<longrightarrow>
        CoreShutdown \<notin> set (items (core_senders (sys_rt s) ! i))
        \<and> (\<exists>ys. items (core_senders (sys_rt s') ! i) = items (core_senders (sys_rt s) ! i) @ ys))"
proof -
  have q: "core_queues Q items" using assms(1) by (rule core_queues.intro)
  note inv = core_queues.call_inv_reachable [OF q assms(2), unfolded call_inv_def]
  have "shutdowns_sent items (sys_rt s) i \<le> 1"
    using inv assms(3) by (auto simp: broadcast_at_def of_bool_def split: if_splits)
  moreover have "shutdowns_sent items (sys_rt s) i = 1" if "rt_state (sys_rt s) \<noteq> Running" "nobody_pushes s"
    using inv assms(3) that by (auto simp: broadcast_at_def nobody_pushes_def) (metis is_push.simps(1))
  moreover have "CoreShutdown \<notin> set (items (core_senders (sys_rt s) ! i))" if "rt_state (sys_rt s) = Running"
  proof -
    have "shutdowns_sent items (sys_rt s) i = 0" using inv assms(3) that by (auto simp: broadcast_at_def)
    then show ?thesis by (simp add: shutdowns_sent_def count_list_0_iff)
  qed
  ultimately show ?thesis
    using core_queues.call_sys_step_inboxes [OF q, of s s' i] inv assms(3) by auto
qed

text \<open>A schedule: which thread begins which call, or takes the next step of its call.\<close>

fun play :: "('q, 'f core_message) queue_ops \<Rightarrow> (nat \<times> 'f call_pc option) list \<Rightarrow> ('f, 'q) call_sys
    \<Rightarrow> ('f, 'q) call_sys option" where
  "play Q [] s = Some s"
| "play Q ((t, Some ShutdownLoad) # as) s =
    (if calls s t = Idle then play Q as (s\<lparr>calls := (calls s)(t := ShutdownLoad)\<rparr>) else None)"
| "play Q ((t, Some (SpawnLoad f)) # as) s =
    (if calls s t = Idle then play Q as (s\<lparr>calls := (calls s)(t := SpawnLoad f)\<rparr>) else None)"
| "play Q ((t, None) # as) s =
    (case call_step Q (calls s t) (sys_rt s, sys_ids s) of
       None \<Rightarrow> None
     | Some (pc, rt, ids) \<Rightarrow> play Q as (s\<lparr>sys_rt := rt, sys_ids := ids, calls := (calls s)(t := pc)\<rparr>))"
| "play Q _ s = None"

lemma play_steps: "play Q as s = Some s' \<Longrightarrow> (call_sys_step Q)\<^sup>*\<^sup>* s s'"
proof (induction Q as s rule: play.induct)
  case (2 Q t as s)
  then show ?case
    by (auto split: if_splits intro: converse_rtranclp_into_rtranclp call_shutdown)
next
  case (3 Q t f as s)
  then show ?case
    by (auto split: if_splits intro: converse_rtranclp_into_rtranclp call_spawn)
next
  case (4 Q t as s)
  then show ?case
    by (auto split: option.splits prod.splits intro: converse_rtranclp_into_rtranclp call_act)
qed simp_all

text \<open>On one core, thread 0 has found the runtime running and picked the core when thread 1 shuts
  the runtime down; then thread 0 pushes its task.\<close>

abbreviation "late_schedule f \<equiv>
  [(0, Some (SpawnLoad f)), (0, None), (0, None), (0, None), (1, Some ShutdownLoad), (1, None), (1, None),
   (1, None), (1, None), (0, None)]"

lemma play_late:
  "\<exists>s. play Q (late_schedule f) (call_sys_start Q 1 ids) = Some s
    \<and> core_senders (sys_rt s) = [q_push Q (q_push Q (q_new Q) CoreShutdown) (CoreTask (TaskId ids) f)]
    \<and> calls s 0 = SpawnDone (Inr (TaskId ids)) \<and> calls s 1 = ShutdownDone (Inr ())
    \<and> (\<forall>t. t \<noteq> 0 \<and> t \<noteq> 1 \<longrightarrow> calls s t = Idle) \<and> num_cores (sys_rt s) = 1 \<and> rt_state (sys_rt s) = ShuttingDown"
  by (simp add: call_sys_start_def next_task_id_def fetch_add_def cas_state_def over_def spawn_on_core_def)

theorem shutdown_broadcast_once_witness:
  "\<exists>s :: (nat, nat core_message list) call_sys. call_sys_reachable list_queue 1 s \<and> rt_state (sys_rt s) = ShuttingDown
     \<and> shutdowns_sent (\<lambda>q. q) (sys_rt s) 0 = 1"
proof -
  obtain s :: "(nat, nat core_message list) call_sys" where
    s: "play list_queue (late_schedule 7) (call_sys_start list_queue 1 1) = Some s"
      "calls s 0 = SpawnDone (Inr (TaskId 1))" "calls s 1 = ShutdownDone (Inr ())"
      "\<forall>t. t \<noteq> 0 \<and> t \<noteq> 1 \<longrightarrow> calls s t = Idle" "num_cores (sys_rt s) = 1" "rt_state (sys_rt s) = ShuttingDown"
    using play_late [of list_queue "7 :: nat" 1] by (elim exE conjE) (rule that)
  have r: "call_sys_reachable list_queue 1 s"
    using play_steps [OF s(1)] by (auto simp: call_sys_reachable_def)
  moreover have "nobody_pushes s"
    unfolding nobody_pushes_def
  proof
    fix t
    show "\<not> is_push (calls s t)" using s(2-4) by (cases "t = 0"; cases "t = 1") auto
  qed
  ultimately show ?thesis
    using shutdown_broadcast_once [OF list_queue.seg_queue_axioms r, of 0 s] s(5,6) by auto
qed

text \<open>C33. An accepted task can be lost.  \<open>spawn\<close> checks the state of the runtime and pushes the
  task later, so a concurrent \<open>shutdown\<close> can send its message in between.  Then \<open>spawn\<close> returns the
  identifier of the task, but the core ends without ever looking at it.\<close>

theorem accepted_task_can_be_lost:
  assumes "seg_queue (inbox_ops E) items" "panic_free (core_futs E)"
  shows "\<exists>s. call_sys_reachable (inbox_ops E) 1 s \<and> calls s 0 = SpawnDone (Inr (TaskId ids))
    \<and> (\<forall>core. message_inbox core = core_senders (sys_rt s) ! 0 \<and> core_wf core \<and> \<not> core_stop core \<longrightarrow>
        (\<exists>core' pushed. core_run E ext k 2 core = Some (Inr core')
          \<and> items (message_inbox core') = CoreTask (TaskId ids) f # pushed))"
proof -
  let ?Q = "inbox_ops E"
  from play_late [of ?Q f ids] obtain s where
    s: "play ?Q (late_schedule f) (call_sys_start ?Q 1 ids) = Some s"
      "core_senders (sys_rt s) = [q_push ?Q (q_push ?Q (q_new ?Q) CoreShutdown) (CoreTask (TaskId ids) f)]"
      "calls s 0 = SpawnDone (Inr (TaskId ids))"
    by blast
  have "call_sys_reachable ?Q 1 s"
    using play_steps [OF s(1)] by (auto simp: call_sys_reachable_def)
  moreover have "items (core_senders (sys_rt s) ! 0) = [] @ CoreShutdown # [CoreTask (TaskId ids) f]"
    using s(2) by (simp add: seg_queue.items_push [OF assms(1)] seg_queue.items_new [OF assms(1)])
  then have "\<exists>core' pushed. core_run E ext k 2 core = Some (Inr core')
      \<and> items (message_inbox core') = CoreTask (TaskId ids) f # pushed"
    if "message_inbox core = core_senders (sys_rt s) ! 0" "core_wf core" "\<not> core_stop core" for core
    using core_loop.core_run_until_shutdown [OF core_loop.intro [OF assms(1)] assms(2) that(2,3), of 1 ext k] that(1)
    by (simp add: numeral_2_eq_2)
  ultimately show ?thesis using s(3) by blast
qed

theorem accepted_task_can_be_lost_witness:
  "\<exists>s core'. call_sys_reachable list_queue 1 s \<and> calls s 0 = SpawnDone (Inr (TaskId 1))
     \<and> core_run demo_core_env (\<lambda>_. []) 0 2 (demo_core (core_senders (sys_rt s) ! 0)) = Some (Inr core')
     \<and> hd (message_inbox core') = CoreTask (TaskId 1) 4"
proof -
  have "seg_queue (inbox_ops demo_core_env) (\<lambda>q. q)" "panic_free (core_futs demo_core_env)"
    using list_queue.seg_queue_axioms panic_free_countdown by simp_all
  from accepted_task_can_be_lost [OF this, of 1 "\<lambda>_. []" 0 4] obtain s where
    s: "call_sys_reachable list_queue 1 s" "calls s 0 = SpawnDone (Inr (TaskId 1))"
      "\<And>core. message_inbox core = core_senders (sys_rt s) ! 0 \<Longrightarrow> core_wf core \<Longrightarrow> \<not> core_stop core \<Longrightarrow>
        \<exists>core' pushed. core_run demo_core_env (\<lambda>_. []) 0 2 core = Some (Inr core')
          \<and> message_inbox core' = CoreTask (TaskId 1) 4 # pushed"
    by auto
  from s(3) [of "demo_core (core_senders (sys_rt s) ! 0)"] core_wf_demo s(1,2) show ?thesis
    by (auto simp: demo_core_def)
qed

section \<open>Distribution of tasks\<close>

text \<open>A sequence of spawns by one thread.\<close>

primrec spawn_all :: "('q, 'f core_message) queue_ops \<Rightarrow> 'f list \<Rightarrow> u64 \<Rightarrow> 'q multi_core_runtime
    \<Rightarrow> (u64 \<times> 'q multi_core_runtime) may_panic" where
  "spawn_all Q [] ids rt = Inr (ids, rt)"
| "spawn_all Q (f # fs) ids rt =
    (case runtime_spawn Q f ids rt of
       Inl e \<Rightarrow> Inl e
     | Inr (r, ids', rt') \<Rightarrow> spawn_all Q fs ids' rt')"

text \<open>The messages for core \<open>c\<close> when the round robin is at \<open>k\<close>.\<close>

primrec dealt :: "nat \<Rightarrow> nat \<Rightarrow> 'f list \<Rightarrow> u64 \<Rightarrow> nat \<Rightarrow> 'f core_message list" where
  "dealt n c [] ids k = []"
| "dealt n c (f # fs) ids k =
    (if k mod n = c then [CoreTask (TaskId ids) f] else []) @ dealt n c fs (ids + 1) (Suc k)"

text \<open>C20. \<open>spawn\<close> deals tasks out to the cores in turn.  On a running runtime with \<open>n\<close> cores no
  spawn panics or fails, and as long as the 64-bit round-robin counter does not wrap, core \<open>c\<close> is
  sent exactly the tasks whose turn is congruent to \<open>c\<close> modulo \<open>n\<close>, in order, with consecutive
  identifiers.\<close>

theorem spawn_deals_in_turn:
  assumes "seg_queue Q items" "rt_state rt = Running" "0 < num_cores rt"
    and "length (core_senders rt) = num_cores rt" "unat (next_core rt) + length fs < 2 ^ 64"
  shows "\<exists>ids' rt'. spawn_all Q fs ids rt = Inr (ids', rt')
    \<and> (\<forall>c < num_cores rt. items (core_senders rt' ! c)
        = items (core_senders rt ! c) @ dealt (num_cores rt) c fs ids (unat (next_core rt)))"
  using assms(2-)
proof (induction fs arbitrary: ids rt)
  case (Cons f fs)
  let ?k = "unat (next_core rt)" and ?qs = "core_senders rt"
  let ?c = "?k mod num_cores rt"
  define rt1 where "rt1 = rt\<lparr>next_core := next_core rt + 1,
    core_senders := ?qs[?c := q_push Q (?qs ! ?c) (CoreTask (TaskId ids) f)]\<rparr>"
  have c: "?c < length ?qs" using Cons.prems by simp
  then have spawn: "runtime_spawn Q f ids rt = Inr (Inr (TaskId ids), ids + 1, rt1)"
    using Cons.prems by (simp add: runtime_spawn_def next_task_id_def fetch_add_def spawn_on_core_def rt1_def)
  have "unat (next_core rt + 1) = Suc ?k"
    using Cons.prems(4) by (subst unat_add_lem [THEN iffD1]) simp_all
  then have rt1: "rt_state rt1 = Running" "num_cores rt1 = num_cores rt" "unat (next_core rt1) = Suc ?k"
    "length (core_senders rt1) = num_cores rt1"
    using Cons.prems by (simp_all add: rt1_def)
  moreover have "items (core_senders rt1 ! i)
      = items (?qs ! i) @ (if ?c = i then [CoreTask (TaskId ids) f] else [])" for i
    using c seg_queue.items_push [OF assms(1)] by (simp add: rt1_def nth_list_update)
  ultimately show ?case
    using Cons.IH [of rt1 "ids + 1"] Cons.prems(2,4) spawn by auto
qed simp

theorem spawn_deals_in_turn_witness:
  "\<exists>ids' rt'. spawn_all list_queue [10 :: nat, 11, 12, 13, 14] 1
      \<lparr>num_cores = 2, core_senders = [[], [CorePing 0]], rt_state = Running, next_core = 0\<rparr> = Inr (ids', rt')
    \<and> core_senders rt' ! 1 = [CorePing 0, CoreTask (TaskId 2) 11, CoreTask (TaskId 4) 13]"
proof -
  let ?rt = "\<lparr>num_cores = 2, core_senders = [[], [CorePing 0]], rt_state = Running, next_core = 0\<rparr>"
  from spawn_deals_in_turn [OF list_queue.seg_queue_axioms, of ?rt "[10 :: nat, 11, 12, 13, 14]" 1]
  obtain ids' rt' where "spawn_all list_queue [10 :: nat, 11, 12, 13, 14] 1 ?rt = Inr (ids', rt')"
    "core_senders rt' ! 1 = [CorePing 0] @ dealt 2 1 [10 :: nat, 11, 12, 13, 14] 1 0"
    by (simp del: spawn_all.simps dealt.simps) fastforce
  moreover have "dealt 2 1 [10 :: nat, 11, 12, 13, 14] 1 0 = [CoreTask (TaskId 2) 11, CoreTask (TaskId 4) 13]"
    by simp
  ultimately show ?thesis by (metis append_Cons append_Nil)
qed

end
