(* ===== verification/Sockaddr.thy ===== *)
theory Sockaddr
  imports Io
begin

text \<open>
  What the I/O backends of \<open>src/io\<close> share: the conversions between \<open>SocketAddr\<close> and the
  \<open>sockaddr_storage\<close> of the C library, and buffers that a system call fills.
\<close>

section \<open>Socket addresses\<close>

unbundle bit_operations_syntax

text \<open>\<open>to_be\<close> and \<open>from_be\<close> on a little-endian machine.\<close>

definition swap16 :: "u16 \<Rightarrow> u16" where
  "swap16 x = push_bit 8 x OR drop_bit 8 x"

definition swap32 :: "u32 \<Rightarrow> u32" where
  "swap32 x = push_bit 24 (x AND 0xFF) OR push_bit 8 (x AND 0xFF00) OR drop_bit 8 (x AND 0xFF0000)
     OR drop_bit 24 x"

text \<open>\<open>Ipv6Addr::octets\<close> and \<open>Ipv6Addr::from\<close>: most significant byte first.\<close>

definition octets :: "128 word \<Rightarrow> u8 list" where
  "octets a = map (\<lambda>i. of_nat (unat a div 256 ^ (15 - i) mod 256)) [0..<16]"

definition from_octets :: "u8 list \<Rightarrow> 128 word" where
  "from_octets bs = of_nat (foldl (\<lambda>n b. 256 * n + unat b) 0 bs)"

text \<open>A \<open>sockaddr_storage\<close> that holds a \<open>sockaddr_in\<close> (port, address), a \<open>sockaddr_in6\<close> (port, flow
  information, address, scope), or an address of another family.\<close>

datatype sockaddr_storage =
    SockaddrIn u16 u32
  | SockaddrIn6 u16 u32 "u8 list" u32
  | SockaddrOther u16

fun encode_addr :: "socket_addr \<Rightarrow> sockaddr_storage" where
  "encode_addr (SocketAddrV4 ip port) = SockaddrIn (swap16 port) (swap32 ip)"
| "encode_addr (SocketAddrV6 ip port flowinfo scope_id) = SockaddrIn6 (swap16 port) flowinfo (octets ip) scope_id"

fun decode_addr :: "sockaddr_storage \<Rightarrow> io_error + socket_addr" where
  "decode_addr (SockaddrIn port s_addr) = Inr (SocketAddrV4 (swap32 s_addr) (swap16 port))"
| "decode_addr (SockaddrIn6 port flowinfo s6_addr scope_id) =
    Inr (SocketAddrV6 (from_octets s6_addr) (swap16 port) flowinfo scope_id)"
| "decode_addr (SockaddrOther _) = Inl (IoErr (SimpleError InvalidData ''Unsupported address family''))"

section \<open>Buffers and system calls\<close>

text \<open>The derived \<open>Clone\<close> of \<open>Buffer\<close>: a new allocation that just fits the contents.\<close>

definition buffer_clone :: "buffer \<Rightarrow> buffer" where
  "buffer_clone b = vec_of (contents b)"

text \<open>The bytes that a system call stored at the start of a buffer.\<close>

definition kernel_fill :: "u8 list \<Rightarrow> buffer \<Rightarrow> buffer" where
  "kernel_fill bytes b = b\<lparr>mem := map Some bytes @ drop (length bytes) (mem b)\<rparr>"

lemma contents_read:
  "length bytes \<le> vcapacity b \<Longrightarrow> contents (set_len (length bytes) (kernel_fill bytes b)) = map Some bytes"
  by (simp add: contents_def set_len_def kernel_fill_def)

lemma pool_get_capacity: "pool_wf p \<Longrightarrow> n \<le> vcapacity (fst (pool_get n p))"
  using pool_get_zeroed [of p n]
  by (simp add: zeroed_buffer_def vec_wf_def buffer_len_def)

section \<open>Socket address conversions\<close>

lemma swap16_swap16: "swap16 (swap16 x) = x"
  unfolding swap16_def
  by (rule bit_word_eqI) (auto simp: bit_simps)

lemma byte_cases:
  fixes n :: nat
  obtains "n < 8" | k where "n = 8 + k" "k < 8" | k where "n = 16 + k" "k < 8"
    | k where "n = 24 + k" "k < 8" | "32 \<le> n"
proof -
  consider "n < 8" | "8 \<le> n" "n - 8 < 8" | "16 \<le> n" "n - 16 < 8" | "24 \<le> n" "n - 24 < 8" | "32 \<le> n"
    by linarith
  then show thesis using that by cases (metis le_add_diff_inverse)+
qed

lemma not_bit_beyond: "32 \<le> n \<Longrightarrow> \<not> bit (x :: u32) n"
  using bit_imp_le_length [of x n] by auto

lemma bit_swap32:
  "k < 8 \<Longrightarrow> bit (swap32 x) k = bit x (24 + k)"
  "k < 8 \<Longrightarrow> bit (swap32 x) (8 + k) = bit x (16 + k)"
  "k < 8 \<Longrightarrow> bit (swap32 x) (16 + k) = bit x (8 + k)"
  "k < 8 \<Longrightarrow> bit (swap32 x) (24 + k) = bit x k"
proof -
  have m: "(0xFF :: u32) = mask 8" "(0xFF00 :: u32) = push_bit 8 (mask 8)"
    "(0xFF0000 :: u32) = push_bit 16 (mask 8)"
    by (simp_all add: mask_eq_exp_minus_1 push_bit_eq_mult)
  show "k < 8 \<Longrightarrow> bit (swap32 x) k = bit x (24 + k)"
    "k < 8 \<Longrightarrow> bit (swap32 x) (8 + k) = bit x (16 + k)"
    "k < 8 \<Longrightarrow> bit (swap32 x) (16 + k) = bit x (8 + k)"
    "k < 8 \<Longrightarrow> bit (swap32 x) (24 + k) = bit x k"
    unfolding swap32_def m by (auto simp: bit_simps not_bit_beyond)
qed

lemma swap32_swap32: "swap32 (swap32 x) = x"
proof (rule bit_word_eqI)
  fix n
  show "bit (swap32 (swap32 x)) n \<longleftrightarrow> bit x n"
    by (cases n rule: byte_cases) (simp_all add: bit_swap32 not_bit_beyond)
qed

lemma unat_byte: "unat (of_nat (n mod 256) :: u8) = n mod 256"
  by (simp add: unat_of_nat)

lemma foldl_bytes:
  fixes a :: nat
  assumes "m \<le> k"
  shows "foldl (\<lambda>n b. 256 * n + unat (b :: u8)) 0 (map (\<lambda>i. of_nat (a div 256 ^ (k - Suc i) mod 256)) [0..<m])
     = a div 256 ^ (k - m) mod 256 ^ m"
  using assms
proof (induction m)
  case (Suc m)
  define v where "v = a div 256 ^ (k - Suc m)"
  have "k - m = Suc (k - Suc m)" using Suc.prems by simp
  then have d: "a div 256 ^ (k - m) = v div 256"
    unfolding v_def by (metis div_mult2_eq power_Suc2)
  have "v mod 256 ^ Suc m = 256 * (v div 256 mod 256 ^ m) + v mod 256"
    unfolding power_Suc by (rule mod_mult2_eq)
  then show ?case
    using Suc.IH Suc.prems unfolding d by (simp add: unat_byte v_def [symmetric] del: of_nat_mod)
qed simp

lemma from_octets_octets: "from_octets (octets a) = a"
proof -
  have lt: "unat a < 256 ^ 16" using unsigned_less [of a] by simp
  have "15 - i = 16 - Suc i" for i :: nat by simp
  then have "octets a = map (\<lambda>i. of_nat (unat a div 256 ^ (16 - Suc i) mod 256)) [0..<16]"
    unfolding octets_def by presburger
  then have "foldl (\<lambda>n b. 256 * n + unat (b :: u8)) 0 (octets a) = unat a mod 256 ^ 16"
    by (simp only: foldl_bytes [OF order_refl] diff_self_eq_0 power_0 div_by_1)
  then show ?thesis
    using lt by (simp add: from_octets_def)
qed

section \<open>Properties\<close>

text \<open>C37. A socket address survives the conversion into a \<open>sockaddr_storage\<close> and back: ports and
  IPv4 addresses through network byte order, IPv6 addresses through their octets.\<close>

theorem sockaddr_roundtrip: "decode_addr (encode_addr a) = Inr a"
  by (cases a) (simp_all add: swap16_swap16 swap32_swap32 from_octets_octets)

end
