(* ===== verification/Uring.thy ===== *)
theory Uring
  imports Sockaddr
begin

text \<open>
  The io_uring backend of \<open>src/io/uring.rs\<close>.

  The \<open>io_uring\<close> crate and the kernel are arguments: pushing a submission entry (which fails when
  the queue is full), submitting, and draining the completion queue.  The kernel works on memory
  that the pending operation owns; what it stored there is part of the completion event: the bytes
  written to the buffer of the operation and the address stored in its \<open>sockaddr_storage\<close>.  An entry
  carries the allocations its pointers reach, so that lifetimes can be stated; the entry of a write
  also carries the bytes at its address.
\<close>

section \<open>Pending operations\<close>

datatype pending_op =
    PRead op buffer
  | PWrite op buffer
  | PAccept op sockaddr_storage
  | PFsync op
  | PClose op
  | PReadFile op buffer
  | PWriteFile op buffer
  | PUdpRecv op buffer sockaddr_storage
  | PUdpSend op buffer sockaddr_storage

text \<open>The kinds of heap allocations that a submission involves.\<close>

datatype alloc = BufferMem | AddrStorage | AddrLen | IoVec | MsgHdr

fun owned :: "pending_op \<Rightarrow> alloc set" where
  "owned (PRead _ _) = {BufferMem}"
| "owned (PWrite _ _) = {BufferMem}"
| "owned (PAccept _ _) = {AddrStorage, AddrLen}"
| "owned (PFsync _) = {}"
| "owned (PClose _) = {}"
| "owned (PReadFile _ _) = {BufferMem}"
| "owned (PWriteFile _ _) = {BufferMem}"
| "owned (PUdpRecv _ _ _) = {BufferMem, AddrStorage, AddrLen}"
| "owned (PUdpSend _ _ _) = {BufferMem, AddrStorage, AddrLen}"

datatype opcode = OcAccept | OcRead | OcWrite | OcFsync | OcClose | OcRecvMsg | OcSendMsg

record sqe =
  sqe_opcode :: opcode
  sqe_fd :: raw_fd
  sqe_len :: u32
  sqe_offset :: u64
  sqe_user_data :: u64
  sqe_data :: "cell list"
  sqe_reaches :: "alloc set"

record cqe =
  cqe_user_data :: u64
  cqe_result :: int
  cqe_written :: "u8 list"
  cqe_addr :: sockaddr_storage

text \<open>The \<open>match\<close> of \<open>submit\<close>: the entry, the pending operation and the pool after it.\<close>

definition zeroed_storage :: sockaddr_storage where
  "zeroed_storage = SockaddrOther 0"

fun uring_prepare :: "op \<Rightarrow> u64 \<Rightarrow> pool \<Rightarrow> sqe \<times> pending_op \<times> pool" where
  "uring_prepare (OpAccept fd) ud p =
    (\<lparr>sqe_opcode = OcAccept, sqe_fd = fd, sqe_len = 0, sqe_offset = 0, sqe_user_data = ud, sqe_data = [],
      sqe_reaches = {AddrStorage, AddrLen}\<rparr>, PAccept (OpAccept fd) zeroed_storage, p)"
| "uring_prepare (OpRead fd offset len) ud p =
    (let (buf, p') = pool_get len p in
     (\<lparr>sqe_opcode = OcRead, sqe_fd = fd, sqe_len = of_nat len, sqe_offset = offset, sqe_user_data = ud, sqe_data = [],
       sqe_reaches = {BufferMem}\<rparr>, PRead (OpRead fd offset len) buf, p'))"
| "uring_prepare (OpWrite fd offset data) ud p =
    (\<lparr>sqe_opcode = OcWrite, sqe_fd = fd, sqe_len = of_nat (buffer_len data), sqe_offset = offset,
      sqe_user_data = ud, sqe_data = contents data, sqe_reaches = {BufferMem}\<rparr>, PWrite (OpWrite fd offset (buffer_clone data)) data, p)"
| "uring_prepare (OpFsync fd) ud p =
    (\<lparr>sqe_opcode = OcFsync, sqe_fd = fd, sqe_len = 0, sqe_offset = 0, sqe_user_data = ud, sqe_data = [], sqe_reaches = {}\<rparr>,
     PFsync (OpFsync fd), p)"
| "uring_prepare (OpClose fd) ud p =
    (\<lparr>sqe_opcode = OcClose, sqe_fd = fd, sqe_len = 0, sqe_offset = 0, sqe_user_data = ud, sqe_data = [], sqe_reaches = {}\<rparr>,
     PClose (OpClose fd), p)"
| "uring_prepare (OpReadFile fd offset len) ud p =
    (let (buf, p') = pool_get len p in
     (\<lparr>sqe_opcode = OcRead, sqe_fd = fd, sqe_len = of_nat len, sqe_offset = offset, sqe_user_data = ud, sqe_data = [],
       sqe_reaches = {BufferMem}\<rparr>, PReadFile (OpReadFile fd offset len) buf, p'))"
| "uring_prepare (OpWriteFile fd offset data) ud p =
    (\<lparr>sqe_opcode = OcWrite, sqe_fd = fd, sqe_len = of_nat (buffer_len data), sqe_offset = offset,
      sqe_user_data = ud, sqe_data = contents data, sqe_reaches = {BufferMem}\<rparr>, PWriteFile (OpWriteFile fd offset (buffer_clone data)) data, p)"
| "uring_prepare (OpUdpRecv fd buffer) ud p =
    (\<lparr>sqe_opcode = OcRecvMsg, sqe_fd = fd, sqe_len = 0, sqe_offset = 0, sqe_user_data = ud, sqe_data = [],
      sqe_reaches = {MsgHdr, IoVec, AddrStorage, BufferMem}\<rparr>,
     PUdpRecv (OpUdpRecv fd (buffer_clone buffer)) buffer zeroed_storage, p)"
| "uring_prepare (OpUdpSend fd data addr) ud p =
    (\<lparr>sqe_opcode = OcSendMsg, sqe_fd = fd, sqe_len = 0, sqe_offset = 0, sqe_user_data = ud, sqe_data = [],
      sqe_reaches = {MsgHdr, IoVec, AddrStorage, BufferMem}\<rparr>,
     PUdpSend (OpUdpSend fd (buffer_clone data) addr) data (encode_addr addr), p)"

section \<open>The backend\<close>

text \<open>The ring: push an entry (whether it fitted), submit, drain the completions.\<close>

record 'r ring_ops =
  ring_push :: "sqe \<Rightarrow> 'r \<Rightarrow> bool \<times> 'r"
  ring_submit :: "'r \<Rightarrow> 'r"
  ring_completions :: "'r \<Rightarrow> cqe list \<times> 'r"

record 'r uring =
  ring :: 'r
  pending_ops :: "u64 \<rightharpoonup> pending_op"
  ur_pool :: pool

text \<open>\<open>opened\<close> is the result of \<open>IoUring::new\<close>; the pool is that of the thread.\<close>

definition uring_new :: "(u32 \<Rightarrow> std_io_error + 'r) \<Rightarrow> pool \<Rightarrow> u32 \<Rightarrow> std_io_error + 'r uring" where
  "uring_new opened p entries =
    (case opened entries of
       Inl e \<Rightarrow> Inl e
     | Inr r \<Rightarrow> Inr \<lparr>ring = r, pending_ops = Map.empty, ur_pool = p\<rparr>)"

definition uring_submit :: "'r ring_ops \<Rightarrow> op \<Rightarrow> u64 \<Rightarrow> 'r uring \<Rightarrow> io_token \<times> u64 \<times> 'r uring" where
  "uring_submit R op counter b =
    (let (token, counter') = io_token_new counter;
         user_data = io_token_id token;
         (entry, pending, p) = uring_prepare op user_data (ur_pool b);
         (pushed, r) = ring_push R entry (ring b);
         b1 = b\<lparr>ring := r, ur_pool := p\<rparr>;
         b2 = (if pushed then b1\<lparr>pending_ops := (pending_ops b1)(user_data \<mapsto> pending)\<rparr> else b1)
     in (token, counter', b2\<lparr>ring := ring_submit R (ring b2)\<rparr>))"

definition os_error :: "int \<Rightarrow> io_error" where
  "os_error result = IoErr (OsError (- result))"

definition read_result :: "cqe \<Rightarrow> (usize \<Rightarrow> buffer \<Rightarrow> completion_kind) \<Rightarrow> buffer \<Rightarrow> pool \<Rightarrow> io_result \<times> pool" where
  "read_result c kind buf p =
    (let buf = kernel_fill (cqe_written c) buf in
     if cqe_result c < 0 then (Inl (os_error (cqe_result c)), recycle buf p)
     else let bytes_read = nat (cqe_result c) in (Inr (kind bytes_read (set_len bytes_read buf)), p))"

definition write_result :: "cqe \<Rightarrow> (usize \<Rightarrow> completion_kind) \<Rightarrow> buffer \<Rightarrow> pool \<Rightarrow> io_result \<times> pool" where
  "write_result c kind data p =
    (let p' = recycle data p in
     if cqe_result c < 0 then (Inl (os_error (cqe_result c)), p')
     else (Inr (kind (nat (cqe_result c))), p'))"

definition udp_recv_result :: "cqe \<Rightarrow> buffer \<Rightarrow> pool \<Rightarrow> io_result \<times> pool" where
  "udp_recv_result c buffer p =
    (let buffer = kernel_fill (cqe_written c) buffer in
     if cqe_result c < 0 then (Inl (os_error (cqe_result c)), recycle buffer p)
     else let bytes_read = nat (cqe_result c); buffer = set_len bytes_read buffer in
       case decode_addr (cqe_addr c) of
         Inr sa \<Rightarrow> (Inr (CUdpRecv bytes_read buffer sa), p)
       | Inl e \<Rightarrow> (Inl e, p))"

definition udp_send_result :: "cqe \<Rightarrow> buffer \<Rightarrow> io_result" where
  "udp_send_result c data =
    (if cqe_result c < 0 then Inl (os_error (cqe_result c)) else Inr (CUdpSend (nat (cqe_result c)) data))"

definition unit_result :: "cqe \<Rightarrow> completion_kind \<Rightarrow> io_result" where
  "unit_result c kind = (if cqe_result c < 0 then Inl (os_error (cqe_result c)) else Inr kind)"

fun complete_op :: "cqe \<Rightarrow> pending_op \<Rightarrow> pool \<Rightarrow> (op \<times> io_result) \<times> pool" where
  "complete_op c (PAccept op _) p =
    ((op, if cqe_result c < 0 then Inl (os_error (cqe_result c))
          else case decode_addr (cqe_addr c) of
            Inr sa \<Rightarrow> Inr (CAccept (cqe_result c) (Some sa))
          | Inl e \<Rightarrow> Inl e), p)"
| "complete_op c (PRead op buf) p = (let (r, p') = read_result c CRead buf p in ((op, r), p'))"
| "complete_op c (PWrite op data) p = (let (r, p') = write_result c CWrite data p in ((op, r), p'))"
| "complete_op c (PFsync op) p = ((op, unit_result c CFsync), p)"
| "complete_op c (PClose op) p = ((op, unit_result c CClose), p)"
| "complete_op c (PReadFile op buf) p = (let (r, p') = read_result c CReadFile buf p in ((op, r), p'))"
| "complete_op c (PWriteFile op data) p = (let (r, p') = write_result c CWriteFile data p in ((op, r), p'))"
| "complete_op c (PUdpRecv op buffer _) p = (let (r, p') = udp_recv_result c buffer p in ((op, r), p'))"
| "complete_op c (PUdpSend op data _) p = ((op, udp_send_result c data), p)"

text \<open>The loop over the completion queue; an entry without a pending operation is skipped.\<close>

primrec complete_all :: "cqe list \<Rightarrow> 'r uring \<Rightarrow> completion list \<times> 'r uring" where
  "complete_all [] b = ([], b)"
| "complete_all (c # cs) b =
    (case pending_ops b (cqe_user_data c) of
       None \<Rightarrow> complete_all cs b
     | Some pending \<Rightarrow>
         (let ((op, res), p) = complete_op c pending (ur_pool b);
              b1 = b\<lparr>pending_ops := (pending_ops b)(cqe_user_data c := None), ur_pool := p\<rparr>;
              (completions, b2) = complete_all cs b1
          in ((IoToken (cqe_user_data c), op, res) # completions, b2)))"

definition uring_poll_complete :: "'r ring_ops \<Rightarrow> 'r uring \<Rightarrow> completion list poll \<times> 'r uring" where
  "uring_poll_complete R b =
    (let (cqes, r) = ring_completions R (ring b);
         (completions, b') = complete_all cqes (b\<lparr>ring := r\<rparr>)
     in (if completions = [] then Pending else Ready completions, b'))"

definition UringBackend :: "'r ring_ops \<Rightarrow> 'r uring io_ops" where
  "UringBackend R = \<lparr>io_submit = uring_submit R, io_poll_complete = uring_poll_complete R\<rparr>"

definition uring_in_flight :: "'r uring \<Rightarrow> io_token set" where
  "uring_in_flight b = IoToken ` dom (pending_ops b)"

section \<open>The backend is a provider\<close>

lemma uring_prepare_split:
  obtains e pend p' where "uring_prepare op ud p = (e, pend, p')"
  by (cases "uring_prepare op ud p") auto

lemma uring_submit_effect:
  assumes "uring_submit R op c b = (tok, c', b')"
  shows "tok = IoToken c \<and> c' = c + 1 \<and> dom (pending_ops b') \<subseteq> insert c (dom (pending_ops b))"
  using assms by (auto simp: uring_submit_def io_token_new_def fetch_add_def Let_def split: prod.splits if_splits)

lemma complete_all_spec:
  "complete_all cqes b = (cs, b') \<Longrightarrow>
    set (map fst cs) \<subseteq> uring_in_flight b \<and> distinct (map fst cs)
    \<and> uring_in_flight b' = uring_in_flight b - set (map fst cs)"
proof (induction cqes arbitrary: b cs)
  case (Cons c cqes)
  show ?case
  proof (cases "pending_ops b (cqe_user_data c)")
    case None
    then show ?thesis using Cons by simp
  next
    case (Some pend)
    obtain op res p where op: "complete_op c pend (ur_pool b) = ((op, res), p)" by (cases "complete_op c pend (ur_pool b)") auto
    let ?b1 = "b\<lparr>pending_ops := (pending_ops b)(cqe_user_data c := None), ur_pool := p\<rparr>"
    obtain cs' where cs': "complete_all cqes ?b1 = (cs', b')" and cs: "cs = (IoToken (cqe_user_data c), op, res) # cs'"
      using Cons.prems Some op by (auto simp: Let_def split: prod.splits)
    have fl: "uring_in_flight ?b1 = uring_in_flight b - {IoToken (cqe_user_data c)}"
      by (auto simp: uring_in_flight_def)
    have mem: "IoToken (cqe_user_data c) \<in> uring_in_flight b"
      using Some by (auto simp: uring_in_flight_def)
    show ?thesis using Cons.IH [OF cs'] mem unfolding cs fl by auto
  qed
qed simp

lemma uring_poll_spec:
  assumes "uring_poll_complete R b = (r, b')"
  obtains cqes rg cs where "ring_completions R (ring b) = (cqes, rg)"
    "complete_all cqes (b\<lparr>ring := rg\<rparr>) = (cs, b')" "r = (if cs = [] then Pending else Ready cs)"
  using assms by (auto simp: uring_poll_complete_def Let_def split: prod.splits)

lemma in_flight_ring [simp]: "uring_in_flight (b\<lparr>ring := r\<rparr>) = uring_in_flight b"
  by (simp add: uring_in_flight_def)

lemma uring_poll_tokens:
  assumes "uring_poll_complete R b = (Ready cs, b')"
  shows "set (map fst cs) \<subseteq> uring_in_flight b \<and> distinct (map fst cs)
    \<and> uring_in_flight b' = uring_in_flight b - set (map fst cs)"
proof -
  obtain cqes rg where "complete_all cqes (b\<lparr>ring := rg\<rparr>) = (cs, b')"
    using assms by (elim uring_poll_spec) (simp split: if_splits)
  then show ?thesis by (metis complete_all_spec in_flight_ring)
qed

lemma uring_poll_none:
  assumes "uring_poll_complete R b = (Pending, b')"
  shows "uring_in_flight b' = uring_in_flight b"
proof -
  obtain cqes rg where "complete_all cqes (b\<lparr>ring := rg\<rparr>) = ([], b')"
    using assms by (elim uring_poll_spec) (simp split: if_splits)
  then show ?thesis by (auto dest: complete_all_spec)
qed

interpretation uring: io_provider "UringBackend R" uring_in_flight "\<lambda>_. True" for R
proof unfold_locales
  fix op c b tok c' b'
  assume "io_submit (UringBackend R) op c b = (tok, c', b')"
  then show "tok = IoToken c \<and> c' = c + 1"
    by (auto simp: UringBackend_def dest: uring_submit_effect)
next
  fix b c op tok c' b'
  assume "io_submit (UringBackend R) op c b = (tok, c', b')"
  then have "dom (pending_ops b') \<subseteq> insert c (dom (pending_ops b))"
    by (simp add: UringBackend_def uring_submit_effect)
  from image_mono [OF this, of IoToken]
  show "True \<and> uring_in_flight b' \<subseteq> insert (IoToken c) (uring_in_flight b)"
    by (simp add: uring_in_flight_def)
next
  fix b cs b'
  assume "io_poll_complete (UringBackend R) b = (Ready cs, b')"
  then have "uring_poll_complete R b = (Ready cs, b')" by (simp add: UringBackend_def)
  from uring_poll_tokens [OF this]
  show "True \<and> set (map fst cs) \<subseteq> uring_in_flight b \<and> distinct (map fst cs)
        \<and> uring_in_flight b' \<subseteq> uring_in_flight b - set (map fst cs)"
    by blast
next
  fix b b'
  assume "io_poll_complete (UringBackend R) b = (Pending, b')"
  then show "True \<and> uring_in_flight b' \<subseteq> uring_in_flight b"
    by (simp add: UringBackend_def uring_poll_none)
qed

section \<open>Reads, lost submissions, lifetimes\<close>

text \<open>The completions that \<open>n\<close> further polls of the queue report.\<close>

primrec uring_reap :: "'r ring_ops \<Rightarrow> nat \<Rightarrow> 'r uring \<Rightarrow> completion list" where
  "uring_reap R 0 b = []"
| "uring_reap R (Suc n) b =
    (case uring_poll_complete R b of (r, b') \<Rightarrow>
       (case r of Ready cs \<Rightarrow> cs | Pending \<Rightarrow> []) @ uring_reap R n b')"

lemma uring_reap_tokens: "fst ` set (uring_reap R n b) \<subseteq> uring_in_flight b"
proof (induction n arbitrary: b)
  case (Suc n)
  obtain r b' where poll: "uring_poll_complete R b = (r, b')" by (cases "uring_poll_complete R b") auto
  show ?case
  proof (cases r)
    case (Ready cs)
    then show ?thesis using Suc [of b'] uring_poll_tokens [of R b cs b'] poll by auto
  next
    case Pending
    then show ?thesis using Suc [of b'] uring_poll_none [of R b b'] poll by auto
  qed
qed simp

lemma uring_submit_rejected:
  assumes "\<not> fst (ring_push R (fst (uring_prepare op c (ur_pool b))) (ring b))"
    and "uring_submit R op c b = (tok, c', b')"
  shows "tok = IoToken c \<and> uring_in_flight b' = uring_in_flight b"
  using assms by (auto simp: uring_submit_def io_token_new_def fetch_add_def Let_def uring_in_flight_def
      split: prod.splits)

lemma uring_submit_accepted:
  assumes "\<And>e. fst (ring_push R e (ring b))" "uring_submit R op k b = (tok, k', b')"
  shows "tok = IoToken k" "pending_ops b' k = Some (fst (snd (uring_prepare op k (ur_pool b))))"
proof -
  have "ring_push R e (ring b) \<noteq> (False, r)" for e r using assms(1) [of e] by auto
  then show "tok = IoToken k" "pending_ops b' k = Some (fst (snd (uring_prepare op k (ur_pool b))))"
    using assms(2)
    by (auto simp: uring_submit_def io_token_new_def fetch_add_def Let_def split: prod.splits if_splits)
qed

lemma uring_poll_idle:
  "fst (ring_completions R (ring b)) = [] \<Longrightarrow>
   uring_poll_complete R b = (Pending, b\<lparr>ring := snd (ring_completions R (ring b))\<rparr>)"
  by (cases "ring_completions R (ring b)") (simp add: uring_poll_complete_def)

lemma uring_poll_one:
  assumes "fst (ring_completions R (ring b)) = [c]" "pending_ops b (cqe_user_data c) = Some pend"
  shows "\<exists>b'. uring_poll_complete R b
      = (Ready [(IoToken (cqe_user_data c), fst (complete_op c pend (ur_pool b)))], b')
    \<and> IoToken (cqe_user_data c) \<notin> uring_in_flight b'"
  using assms
  by (cases "ring_completions R (ring b)"; cases "complete_op c pend (ur_pool b)")
    (auto simp: uring_poll_complete_def uring_in_flight_def)

definition is_udp :: "op \<Rightarrow> bool" where
  "is_udp op \<longleftrightarrow> (case op of OpUdpRecv _ _ \<Rightarrow> True | OpUdpSend _ _ _ \<Rightarrow> True | _ \<Rightarrow> False)"

text \<open>A ring of \<open>n\<close> entries over a kernel that finishes every read with the bytes 7, 8.\<close>

definition demo_ring :: "nat \<Rightarrow> sqe list ring_ops" where
  "demo_ring n = \<lparr>ring_push = \<lambda>e q. if length q < n then (True, q @ [e]) else (False, q),
    ring_submit = id,
    ring_completions = \<lambda>q. (map (\<lambda>e. \<lparr>cqe_user_data = sqe_user_data e, cqe_result = 2,
      cqe_written = [7, 8], cqe_addr = SockaddrOther 0\<rparr>) q, [])\<rparr>"

definition demo_uring :: "sqe list uring" where
  "demo_uring = \<lparr>ring = [], pending_ops = Map.empty, ur_pool = []\<rparr>"



text \<open>A read through the ring hands out exactly the bytes that the kernel stored.  After a
  submission that the ring accepted, when the completion queue holds the completion of that read,
  the poll reports it with a buffer whose contents are the bytes written, without the rest of the
  pooled buffer, and the operation is no longer pending.\<close>

theorem uring_read_delivers:
  assumes pool: "pool_wf (ur_pool b)"
    and push: "\<And>e. fst (ring_push R e (ring b))"
    and sub: "uring_submit R (OpRead fd off n) k b = (tok, k', b')"
    and cqes: "fst (ring_completions R (ring b')) = [c]"
    and own: "cqe_user_data c = k" "cqe_result c = int (length (cqe_written c))" "length (cqe_written c) \<le> n"
  shows "\<exists>data b''. uring_poll_complete R b'
      = (Ready [(tok, OpRead fd off n, Inr (CRead (length (cqe_written c)) data))], b'')
    \<and> contents data = map Some (cqe_written c) \<and> tok \<notin> uring_in_flight b''"
proof -
  obtain buf p where get: "pool_get n (ur_pool b) = (buf, p)" by (cases "pool_get n (ur_pool b)")
  let ?data = "set_len (length (cqe_written c)) (kernel_fill (cqe_written c) buf)"
  have pend: "tok = IoToken k" "pending_ops b' (cqe_user_data c) = Some (PRead (OpRead fd off n) buf)"
    using uring_submit_accepted [OF push sub] get own(1) by simp_all
  have "contents ?data = map Some (cqe_written c)"
    using contents_read pool_get_capacity [OF pool, of n] get own(3) by simp
  with uring_poll_one [OF cqes pend(2)] pend(1) own(1,2) show ?thesis
    by (auto simp: read_result_def Let_def)
qed

theorem uring_read_delivers_witness:
  "\<exists>data b''. uring_poll_complete (demo_ring 1) (snd (snd (uring_submit (demo_ring 1) (OpRead 3 0 4) 1 demo_uring)))
      = (Ready [(IoToken 1, OpRead 3 0 4, Inr (CRead 2 data))], b'') \<and> contents data = [Some 7, Some 8]"
  using uring_read_delivers [of demo_uring "demo_ring 1" 3 0 4 1 "IoToken 1" 2
      "snd (snd (uring_submit (demo_ring 1) (OpRead 3 0 4) 1 demo_uring))"
      "\<lparr>cqe_user_data = 1, cqe_result = 2, cqe_written = [7, 8], cqe_addr = SockaddrOther 0\<rparr>"]
  by (auto simp: demo_uring_def demo_ring_def uring_submit_def io_token_new_def fetch_add_def
      pool_wf_def POOL_SIZE_def pool_get_def BUFFER_SIZE_def)

text \<open>C36. A submission that the full ring rejects is lost without a trace: the caller gets a token
  as for any other, but no poll of the completion queue ever reports that token.\<close>

theorem uring_rejected_submission_lost:
  assumes "\<not> fst (ring_push R (fst (uring_prepare op k (ur_pool b))) (ring b))"
    and "pending_ops b k = None" "uring_submit R op k b = (tok, k', b')"
  shows "tok = IoToken k \<and> tok \<notin> fst ` set (uring_reap R n b')"
proof -
  have "tok = IoToken k" "uring_in_flight b' = uring_in_flight b"
    using uring_submit_rejected [OF assms(1,3)] by simp_all
  moreover have "IoToken k \<notin> uring_in_flight b" using assms(2) by (auto simp: uring_in_flight_def)
  ultimately show ?thesis using uring_reap_tokens [of R n b'] by auto
qed

theorem uring_rejected_submission_lost_witness:
  "IoToken 1 \<notin> fst ` set (uring_reap (demo_ring 0) 5
      (snd (snd (uring_submit (demo_ring 0) (OpFsync 3) 1 demo_uring))))"
  using uring_rejected_submission_lost [of "demo_ring 0" "OpFsync 3" 1 demo_uring "IoToken 1" 2
      "snd (snd (uring_submit (demo_ring 0) (OpFsync 3) 1 demo_uring))" 5]
  by (simp add: demo_uring_def demo_ring_def uring_submit_def io_token_new_def fetch_add_def)

text \<open>The allocations that a submitted entry points to live as long as the pending operation,
  except for UDP: the message header and the I/O vector of \<open>recvmsg\<close> and \<open>sendmsg\<close> are not kept,
  so the entry dangles before it is pushed.\<close>

theorem uring_entry_alive_iff:
  "sqe_reaches (fst (uring_prepare op ud p)) \<subseteq> owned (fst (snd (uring_prepare op ud p))) \<longleftrightarrow> \<not> is_udp op"
  by (cases op) (auto simp: is_udp_def split: prod.splits)

end
