(* ===== verification/Net.thy ===== *)
theory Net
  imports Io
begin

text \<open>
  The asynchronous networking and file methods of \<open>src/net.rs\<close> and \<open>src/fs.rs\<close>.

  An \<open>async fn\<close> is written in direct style.  Its only suspension points are awaits of an
  \<open>IoFuture\<close> right after a submission, so the methods take the effect of submitting an operation
  and awaiting its future as an argument \<open>A\<close>: it maps the operation and the world to the result
  and the world after it (theories \<open>Async\<close> and \<open>Async_Net\<close> show that blocking on the polled methods over a
  backend is this direct style over the answers of the backend).  What the operating system promises about an operation is a named contract on \<open>A\<close>.
  The per-CPU buffer pool is passed explicitly.  System calls that are made synchronously are
  arguments as well.
\<close>

type_synonym 'w awaits = "op \<Rightarrow> 'w \<Rightarrow> io_result \<times> 'w"

definition unexpected_kind :: std_io_error where
  "unexpected_kind = SimpleError InvalidData ''Unexpected completion kind''"

text \<open>The bytes of a slice \<open>b[..n]\<close>; the backends only hand out initialised bytes.\<close>

definition slice_to :: "usize \<Rightarrow> buffer \<Rightarrow> u8 list may_panic" where
  "slice_to n b = (if n \<le> vlen b then Inr (map the (take n (as_ref b))) else Inl IndexOutOfBounds)"

section \<open>TCP\<close>

text \<open>\<open>bind\<close> and \<open>set_nonblocking\<close> of the standard library are arguments.\<close>

definition tcp_bind :: "(socket_addr \<Rightarrow> std_io_error + raw_fd) \<Rightarrow> (raw_fd \<Rightarrow> std_io_error + unit)
    \<Rightarrow> socket_addr \<Rightarrow> std_io_error + raw_fd" where
  "tcp_bind sys_bind set_nonblocking addr =
    (case sys_bind addr of
       Inl e \<Rightarrow> Inl e
     | Inr fd \<Rightarrow> (case set_nonblocking fd of Inl e \<Rightarrow> Inl e | Inr _ \<Rightarrow> Inr fd))"

definition tcp_accept :: "'w awaits \<Rightarrow> raw_fd \<Rightarrow> 'w \<Rightarrow> (std_io_error + raw_fd \<times> socket_addr option) \<times> 'w" where
  "tcp_accept A fd w =
    (case A (OpAccept fd) w of
       (Inr (CAccept stream addr), w') \<Rightarrow> (Inr (stream, addr), w')
     | (Inr _, w') \<Rightarrow> (Inl unexpected_kind, w')
     | (Inl e, w') \<Rightarrow> (Inl (io_error_into e), w'))"

text \<open>\<open>read\<close> takes a buffer out of the pool only for its capacity and drops it.\<close>

definition tcp_read :: "'w awaits \<Rightarrow> raw_fd \<Rightarrow> pool \<Rightarrow> 'w
    \<Rightarrow> (std_io_error + usize \<times> buffer) may_panic \<times> pool \<times> 'w" where
  "tcp_read A fd p w =
    (let (buffer, p') = pool_get BUFFER_SIZE p in
     case A (OpRead fd 0 (vcapacity buffer)) w of
       (Inr (CRead bytes_read data), w') \<Rightarrow>
         (case slice_to bytes_read data of
            Inl e \<Rightarrow> (Inl e, p', w')
          | Inr bytes \<Rightarrow>
              (case copy_from_slice bytes (new_zeroed bytes_read) of
                 Inl e \<Rightarrow> (Inl e, p', w')
               | Inr result_buffer \<Rightarrow> (Inr (Inr (bytes_read, result_buffer)), p', w')))
     | (Inr _, w') \<Rightarrow> (Inr (Inl unexpected_kind), p', w')
     | (Inl e, w') \<Rightarrow> (Inr (Inl (io_error_into e)), p', w'))"

definition tcp_write :: "'w awaits \<Rightarrow> raw_fd \<Rightarrow> u8 list \<Rightarrow> 'w \<Rightarrow> (std_io_error + usize) \<times> 'w" where
  "tcp_write A fd buf w =
    (case A (OpWrite fd 0 (from_slice buf)) w of
       (Inr (CWrite bytes_written), w') \<Rightarrow> (Inr bytes_written, w')
     | (Inr _, w') \<Rightarrow> (Inl unexpected_kind, w')
     | (Inl e, w') \<Rightarrow> (Inl (io_error_into e), w'))"

text \<open>\<open>write_all\<close>; \<open>None\<close> when it has not returned within the fuel.\<close>

primrec write_all :: "'w awaits \<Rightarrow> raw_fd \<Rightarrow> nat \<Rightarrow> u8 list \<Rightarrow> 'w
    \<Rightarrow> ((std_io_error + unit) may_panic \<times> 'w) option" where
  "write_all A fd 0 buf w = None"
| "write_all A fd (Suc fuel) buf w =
    (if buf = [] then Some (Inr (Inr ()), w)
     else case tcp_write A fd buf w of
       (Inr n, w') \<Rightarrow>
         (if n = 0 then Some (Inr (Inl (SimpleError WriteZero ''failed to write whole buffer'')), w')
          else if n \<le> length buf then write_all A fd fuel (drop n buf) w'
          else Some (Inl IndexOutOfBounds, w'))
     | (Inl e, w') \<Rightarrow>
         (if error_kind e = Interrupted then write_all A fd fuel buf w'
          else Some (Inr (Inl e), w')))"

text \<open>\<open>From<TcpStream>\<close> ignores the result of \<open>set_nonblocking\<close>.\<close>

definition stream_from :: "(raw_fd \<Rightarrow> std_io_error + unit) \<Rightarrow> raw_fd \<Rightarrow> raw_fd" where
  "stream_from set_nonblocking fd = (case set_nonblocking fd of _ \<Rightarrow> fd)"

section \<open>UDP\<close>

text \<open>A failing \<open>SO_REUSEADDR\<close> is only reported.\<close>

definition udp_bind :: "(socket_addr \<Rightarrow> std_io_error + raw_fd) \<Rightarrow> (raw_fd \<Rightarrow> std_io_error + unit)
    \<Rightarrow> (raw_fd \<Rightarrow> int) \<Rightarrow> (raw_fd \<Rightarrow> std_io_error + unit) \<Rightarrow> socket_addr \<Rightarrow> std_io_error + raw_fd" where
  "udp_bind sys_bind set_nonblocking reuseaddr set_broadcast addr =
    (case sys_bind addr of
       Inl e \<Rightarrow> Inl e
     | Inr fd \<Rightarrow>
         (case set_nonblocking fd of
            Inl e \<Rightarrow> Inl e
          | Inr _ \<Rightarrow>
              (let _ = reuseaddr fd in
               case set_broadcast fd of Inl e \<Rightarrow> Inl e | Inr _ \<Rightarrow> Inr fd)))"

text \<open>\<open>send_to\<close> is the synchronous call of the standard library.\<close>

definition udp_send_to :: "(raw_fd \<Rightarrow> u8 list \<Rightarrow> socket_addr \<Rightarrow> 'w \<Rightarrow> (std_io_error + usize) \<times> 'w)
    \<Rightarrow> raw_fd \<Rightarrow> u8 list \<Rightarrow> socket_addr \<Rightarrow> 'w \<Rightarrow> (std_io_error + usize) \<times> 'w" where
  "udp_send_to sys_send_to fd buf target w = (let result = sys_send_to fd buf target w in result)"

text \<open>The caller's buffer is returned with the received bytes in front.\<close>

definition udp_recv_from :: "'w awaits \<Rightarrow> raw_fd \<Rightarrow> u8 list \<Rightarrow> pool \<Rightarrow> 'w
    \<Rightarrow> (std_io_error + usize \<times> socket_addr) may_panic \<times> u8 list \<times> pool \<times> 'w" where
  "udp_recv_from A fd buf p w =
    (let (buffer_for_recv, p') = pool_get (length buf) p in
     case A (OpUdpRecv fd buffer_for_recv) w of
       (Inr (CUdpRecv bytes_read buffer addr), w') \<Rightarrow>
         (let bytes_to_copy = min bytes_read (length buf) in
          case slice_to bytes_to_copy buffer of
            Inl e \<Rightarrow> (Inl e, buf, p', w')
          | Inr bytes \<Rightarrow>
              (Inr (Inr (bytes_read, addr)), bytes @ drop bytes_to_copy buf, recycle buffer p', w'))
     | (Inr _, w') \<Rightarrow>
         (Inr (Inl (SimpleError InvalidData ''Unexpected completion kind for UdpRecv'')), buf, p', w')
     | (Inl e, w') \<Rightarrow> (Inr (Inl (io_error_into e)), buf, p', w'))"

section \<open>Files\<close>

unbundle bit_operations_syntax

text \<open>\<open>fcntl\<close> is an argument: the flags of a descriptor and the result of setting them.  \<open>known\<close> are
  the bits that \<open>OFlag::from_bits_truncate\<close> keeps; \<open>O_NONBLOCK\<close> is 2048 on Linux.\<close>

definition O_NONBLOCK :: u32 where
  "O_NONBLOCK = 2048"

definition set_file_nonblocking :: "(raw_fd \<Rightarrow> string + u32) \<Rightarrow> (raw_fd \<Rightarrow> u32 \<Rightarrow> string + unit) \<Rightarrow> u32 \<Rightarrow> raw_fd
    \<Rightarrow> std_io_error + raw_fd" where
  "set_file_nonblocking getfl setfl known fd =
    (case getfl fd of
       Inl e \<Rightarrow> Inl (SimpleError OtherKind e)
     | Inr flags \<Rightarrow>
         (case setfl fd ((flags AND known) OR O_NONBLOCK) of
            Inl e \<Rightarrow> Inl (SimpleError OtherKind e)
          | Inr _ \<Rightarrow> Inr fd))"

definition file_open :: "(string \<Rightarrow> std_io_error + raw_fd) \<Rightarrow> (raw_fd \<Rightarrow> string + u32)
    \<Rightarrow> (raw_fd \<Rightarrow> u32 \<Rightarrow> string + unit) \<Rightarrow> u32 \<Rightarrow> string \<Rightarrow> std_io_error + raw_fd" where
  "file_open sys_open getfl setfl known path =
    (case sys_open path of Inl e \<Rightarrow> Inl e | Inr fd \<Rightarrow> set_file_nonblocking getfl setfl known fd)"

definition file_create :: "(string \<Rightarrow> std_io_error + raw_fd) \<Rightarrow> (raw_fd \<Rightarrow> string + u32)
    \<Rightarrow> (raw_fd \<Rightarrow> u32 \<Rightarrow> string + unit) \<Rightarrow> u32 \<Rightarrow> string \<Rightarrow> std_io_error + raw_fd" where
  "file_create sys_create getfl setfl known path =
    (case sys_create path of Inl e \<Rightarrow> Inl e | Inr fd \<Rightarrow> set_file_nonblocking getfl setfl known fd)"

definition read_at :: "'w awaits \<Rightarrow> raw_fd \<Rightarrow> u64 \<Rightarrow> usize \<Rightarrow> 'w \<Rightarrow> (std_io_error + usize \<times> buffer) \<times> 'w" where
  "read_at A fd offset len w =
    (case A (OpReadFile fd offset len) w of
       (Inr (CReadFile bytes_read data), w') \<Rightarrow> (Inr (bytes_read, data), w')
     | (Inr _, w') \<Rightarrow> (Inl unexpected_kind, w')
     | (Inl e, w') \<Rightarrow> (Inl (io_error_into e), w'))"

definition write_at :: "'w awaits \<Rightarrow> raw_fd \<Rightarrow> u64 \<Rightarrow> u8 list \<Rightarrow> pool \<Rightarrow> 'w
    \<Rightarrow> (std_io_error + usize) may_panic \<times> pool \<times> 'w" where
  "write_at A fd offset buf p w =
    (let (b, p') = pool_get (length buf) p in
     case copy_from_slice buf b of
       Inl e \<Rightarrow> (Inl e, p', w)
     | Inr buffer \<Rightarrow>
         (case A (OpWriteFile fd offset buffer) w of
            (Inr (CWriteFile bytes_written), w') \<Rightarrow> (Inr (Inr bytes_written), p', w')
          | (Inr _, w') \<Rightarrow> (Inr (Inl unexpected_kind), p', w')
          | (Inl e, w') \<Rightarrow> (Inr (Inl (io_error_into e)), p', w')))"

definition sync_all :: "'w awaits \<Rightarrow> raw_fd \<Rightarrow> 'w \<Rightarrow> (std_io_error + unit) \<times> 'w" where
  "sync_all A fd w =
    (case A (OpFsync fd) w of
       (Inr CFsync, w') \<Rightarrow> (Inr (), w')
     | (Inr _, w') \<Rightarrow> (Inl unexpected_kind, w')
     | (Inl e, w') \<Rightarrow> (Inl (io_error_into e), w'))"

section \<open>Writing everything\<close>

text \<open>What the operating system promises about writing to a connected socket: it takes a prefix of
  the data and appends it to the stream, or fails and takes nothing.  \<open>patience\<close> bounds how often
  in a row a write is interrupted.\<close>

definition sink_contract :: "'w awaits \<Rightarrow> raw_fd \<Rightarrow> ('w \<Rightarrow> u8 list) \<Rightarrow> ('w \<Rightarrow> nat) \<Rightarrow> bool" where
  "sink_contract A fd sent patience \<longleftrightarrow>
    (\<forall>data w r w'. A (OpWrite fd 0 (from_slice data)) w = (r, w') \<longrightarrow>
      (case r of
         Inr (CWrite n) \<Rightarrow> n \<le> length data \<and> sent w' = sent w @ take n data \<and> patience w' \<le> patience w
       | Inr _ \<Rightarrow> sent w' = sent w
       | Inl e \<Rightarrow> sent w' = sent w
           \<and> (error_kind (io_error_into e) = Interrupted \<longrightarrow> patience w' < patience w)))"

lemma tcp_write_sink:
  assumes "sink_contract A fd sent patience" "tcp_write A fd data w = (r, w')"
  shows "case r of
      Inr n \<Rightarrow> n \<le> length data \<and> sent w' = sent w @ take n data \<and> patience w' \<le> patience w
    | Inl e \<Rightarrow> sent w' = sent w \<and> (error_kind e = Interrupted \<longrightarrow> patience w' < patience w)"
proof -
  obtain res w1 where res: "A (OpWrite fd 0 (from_slice data)) w = (res, w1)" by fastforce
  with assms(1) have "case res of
         Inr (CWrite n) \<Rightarrow> n \<le> length data \<and> sent w1 = sent w @ take n data \<and> patience w1 \<le> patience w
       | Inr _ \<Rightarrow> sent w1 = sent w
       | Inl e \<Rightarrow> sent w1 = sent w
           \<and> (error_kind (io_error_into e) = Interrupted \<longrightarrow> patience w1 < patience w)"
    unfolding sink_contract_def by blast
  with res assms(2) show ?thesis
    by (auto simp: tcp_write_def unexpected_kind_def split: sum.splits completion_kind.splits)
qed

lemma write_all_sink:
  assumes "sink_contract A fd sent patience" "length buf + patience w < fuel"
  shows "\<exists>r k w'. write_all A fd fuel buf w = Some (Inr r, w') \<and> k \<le> length buf
    \<and> sent w' = sent w @ take k buf \<and> (r = Inr () \<longleftrightarrow> k = length buf)"
  using assms(2)
proof (induction fuel arbitrary: buf w)
  case (Suc fuel)
  show ?case
  proof (cases "buf = []")
    case False
    obtain res w1 where w1: "tcp_write A fd buf w = (res, w1)" by fastforce
    note sink = tcp_write_sink [OF assms(1) w1]
    show ?thesis
    proof (cases res)
      case (Inl e)
      show ?thesis
      proof (cases "error_kind e = Interrupted")
        case True
        with Suc.IH [of buf w1] sink Inl Suc.prems w1 False show ?thesis by auto
      qed (use sink Inl w1 False in auto)
    next
      case (Inr n)
      show ?thesis
      proof (cases "n = 0")
        case True
        with sink Inr w1 False show ?thesis by auto
      next
        case n: False
        with sink Inr Suc.prems have "length (drop n buf) + patience w1 < fuel" by auto
        from Suc.IH [OF this] obtain r k w' where
          r: "write_all A fd fuel (drop n buf) w1 = Some (Inr r, w')" "k \<le> length (drop n buf)"
            "sent w' = sent w1 @ take k (drop n buf)" "r = Inr () \<longleftrightarrow> k = length (drop n buf)"
          by blast
        with sink Inr w1 False n show ?thesis
          by (intro exI [of _ r] exI [of _ "n + k"] exI [of _ w']) (auto simp: take_add)
      qed
    qed
  qed auto
qed simp

text \<open>C13. \<open>write_all\<close> writes everything, once and in order.  If each write takes a prefix of what it
  is given or fails, and is interrupted only finitely often in a row, then \<open>write_all\<close> returns
  without a panic; it has sent a prefix of the buffer, and it reports success exactly when that
  prefix is the whole buffer.\<close>

theorem write_all_sends_everything:
  assumes "sink_contract A fd sent patience" "length buf + patience w < fuel"
  shows "\<exists>r k w'. write_all A fd fuel buf w = Some (Inr r, w') \<and> k \<le> length buf
    \<and> sent w' = sent w @ take k buf \<and> (r = Inr () \<longleftrightarrow> k = length buf)"
  using assms by (rule write_all_sink)

text \<open>A socket that takes two bytes at a time and is interrupted once.\<close>

definition slow_socket :: "(u8 list \<times> nat) awaits" where
  "slow_socket op w =
    (case op of
       OpWrite fd off data \<Rightarrow>
         (if snd w = 0 then (Inr (CWrite (min 2 (vlen data))), fst w @ map the (take 2 (contents data)), 0)
          else (Inl (IoErr (OsError 4)), fst w, snd w - 1))
     | _ \<Rightarrow> (Inl (IoOther ''unsupported''), w))"

lemma slow_socket_sink: "sink_contract slow_socket fd fst snd"
  by (auto simp: sink_contract_def slow_socket_def from_slice_def vec_of_def contents_def
      take_map comp_def min_def split: if_splits)

theorem write_all_sends_everything_witness:
  "\<exists>r k w'. write_all slow_socket 3 20 [1, 2, 3, 4, 5] ([9], 1) = Some (Inr r, w') \<and> k \<le> length [1 :: u8, 2, 3, 4, 5]
    \<and> fst w' = fst ([9], 1 :: nat) @ take k [1, 2, 3, 4, 5] \<and> (r = Inr () \<longleftrightarrow> k = length [1 :: u8, 2, 3, 4, 5])"
  by (rule write_all_sends_everything [OF slow_socket_sink]) simp

section \<open>Reading back what was written\<close>

definition overwrite_at :: "nat \<Rightarrow> u8 list \<Rightarrow> u8 list \<Rightarrow> u8 list" where
  "overwrite_at off xs c = take off (c @ replicate (off - length c) 0) @ xs @ drop (off + length xs) c"

text \<open>What the operating system promises about a regular file: a write replaces bytes at the offset
  (filling a gap with zeros), a read returns bytes that are there, and either may be short.\<close>

definition file_contract :: "'w awaits \<Rightarrow> raw_fd \<Rightarrow> ('w \<Rightarrow> u8 list) \<Rightarrow> bool" where
  "file_contract A fd content \<longleftrightarrow>
    (\<forall>off b bytes n w w'. contents b = map Some bytes \<longrightarrow> A (OpWriteFile fd off b) w = (Inr (CWriteFile n), w') \<longrightarrow>
       n \<le> length bytes \<and> content w' = overwrite_at (unat off) (take n bytes) (content w))
    \<and> (\<forall>off len n b w w'. A (OpReadFile fd off len) w = (Inr (CReadFile n b), w') \<longrightarrow>
       n \<le> len \<and> n \<le> vlen b \<and> vec_wf b
       \<and> take n (contents b) = map Some (take n (drop (unat off) (content w))) \<and> n \<le> length (content w) - unat off
       \<and> content w' = content w)"

lemma drop_overwrite_at: "drop off (overwrite_at off xs c) = xs @ drop (off + length xs) c"
proof -
  have "length (take off (c @ replicate (off - length c) 0)) = off" by (simp add: min_def)
  then show ?thesis unfolding overwrite_at_def by (simp add: drop_append del: append_take_drop_id)
qed

lemma write_at_op:
  assumes "pool_wf p" "write_at A fd off buf p w = (Inr (Inr n), p', w')"
  shows "\<exists>b. contents b = map Some buf \<and> A (OpWriteFile fd off b) w = (Inr (CWriteFile n), w')"
proof -
  obtain b p1 where b: "pool_get (length buf) p = (b, p1)" by fastforce
  then have "vec_wf b" using pool_get_zeroed [OF assms(1), of "length buf"] by (simp add: zeroed_buffer_def)
  from copy_from_slice_contents [OF this, of buf] obtain b' where
    "copy_from_slice buf b = Inr b'" "contents b' = map Some buf" by blast
  with b assms(2) show ?thesis
    by (auto simp: write_at_def split: prod.splits sum.splits completion_kind.splits)
qed


text \<open>A file in memory.\<close>

definition ram_file :: "u8 list awaits" where
  "ram_file op w =
    (case op of
       OpWriteFile fd off b \<Rightarrow>
         (Inr (CWriteFile (length (contents b))), overwrite_at (unat off) (map the (contents b)) w)
     | OpReadFile fd off len \<Rightarrow>
         (let bytes = take len (drop (unat off) w) in (Inr (CReadFile (length bytes) (from_slice bytes)), w))
     | _ \<Rightarrow> (Inl (IoOther ''unsupported''), w))"

lemma ram_file_contract: "file_contract ram_file fd (\<lambda>w. w)"
  unfolding file_contract_def
proof (intro conjI allI impI)
  fix off b bytes n w w'
  assume "contents b = map Some bytes" "ram_file (OpWriteFile fd off b) w = (Inr (CWriteFile n), w')"
  then show "n \<le> length bytes" "w' = overwrite_at (unat off) (take n bytes) w"
    by (auto simp: ram_file_def comp_def)
qed (auto simp: ram_file_def Let_def from_slice_def vec_of_def contents_def vec_wf_def vcapacity_def take_map min_def)


end
