(* ===== verification/Async.thy ===== *)
theory Async
  imports Block_On Net
begin

text \<open>
  Asynchronous functions as the compiler makes them: state machines that are polled.

  Theory \<open>Net\<close> writes the methods of \<open>src/net.rs\<close> and \<open>src/fs.rs\<close> in direct style over the effect \<open>A\<close>
  of submitting an operation and awaiting its future.  Here the same methods are programs, a
  program is a future (its first poll submits an operation and suspends, a later poll finds the
  result and goes on until the next await), and \<open>Runtime::block_on\<close> polls that future while the
  backend works.  The lemmas show that the two agree: for every backend that keeps the contract
  \<open>io_provider\<close>, blocking on the future of a program returns what the direct style says.
\<close>

section \<open>Programs and their futures\<close>

text \<open>A program returns, panics, does local work on the state of the thread, or submits an operation
  and awaits its \<open>IoFuture\<close>.\<close>

datatype ('r, 'w) async_fn =
    Return 'r
  | Panics panic
  | Local "'w \<Rightarrow> 'w" "'w \<Rightarrow> ('r, 'w) async_fn"
  | Awaiting op "io_result \<Rightarrow> ('r, 'w) async_fn"

datatype ('r, 'w) async_state =
    Unresumed "('r, 'w) async_fn"
  | Suspended io_token "io_result \<Rightarrow> ('r, 'w) async_fn"
  | Returned
  | Panicked

text \<open>One await.  A future that is ready is dropped before the program goes on.\<close>

definition await_io :: "waker \<Rightarrow> io_token \<Rightarrow> (io_result \<Rightarrow> ('r, 'w) async_fn)
    \<Rightarrow> (io_result \<Rightarrow> ('b, 'w) io_world \<Rightarrow> (panic + 'r poll) \<times> ('r, 'w) async_state \<times> ('b, 'w) io_world)
    \<Rightarrow> ('b, 'w) io_world \<Rightarrow> (panic + 'r poll) \<times> ('r, 'w) async_state \<times> ('b, 'w) io_world" where
  "await_io wk token k go w =
    (case io_future_poll wk token w of
       (Inl e, w1) \<Rightarrow> (Inl e, Suspended token k, w1)
     | (Inr Pending, w1) \<Rightarrow> (Inr Pending, Suspended token k, w1)
     | (Inr (Ready r), w1) \<Rightarrow>
         (case io_future_drop token w1 of
            Inl e \<Rightarrow> (Inl e, Panicked, w1)
          | Inr w2 \<Rightarrow> go r w2))"

primrec resume :: "'b io_ops \<Rightarrow> waker \<Rightarrow> ('r, 'w) async_fn \<Rightarrow> ('b, 'w) io_world
    \<Rightarrow> (panic + 'r poll) \<times> ('r, 'w) async_state \<times> ('b, 'w) io_world" where
  "resume B wk (Return v) w = (Inr (Ready v), Returned, w)"
| "resume B wk (Panics e) w = (Inl e, Panicked, w)"
| "resume B wk (Local f k) w = resume B wk (k (io_rest w)) (w\<lparr>io_rest := f (io_rest w)\<rparr>)"
| "resume B wk (Awaiting op k) w =
    (case io_state w of
       Inl e \<Rightarrow> (Inl e, Panicked, w)
     | Inr i \<Rightarrow>
         (let (token, c, b) = io_submit B op (token_counter w) (io_backend (io_states w ! i));
              w1 = io_update i (\<lambda>s. s\<lparr>io_backend := b\<rparr>) (w\<lparr>token_counter := c\<rparr>)
          in await_io wk token k (\<lambda>r. resume B wk (k r)) w1))"

fun async_poll :: "'b io_ops \<Rightarrow> waker \<Rightarrow> ('r, 'w) async_state \<Rightarrow> ('b, 'w) io_world
    \<Rightarrow> (panic + 'r poll) \<times> ('r, 'w) async_state \<times> ('b, 'w) io_world" where
  "async_poll B wk (Unresumed p) w = resume B wk p w"
| "async_poll B wk (Suspended token k) w = await_io wk token k (\<lambda>r. resume B wk (k r)) w"
| "async_poll B wk Returned w = (Inl (UserPanic resumed_after_completion), Returned, w)"
| "async_poll B wk Panicked w = (Inl (UserPanic resumed_after_completion), Panicked, w)"

fun async_drop :: "('r, 'w) async_state \<Rightarrow> ('b, 'w) io_world \<Rightarrow> ('b, 'w) io_world may_panic" where
  "async_drop (Suspended token k) w = io_future_drop token w"
| "async_drop _ w = Inr w"

definition async_future :: "'b io_ops \<Rightarrow> (('r, 'w) async_state, 'r, ('b, 'w) io_world) boxed_future" where
  "async_future B = \<lparr>bf_poll = async_poll B, bf_drop = async_drop\<rparr>"

section \<open>Direct style\<close>

primrec interp :: "'s awaits \<Rightarrow> ('r, 'w) async_fn \<Rightarrow> 's \<Rightarrow> 'w \<Rightarrow> 'r may_panic \<times> 's \<times> 'w" where
  "interp A (Return v) s x = (Inr v, s, x)"
| "interp A (Panics e) s x = (Inl e, s, x)"
| "interp A (Local f k) s x = interp A (k x) s (f x)"
| "interp A (Awaiting op k) s x = interp A (k (fst (A op s))) (snd (A op s)) x"

text \<open>What a backend does for one operation alone: submit it and poll until its completion comes,
  within \<open>n\<close> polls.\<close>

primrec drive_op :: "'b io_ops \<Rightarrow> nat \<Rightarrow> io_token \<Rightarrow> 'b \<Rightarrow> (io_result \<times> 'b) option" where
  "drive_op B 0 token b = None"
| "drive_op B (Suc n) token b =
    (case io_poll_complete B b of
       (Ready cs, b') \<Rightarrow>
         (case map_of (map (\<lambda>(t, _, r). (t, r)) cs) token of
            Some r \<Rightarrow> Some (r, b')
          | None \<Rightarrow> drive_op B n token b')
     | (Pending, b') \<Rightarrow> drive_op B n token b')"

definition await_op :: "'b io_ops \<Rightarrow> nat \<Rightarrow> op \<Rightarrow> u64 \<times> 'b \<Rightarrow> (io_result \<times> u64 \<times> 'b) option" where
  "await_op B n op s =
    (let (token, c, b) = io_submit B op (fst s) (snd s) in
     map_option (\<lambda>(r, b'). (r, c, b')) (drive_op B n token b))"

text \<open>The backend answers every operation, from the states \<open>I\<close>, as \<open>A\<close> says.\<close>

definition answers :: "'b io_ops \<Rightarrow> ('b \<Rightarrow> bool) \<Rightarrow> (u64 \<times> 'b) awaits \<Rightarrow> bool" where
  "answers B I A \<longleftrightarrow>
    (\<forall>op s. I (snd s) \<longrightarrow> (\<exists>n. await_op B n op s = Some (A op s)) \<and> I (snd (snd (A op s))))"

section \<open>block\_on follows the direct style\<close>

text \<open>The thread uses I/O state \<open>i\<close>, with this backend and these results that wait to be taken.\<close>

definition at_io :: "nat \<Rightarrow> 'b \<Rightarrow> (io_token \<rightharpoonup> io_result) \<Rightarrow> ('b, 'w) io_world \<Rightarrow> bool" where
  "at_io i b done_io w \<longleftrightarrow> cur_io w = Some i \<and> i < length (io_states w)
    \<and> io_backend (io_states w ! i) = b \<and> completed_io (io_states w ! i) = done_io"

lemma at_io_update:
  "at_io i b m w \<Longrightarrow> at_io i (io_backend (f (io_states w ! i))) (completed_io (f (io_states w ! i))) (io_update i f w)"
  by (simp add: at_io_def)

lemma io_update_rest [simp]:
  "io_rest (io_update i f w) = io_rest w" "token_counter (io_update i f w) = token_counter w"
  by (simp_all add: io_update_def)

lemma at_io_rest [simp]:
  "at_io i b m (w\<lparr>io_rest := x\<rparr>) = at_io i b m w" "at_io i b m (w\<lparr>token_counter := c\<rparr>) = at_io i b m w"
  by (simp_all add: at_io_def)

lemma await_io_pending:
  assumes "at_io i b Map.empty w"
  shows "\<exists>w'. await_io wk token k go w = (Inr Pending, Suspended token k, w') \<and> at_io i b Map.empty w'
    \<and> io_wakers (io_states w' ! i) token = Some wk
    \<and> token_counter w' = token_counter w \<and> io_rest w' = io_rest w"
proof -
  let ?s = "(io_states w ! i)\<lparr>io_wakers := (io_wakers (io_states w ! i))(token \<mapsto> wk)\<rparr>"
  have "await_io wk token k go w = (Inr Pending, Suspended token k, io_update i (\<lambda>_. ?s) w)"
    using assms by (simp add: at_io_def await_io_def io_future_poll_def io_state_def io_take_def)
  moreover have "at_io i b Map.empty (io_update i (\<lambda>_. ?s) w)"
    using at_io_update [OF assms, of "\<lambda>_. ?s"] assms by (simp add: at_io_def)
  moreover have "io_wakers (io_states (io_update i (\<lambda>_. ?s) w) ! i) token = Some wk"
    using assms by (simp add: at_io_def)
  ultimately show ?thesis by simp
qed

lemma await_io_ready:
  assumes "at_io i b [token \<mapsto> r] w"
  shows "\<exists>w'. await_io wk token k go w = go r w' \<and> at_io i b Map.empty w'
    \<and> token_counter w' = token_counter w \<and> io_rest w' = io_rest w"
proof -
  let ?s = "(io_states w ! i)\<lparr>completed_io := Map.empty\<rparr>"
  let ?w = "io_update i (io_forget token) (io_update i (\<lambda>_. ?s) w)"
  have "await_io wk token k go w = go r ?w"
    using assms by (simp add: at_io_def await_io_def io_future_poll_def io_future_drop_def io_state_def io_take_def)
  moreover have "at_io i b Map.empty ?w"
    using assms by (simp add: at_io_def io_forget_def)
  ultimately show ?thesis by (intro exI [of _ ?w]) simp
qed

context io_provider
begin

lemma reap_alone:
  assumes "ok (io_backend s)" "in_flight (io_backend s) \<subseteq> {token}" "completed_io s = Map.empty"
    and "io_poll_complete B (io_backend s) = (p, b)"
  defines "st \<equiv> fst (snd (poll_io_completions B s))"
  shows "io_backend st = b \<and> ok b \<and> in_flight b \<subseteq> {token}
    \<and> completed_io st = (case p of Pending \<Rightarrow> Map.empty | Ready cs \<Rightarrow> map_of (map (\<lambda>(t, _, r). (t, r)) cs))
    \<and> (case p of Pending \<Rightarrow> True | Ready cs \<Rightarrow> cs = [] \<or> (\<exists>op r. cs = [(token, op, r)]) \<and> in_flight b = {})"
proof (cases p)
  case (Ready cs)
  have c: "ok b" "set (map fst cs) \<subseteq> in_flight (io_backend s)" "distinct (map fst cs)"
    "in_flight b \<subseteq> in_flight (io_backend s) - set (map fst cs)"
    using complete_pending [OF assms(1)] assms(4) Ready by auto
  have "cs = [] \<or> (\<exists>op r. cs = [(token, op, r)])"
  proof (cases cs)
    case (Cons c' cs')
    moreover from this have "cs' = []" using c(2,3) assms(2) by (cases cs') auto
    ultimately show ?thesis using c(2) assms(2) by (cases c') auto
  qed simp
  then show ?thesis
  proof
    assume "cs = []"
    then show ?thesis using Ready c assms by (auto simp: poll_io_completions_def)
  next
    assume "\<exists>op r. cs = [(token, op, r)]"
    then obtain op r where cs: "cs = [(token, op, r)]" by blast
    have "in_flight b = {}" using c(4) cs assms(2) by auto
    then show ?thesis using Ready c(1) cs assms by (auto simp: poll_io_completions_def)
  qed
next
  case Pending
  then show ?thesis
    using complete_none [OF assms(1)] assms by (auto simp: poll_io_completions_def)
qed

lemma loop_awaits:
  assumes "drive_op B n token b = Some (r, b')" "at_io i b Map.empty w" "ok b" "in_flight b \<subseteq> {token}"
  shows "\<exists>m w'. (\<forall>j. block_on_loop B (async_future B) i (m + j) (Suspended token k) w
      = block_on_loop B (async_future B) i j (Suspended token k) w')
    \<and> at_io i b' [token \<mapsto> r] w' \<and> ok b' \<and> in_flight b' = {}
    \<and> token_counter w' = token_counter w \<and> io_rest w' = io_rest w"
  using assms
proof (induction n arbitrary: b w)
  case (Suc n)
  obtain w1 where w1: "async_poll B DummyWaker (Suspended token k) w = (Inr Pending, Suspended token k, w1)"
    "at_io i b Map.empty w1" "token_counter w1 = token_counter w" "io_rest w1 = io_rest w"
    using await_io_pending [OF Suc.prems(2)] by fastforce
  obtain p b1 where p: "io_poll_complete B b = (p, b1)" by fastforce
  define st where "st = fst (snd (poll_io_completions B (io_states w1 ! i)))"
  define w2 where "w2 = io_update i (\<lambda>_. st) w1"
  have step: "block_on_loop B (async_future B) i (Suc j) (Suspended token k) w
      = block_on_loop B (async_future B) i j (Suspended token k) w2" for j
    using w1(1) by (simp add: async_future_def w2_def st_def split_beta)
  have reap: "io_backend st = b1" "ok b1" "in_flight b1 \<subseteq> {token}"
    "completed_io st = (case p of Pending \<Rightarrow> Map.empty | Ready cs \<Rightarrow> map_of (map (\<lambda>(t, _, r). (t, r)) cs))"
    "case p of Pending \<Rightarrow> True | Ready cs \<Rightarrow> cs = [] \<or> (\<exists>op r. cs = [(token, op, r)]) \<and> in_flight b1 = {}"
    using reap_alone [of "io_states w1 ! i" token p b1] w1(2) Suc.prems(3,4) p
    unfolding st_def at_io_def by auto
  have w2: "at_io i b1 (completed_io st) w2" "token_counter w2 = token_counter w" "io_rest w2 = io_rest w"
    using at_io_update [OF w1(2), of "\<lambda>_. st"] reap(1) w1(3,4) by (simp_all add: w2_def)
  show ?case
  proof (cases "\<exists>op r. p = Ready [(token, op, r)]")
    case True
    then have "r = the (completed_io st token)" "completed_io st = [token \<mapsto> r]" "b1 = b'" "in_flight b1 = {}"
      using Suc.prems(1) p reap(4,5) by auto
    then show ?thesis
      using step w2 reap(2) by (intro exI [of _ 1] exI [of _ w2]) (simp del: fun_upd_apply block_on_loop.simps)
  next
    case False
    then have "completed_io st = Map.empty" "drive_op B n token b1 = Some (r, b')"
      using Suc.prems(1) p reap(4,5) by (auto split: poll.splits)
    with Suc.IH [of b1 w2] w2 reap(2,3) obtain m w' where
      m: "\<forall>j. block_on_loop B (async_future B) i (m + j) (Suspended token k) w2
        = block_on_loop B (async_future B) i j (Suspended token k) w'"
      "at_io i b' [token \<mapsto> r] w'" "ok b'" "in_flight b' = {}"
      "token_counter w' = token_counter w" "io_rest w' = io_rest w"
      by (auto simp del: fun_upd_apply)
    have "block_on_loop B (async_future B) i (Suc m + j) (Suspended token k) w
        = block_on_loop B (async_future B) i j (Suspended token k) w'" for j
      using step m(1) by (simp del: block_on_loop.simps)
    with m(2-6) show ?thesis by blast
  qed
qed simp

text \<open>Reaching an await: the operation is submitted, and the backend is going to answer it.\<close>

lemma resume_awaiting:
  assumes "answers B I A" "I b" "ok b" "in_flight b = {}" "at_io i b Map.empty w"
    and A: "A op (token_counter w, b) = (r, c1, b1)"
  shows "\<exists>token n b0 w1. (\<forall>wk. resume B wk (Awaiting op k) w = async_poll B wk (Suspended token k) w1)
    \<and> at_io i b0 Map.empty w1 \<and> token_counter w1 = c1 \<and> io_rest w1 = io_rest w
    \<and> drive_op B n token b0 = Some (r, b1) \<and> ok b0 \<and> in_flight b0 \<subseteq> {token} \<and> I b1"
proof -
  obtain n where n: "await_op B n op (token_counter w, b) = Some (r, c1, b1)" and I: "I b1"
    using assms(1,2) A unfolding answers_def by (metis snd_conv)
  obtain token c b0 where sub: "io_submit B op (token_counter w) b = (token, c, b0)" by (metis prod_cases3)
  with n have c: "c = c1" and driven: "drive_op B n token b0 = Some (r, b1)"
    by (auto simp: await_op_def)
  have b0: "ok b0" "in_flight b0 \<subseteq> {token}"
    using submit_pending [OF _ _ sub] submit_token [OF sub] assms(3,4) by auto
  define w1 where "w1 = io_update i (\<lambda>s. s\<lparr>io_backend := b0\<rparr>) (w\<lparr>token_counter := c1\<rparr>)"
  have w1: "at_io i b0 Map.empty w1" "token_counter w1 = c1" "io_rest w1 = io_rest w"
    using assms(5) by (simp_all add: w1_def at_io_def)
  have "resume B wk (Awaiting op k) w = async_poll B wk (Suspended token k) w1" for wk
    using sub assms(5) c by (simp add: io_state_def at_io_def w1_def)
  with w1 driven b0 I show ?thesis by blast
qed

text \<open>The result of the program, the state of the backend and the state of the thread.\<close>

lemma loop_interp:
  assumes ans: "answers B I A" and quiet: "\<And>b. I b \<Longrightarrow> ok b \<and> in_flight b = {}"
    and "interp A p (token_counter w, b) (io_rest w) = (v, (c', b'), x')"
    and "at_io i b Map.empty w" "I b"
  shows "\<exists>fuel w'. block_on_loop B (async_future B) i (Suc fuel) (Unresumed p) w = Some (v, w')
    \<and> token_counter w' = c' \<and> io_rest w' = x' \<and> io_backend (io_states w' ! i) = b' \<and> I b'
    \<and> (\<forall>r. v = Inr r \<longrightarrow> cur_io w' = None)"
  using assms(3-5)
proof (induction p arbitrary: w b)
  case (Return r)
  then show ?case
    by (auto simp: async_future_def clear_current_io_state_def at_io_def)
next
  case (Panics e)
  then show ?case by (auto simp: async_future_def at_io_def)
next
  case (Local f k)
  let ?w = "w\<lparr>io_rest := f (io_rest w)\<rparr>"
  have "block_on_loop B (async_future B) i (Suc fuel) (Unresumed (Local f k)) w
      = block_on_loop B (async_future B) i (Suc fuel) (Unresumed (k (io_rest w))) ?w" for fuel
    by (simp add: async_future_def)
  moreover have "interp A (k (io_rest w)) (token_counter ?w, b) (io_rest ?w) = (v, (c', b'), x')"
    using Local.prems(1) by simp
  note Local.IH [OF _ this]
  ultimately show ?case
    using Local.prems(2,3) by (auto simp del: block_on_loop.simps)
next
  case (Awaiting op k)
  obtain r c1 b1 where A: "A op (token_counter w, b) = (r, c1, b1)" by (metis prod_cases3)
  obtain token n b0 w1 where res: "\<And>wk. resume B wk (Awaiting op k) w = async_poll B wk (Suspended token k) w1"
    and w1: "at_io i b0 Map.empty w1" "token_counter w1 = c1" "io_rest w1 = io_rest w"
    and b0: "ok b0" "in_flight b0 \<subseteq> {token}" and driven: "drive_op B n token b0 = Some (r, b1)" and I: "I b1"
    using resume_awaiting [OF ans Awaiting.prems(3) _ _ Awaiting.prems(2) A, of k] quiet [OF Awaiting.prems(3)] by auto
  have first: "block_on_loop B (async_future B) i (Suc j) (Unresumed (Awaiting op k)) w
      = block_on_loop B (async_future B) i (Suc j) (Suspended token k) w1" for j
    by (simp add: async_future_def res del: resume.simps)
  obtain m w2 where m: "\<And>j. block_on_loop B (async_future B) i (m + j) (Suspended token k) w1
      = block_on_loop B (async_future B) i j (Suspended token k) w2"
    and w2: "at_io i b1 [token \<mapsto> r] w2" "token_counter w2 = c1" "io_rest w2 = io_rest w"
    using loop_awaits [OF driven w1(1) b0, of k] w1(2,3) by (auto simp del: fun_upd_apply)
  obtain w3 where w3: "async_poll B DummyWaker (Suspended token k) w2 = resume B DummyWaker (k r) w3"
    "at_io i b1 Map.empty w3" "token_counter w3 = c1" "io_rest w3 = io_rest w"
    using await_io_ready [OF w2(1), of DummyWaker k "\<lambda>r. resume B DummyWaker (k r)"] w2(2,3) by auto
  have last: "block_on_loop B (async_future B) i (Suc j) (Suspended token k) w2
      = block_on_loop B (async_future B) i (Suc j) (Unresumed (k r)) w3" for j
    using w3(1) by (simp add: async_future_def)
  have "interp A (k r) (token_counter w3, b1) (io_rest w3) = (v, (c', b'), x')"
    using Awaiting.prems(1) A w3(3,4) by simp
  from Awaiting.IH [OF rangeI this w3(2) I] obtain fuel w' where
    IH: "block_on_loop B (async_future B) i (Suc fuel) (Unresumed (k r)) w3 = Some (v, w')
      \<and> token_counter w' = c' \<and> io_rest w' = x' \<and> io_backend (io_states w' ! i) = b' \<and> I b'
      \<and> (\<forall>r. v = Inr r \<longrightarrow> cur_io w' = None)"
    by blast
  have "block_on_loop B (async_future B) i (Suc (m + fuel)) (Unresumed (Awaiting op k)) w = Some (v, w')"
    using first [of "m + fuel"] m [of "Suc fuel"] last [of fuel] IH by (simp del: block_on_loop.simps)
  with IH show ?case by blast
qed

lemma block_on_interp:
  assumes "answers B I A" "\<And>b. I b \<Longrightarrow> ok b \<and> in_flight b = {}" "I b"
    and "interp A p (token_counter w, b) (io_rest w) = (v, (c', b'), x')"
  shows "\<exists>fuel w'. runtime_block_on B (Inr b) (async_future B) fuel (Unresumed p) w = Some (v, w')
    \<and> token_counter w' = c' \<and> io_rest w' = x' \<and> io_backend (io_states w' ! length (io_states w)) = b'
    \<and> (\<forall>r. v = Inr r \<longrightarrow> cur_io w' = None)"
proof -
  let ?i = "length (io_states w)"
  let ?w = "set_current_io_state ?i (w\<lparr>io_states := io_states w @ [io_state_new b]\<rparr>)"
  have "at_io ?i b Map.empty ?w" "token_counter ?w = token_counter w" "io_rest ?w = io_rest w"
    by (simp_all add: at_io_def set_current_io_state_def io_state_new_def)
  with loop_interp [OF assms(1,2) _ this(1) assms(3), of p v c' b' x'] assms(4) show ?thesis
    unfolding runtime_block_on_def by (auto simp: Let_def simp del: block_on_loop.simps)
qed

end

end
