(* ===== verification/Async_Net.thy ===== *)
theory Async_Net
  imports Async
begin

text \<open>
  The asynchronous methods of \<open>src/net.rs\<close> and \<open>src/fs.rs\<close> as programs, that is with their suspension
  points, and what \<open>Runtime::block_on\<close> does with them.

  Every program comes with an equation that its direct reading is the method of theory \<open>Net\<close>.
  The state of a thread is its buffer pool and whatever the operating system does in synchronous
  calls.  A backend that draws from the pool keeps a pool of its own in its model; \<open>get\<close> only differs
  between the two in whether an allocation is reused.
\<close>

section \<open>Sequencing\<close>

record 'o thread_state =
  tl_pool :: pool
  os_state :: 'o

primrec async_bind :: "('a, 'w) async_fn \<Rightarrow> ('a \<Rightarrow> ('r, 'w) async_fn) \<Rightarrow> ('r, 'w) async_fn" where
  "async_bind (Return v) f = f v"
| "async_bind (Panics e) f = Panics e"
| "async_bind (Local g k) f = Local g (\<lambda>x. async_bind (k x) f)"
| "async_bind (Awaiting op k) f = Awaiting op (\<lambda>r. async_bind (k r) f)"

text \<open>The drop of a local variable, on return as well as on a panic.\<close>

primrec drop_after :: "('r, 'w) async_fn \<Rightarrow> ('w \<Rightarrow> 'w) \<Rightarrow> ('r, 'w) async_fn" where
  "drop_after (Return v) d = Local d (\<lambda>_. Return v)"
| "drop_after (Panics e) d = Local d (\<lambda>_. Panics e)"
| "drop_after (Local g k) d = Local g (\<lambda>x. drop_after (k x) d)"
| "drop_after (Awaiting op k) d = Awaiting op (\<lambda>r. drop_after (k r) d)"

definition with_pool :: "(pool \<Rightarrow> 'a \<times> pool) \<Rightarrow> ('a \<Rightarrow> ('r, 'o thread_state) async_fn) \<Rightarrow> ('r, 'o thread_state) async_fn" where
  "with_pool f k = Local (\<lambda>t. t\<lparr>tl_pool := snd (f (tl_pool t))\<rparr>) (\<lambda>t. k (fst (f (tl_pool t))))"

lemma interp_bind:
  "interp A (async_bind p f) s x =
    (case interp A p s x of
       (Inl e, s', x') \<Rightarrow> (Inl e, s', x')
     | (Inr v, s', x') \<Rightarrow> interp A (f v) s' x')"
  by (induction p arbitrary: s x) simp_all

lemma interp_drop_after:
  "interp A (drop_after p d) s x = (case interp A p s x of (v, s', x') \<Rightarrow> (v, s', d x'))"
  by (induction p arbitrary: s x) simp_all

lemma interp_with_pool:
  "interp A (with_pool f k) s t = interp A (k (fst (f (tl_pool t)))) s (t\<lparr>tl_pool := snd (f (tl_pool t))\<rparr>)"
  by (simp add: with_pool_def)

section \<open>The methods\<close>

definition tcp_accept_fn :: "raw_fd \<Rightarrow> (std_io_error + raw_fd \<times> socket_addr option, 'w) async_fn" where
  "tcp_accept_fn fd = Awaiting (OpAccept fd) (\<lambda>r. Return
    (case r of
       Inr (CAccept stream addr) \<Rightarrow> Inr (stream, addr)
     | Inr _ \<Rightarrow> Inl unexpected_kind
     | Inl e \<Rightarrow> Inl (io_error_into e)))"

definition tcp_read_fn :: "raw_fd \<Rightarrow> (std_io_error + usize \<times> buffer, 'o thread_state) async_fn" where
  "tcp_read_fn fd = with_pool (pool_get BUFFER_SIZE) (\<lambda>buffer.
    Awaiting (OpRead fd 0 (vcapacity buffer)) (\<lambda>r.
      case r of
        Inr (CRead bytes_read data) \<Rightarrow>
          (case slice_to bytes_read data of
             Inl e \<Rightarrow> Panics e
           | Inr bytes \<Rightarrow>
               (case copy_from_slice bytes (new_zeroed bytes_read) of
                  Inl e \<Rightarrow> Panics e
                | Inr result_buffer \<Rightarrow> Return (Inr (bytes_read, result_buffer))))
      | Inr _ \<Rightarrow> Return (Inl unexpected_kind)
      | Inl e \<Rightarrow> Return (Inl (io_error_into e))))"

definition tcp_write_fn :: "raw_fd \<Rightarrow> u8 list \<Rightarrow> (std_io_error + usize, 'w) async_fn" where
  "tcp_write_fn fd buf = Awaiting (OpWrite fd 0 (from_slice buf)) (\<lambda>r. Return
    (case r of
       Inr (CWrite bytes_written) \<Rightarrow> Inr bytes_written
     | Inr _ \<Rightarrow> Inl unexpected_kind
     | Inl e \<Rightarrow> Inl (io_error_into e)))"

text \<open>The first \<open>fuel\<close> rounds of the loop of \<open>write_all\<close>.\<close>

primrec write_all_fn :: "raw_fd \<Rightarrow> nat \<Rightarrow> u8 list \<Rightarrow> ((std_io_error + unit) option, 'w) async_fn" where
  "write_all_fn fd 0 buf = Return None"
| "write_all_fn fd (Suc fuel) buf =
    (if buf = [] then Return (Some (Inr ()))
     else async_bind (tcp_write_fn fd buf) (\<lambda>r.
       case r of
         Inr n \<Rightarrow>
           (if n = 0 then Return (Some (Inl (SimpleError WriteZero ''failed to write whole buffer'')))
            else if n \<le> length buf then write_all_fn fd fuel (drop n buf)
            else Panics IndexOutOfBounds)
       | Inl e \<Rightarrow> (if error_kind e = Interrupted then write_all_fn fd fuel buf else Return (Some (Inl e)))))"

definition udp_recv_from_fn :: "raw_fd \<Rightarrow> u8 list
    \<Rightarrow> ((std_io_error + usize \<times> socket_addr) \<times> u8 list, 'o thread_state) async_fn" where
  "udp_recv_from_fn fd buf = with_pool (pool_get (length buf)) (\<lambda>buffer_for_recv.
    Awaiting (OpUdpRecv fd buffer_for_recv) (\<lambda>r.
      case r of
        Inr (CUdpRecv bytes_read buffer addr) \<Rightarrow>
          (let bytes_to_copy = min bytes_read (length buf) in
           case slice_to bytes_to_copy buffer of
             Inl e \<Rightarrow> Panics e
           | Inr bytes \<Rightarrow> with_pool (\<lambda>p. ((), recycle buffer p))
               (\<lambda>_. Return (Inr (bytes_read, addr), bytes @ drop bytes_to_copy buf)))
      | Inr _ \<Rightarrow> Return (Inl (SimpleError InvalidData ''Unexpected completion kind for UdpRecv''), buf)
      | Inl e \<Rightarrow> Return (Inl (io_error_into e), buf)))"

definition read_at_fn :: "raw_fd \<Rightarrow> u64 \<Rightarrow> usize \<Rightarrow> (std_io_error + usize \<times> buffer, 'w) async_fn" where
  "read_at_fn fd offset len = Awaiting (OpReadFile fd offset len) (\<lambda>r. Return
    (case r of
       Inr (CReadFile bytes_read data) \<Rightarrow> Inr (bytes_read, data)
     | Inr _ \<Rightarrow> Inl unexpected_kind
     | Inl e \<Rightarrow> Inl (io_error_into e)))"

definition write_at_fn :: "raw_fd \<Rightarrow> u64 \<Rightarrow> u8 list \<Rightarrow> (std_io_error + usize, 'o thread_state) async_fn" where
  "write_at_fn fd offset buf = with_pool (pool_get (length buf)) (\<lambda>b.
    case copy_from_slice buf b of
      Inl e \<Rightarrow> Panics e
    | Inr buffer \<Rightarrow> Awaiting (OpWriteFile fd offset buffer) (\<lambda>r. Return
        (case r of
           Inr (CWriteFile bytes_written) \<Rightarrow> Inr bytes_written
         | Inr _ \<Rightarrow> Inl unexpected_kind
         | Inl e \<Rightarrow> Inl (io_error_into e))))"

definition sync_all_fn :: "raw_fd \<Rightarrow> (std_io_error + unit, 'w) async_fn" where
  "sync_all_fn fd = Awaiting (OpFsync fd) (\<lambda>r. Return
    (case r of
       Inr CFsync \<Rightarrow> Inr ()
     | Inr _ \<Rightarrow> Inl unexpected_kind
     | Inl e \<Rightarrow> Inl (io_error_into e)))"

section \<open>Their direct reading\<close>

lemma interp_tcp_accept:
  "interp A (tcp_accept_fn fd) s x = (case tcp_accept A fd s of (v, s') \<Rightarrow> (Inr v, s', x))"
  by (cases "A (OpAccept fd) s") (simp add: tcp_accept_fn_def tcp_accept_def split: sum.split completion_kind.split)

lemma interp_tcp_read:
  "interp A (tcp_read_fn fd) s t = (case tcp_read A fd (tl_pool t) s of (v, p, s') \<Rightarrow> (v, s', t\<lparr>tl_pool := p\<rparr>))"
  by (simp add: tcp_read_fn_def tcp_read_def interp_with_pool split_beta split: sum.split completion_kind.split)

lemma interp_tcp_write:
  "interp A (tcp_write_fn fd buf) s x = (case tcp_write A fd buf s of (v, s') \<Rightarrow> (Inr v, s', x))"
  by (cases "A (OpWrite fd 0 (from_slice buf)) s")
    (simp add: tcp_write_fn_def tcp_write_def split: sum.split completion_kind.split)

lemma interp_write_all:
  "write_all A fd fuel buf s = Some (v, s') \<Longrightarrow>
   interp A (write_all_fn fd fuel buf) s x = (map_sum id Some v, s', x)"
proof (induction fuel arbitrary: buf s)
  case (Suc fuel)
  obtain r s1 where "tcp_write A fd buf s = (r, s1)" by fastforce
  with Suc show ?case
    by (cases r) (auto simp: interp_bind interp_tcp_write split: if_splits)
qed simp

lemma interp_udp_recv_from:
  "interp A (udp_recv_from_fn fd buf) s t =
    (case udp_recv_from A fd buf (tl_pool t) s of
       (Inl e, _, p, s') \<Rightarrow> (Inl e, s', t\<lparr>tl_pool := p\<rparr>)
     | (Inr v, buf', p, s') \<Rightarrow> (Inr (v, buf'), s', t\<lparr>tl_pool := p\<rparr>))"
  by (simp add: udp_recv_from_fn_def udp_recv_from_def interp_with_pool split_beta Let_def
      split: sum.split completion_kind.split)

lemma interp_read_at:
  "interp A (read_at_fn fd offset len) s x = (case read_at A fd offset len s of (v, s') \<Rightarrow> (Inr v, s', x))"
  by (cases "A (OpReadFile fd offset len) s")
    (simp add: read_at_fn_def read_at_def split: sum.split completion_kind.split)

lemma interp_write_at:
  "interp A (write_at_fn fd offset buf) s t =
    (case write_at A fd offset buf (tl_pool t) s of (v, p, s') \<Rightarrow> (v, s', t\<lparr>tl_pool := p\<rparr>))"
  by (simp add: write_at_fn_def write_at_def interp_with_pool split_beta split: sum.split completion_kind.split)

lemma interp_sync_all:
  "interp A (sync_all_fn fd) s x = (case sync_all A fd s of (v, s') \<Rightarrow> (Inr v, s', x))"
  by (cases "A (OpFsync fd) s") (simp add: sync_all_fn_def sync_all_def split: sum.split completion_kind.split)

section \<open>A backend from a direct style\<close>

text \<open>Operations queue up, and a poll carries out all of them.\<close>

primrec serve_all :: "'s awaits \<Rightarrow> (io_token \<times> op) list \<Rightarrow> 's \<Rightarrow> completion list \<times> 's" where
  "serve_all A [] s = ([], s)"
| "serve_all A (q # qs) s =
    (let (r, s1) = A (snd q) s; (cs, s2) = serve_all A qs s1 in ((fst q, snd q, r) # cs, s2))"

definition served_backend :: "'s awaits \<Rightarrow> ((io_token \<times> op) list \<times> 's) io_ops" where
  "served_backend A = \<lparr>
     io_submit = (\<lambda>op c b. (IoToken c, c + 1, fst b @ [(IoToken c, op)], snd b)),
     io_poll_complete = (\<lambda>b. let (cs, s) = serve_all A (fst b) (snd b) in (Ready cs, [], s))\<rparr>"

definition served_awaits :: "'s awaits \<Rightarrow> (u64 \<times> (io_token \<times> op) list \<times> 's) awaits" where
  "served_awaits A op st = (let (r, s) = A op (snd (snd st)) in (r, fst st + 1, [], s))"

lemma serve_all_tokens: "map fst (fst (serve_all A qs s)) = map fst qs"
  by (induction qs arbitrary: s) (simp_all add: split_beta Let_def)

interpretation served: io_provider "served_backend A" "\<lambda>b. set (map fst (fst b))" "\<lambda>b. distinct (map fst (fst b))" for A
proof unfold_locales
  fix b cs b'
  assume "io_poll_complete (served_backend A) b = (Ready cs, b')"
  then have "cs = fst (serve_all A (fst b) (snd b))" "fst b' = []"
    by (auto simp: served_backend_def split_beta Let_def)
  moreover assume "distinct (map fst (fst b))"
  ultimately show "distinct (map fst (fst b')) \<and> set (map fst cs) \<subseteq> set (map fst (fst b)) \<and> distinct (map fst cs)
      \<and> set (map fst (fst b')) \<subseteq> set (map fst (fst b)) - set (map fst cs)"
    by (simp add: serve_all_tokens)
qed (auto simp: served_backend_def split_beta Let_def)

lemma served_answers: "answers (served_backend A) (\<lambda>b. fst b = []) (served_awaits A)"
proof -
  have "await_op (served_backend A) 1 op s = Some (served_awaits A op s)" if "fst (snd s) = []" for op s
    using that by (simp add: await_op_def served_backend_def served_awaits_def split_beta Let_def)
  moreover have "fst (snd (snd (served_awaits A op s))) = []" for op s
    by (simp add: served_awaits_def split_beta Let_def)
  ultimately show ?thesis unfolding answers_def by blast
qed

section \<open>Properties\<close>

text \<open>C6. \<open>Runtime::block_on\<close> computes what direct style says.  Take a backend that keeps the contract of
  \<open>IoProvider\<close> and answers every operation sooner or later, and let \<open>A\<close> be the results and states it
  reaches by serving one operation alone.  Then blocking on the state machine of an asynchronous
  function returns, with the value (or the panic) of its direct reading over \<open>A\<close>; backend, token
  counter and thread are left as there, and the thread-local I/O state is cleared on return.\<close>

theorem block_on_follows_direct_style:
  assumes "io_provider B in_flight ok" "answers B I A"
    and "\<And>b. I b \<Longrightarrow> ok b \<and> in_flight b = {}" "I b"
    and "interp A p (token_counter w, b) (io_rest w) = (v, (c', b'), x')"
  shows "\<exists>fuel w'. runtime_block_on B (Inr b) (async_future B) fuel (Unresumed p) w = Some (v, w')
    \<and> token_counter w' = c' \<and> io_rest w' = x' \<and> io_backend (io_states w' ! length (io_states w)) = b'
    \<and> (\<forall>r. v = Inr r \<longrightarrow> cur_io w' = None)"
  using assms by (rule io_provider.block_on_interp)

text \<open>Two writes of a sink that takes at most three bytes at a time.\<close>

definition demo_sink :: "u8 list awaits" where
  "demo_sink op s =
    (case op of OpWrite fd off b \<Rightarrow> (Inr (CWrite (min 3 (vlen b))), s @ map the (take 3 (contents b)))
     | _ \<Rightarrow> (Inr CFsync, s))"

theorem block_on_follows_direct_style_witness:
  "\<exists>fuel w'. runtime_block_on (served_backend demo_sink) (Inr ([], [])) (async_future (served_backend demo_sink)) fuel
      (Unresumed (write_all_fn 5 3 [1, 2, 3, 4])) \<lparr>io_states = [], cur_io = None, token_counter = 7, io_rest = ()\<rparr>
      = Some (Inr (Some (Inr ())), w')
    \<and> io_backend (io_states w' ! 0) = ([], [1, 2, 3, 4])"
proof -
  let ?w = "\<lparr>io_states = [], cur_io = None, token_counter = 7, io_rest = ()\<rparr>
    :: ((io_token \<times> op) list \<times> u8 list, unit) io_world"
  have "interp (served_awaits demo_sink) (write_all_fn 5 3 [1, 2, 3, 4]) (token_counter ?w, [], []) (io_rest ?w)
      = (Inr (Some (Inr ())), (9, [], [1, 2, 3, 4]), ())"
    by (simp add: numeral_3_eq_3 tcp_write_fn_def served_awaits_def demo_sink_def from_slice_def vec_of_def contents_def)
  from block_on_follows_direct_style [OF served.io_provider_axioms served_answers _ _ this] show ?thesis
    by fastforce
qed

end
