(* ===== verification/Http_Echo.thy ===== *)
theory Http_Echo
  imports Async_Net
begin

text \<open>
  The server of \<open>examples/http_echo.rs\<close>: one connection after the other is accepted, read from once,
  answered with a fixed response in one write, and closed.

  What the program prints is left out, and with it the counter of requests, a 32-bit integer whose
  overflow would panic in a debug build.  The address parser and
  the socket calls of the standard library are arguments.
\<close>

definition ascii :: "string \<Rightarrow> u8 list" where
  "ascii s = map of_char s"

definition echo_response :: "u8 list" where
  "echo_response = ascii ''HTTP/1.1 200 OK'' @ [13, 10] @ ascii ''Content-Length: 12'' @ [13, 10, 13, 10]
    @ ascii ''Hello world!''"

definition close_fd :: "(raw_fd \<Rightarrow> 'o \<Rightarrow> 'o) \<Rightarrow> raw_fd \<Rightarrow> 'o thread_state \<Rightarrow> 'o thread_state" where
  "close_fd sys_close fd t = t\<lparr>os_state := sys_close fd (os_state t)\<rparr>"

text \<open>The stream is dropped, and so closed, on every way out.\<close>

definition handle_client :: "(raw_fd \<Rightarrow> 'o \<Rightarrow> 'o) \<Rightarrow> raw_fd \<Rightarrow> (unit, 'o thread_state) async_fn" where
  "handle_client sys_close stream = drop_after
    (async_bind (tcp_read_fn stream) (\<lambda>r.
       case r of
         Inl e \<Rightarrow> Return ()
       | Inr (bytes_read, data) \<Rightarrow>
           (case slice_to bytes_read data of
              Inl e \<Rightarrow> Panics e
            | Inr request \<Rightarrow> async_bind (tcp_write_fn stream echo_response) (\<lambda>_. Return ()))))
    (close_fd sys_close stream)"

text \<open>The first \<open>fuel\<close> rounds of the accept loop.\<close>

primrec accept_loop :: "(raw_fd \<Rightarrow> 'o \<Rightarrow> 'o) \<Rightarrow> raw_fd \<Rightarrow> nat \<Rightarrow> (unit option, 'o thread_state) async_fn" where
  "accept_loop sys_close listener 0 = Return None"
| "accept_loop sys_close listener (Suc fuel) =
    async_bind (tcp_accept_fn listener) (\<lambda>r.
      case r of
        Inr (stream, client_addr) \<Rightarrow>
          async_bind (handle_client sys_close stream) (\<lambda>_. accept_loop sys_close listener fuel)
      | Inl e \<Rightarrow> Return (Some ()))"

definition echo_server :: "(socket_addr \<Rightarrow> std_io_error + raw_fd) \<Rightarrow> (raw_fd \<Rightarrow> std_io_error + unit) \<Rightarrow> (raw_fd \<Rightarrow> 'o \<Rightarrow> 'o)
    \<Rightarrow> nat \<Rightarrow> socket_addr \<Rightarrow> (unit option, 'o thread_state) async_fn" where
  "echo_server sys_bind set_nonblocking sys_close rounds addr =
    (case tcp_bind sys_bind set_nonblocking addr of
       Inl e \<Rightarrow> Return (Some ())
     | Inr listener \<Rightarrow> drop_after (accept_loop sys_close listener rounds) (close_fd sys_close listener))"

text \<open>The last address on the command line, after \<open>--addr\<close> or \<open>-a\<close>.\<close>

fun pick_addr :: "string list \<Rightarrow> string \<Rightarrow> string" where
  "pick_addr [] addr = addr"
| "pick_addr [arg] addr = addr"
| "pick_addr (arg # v # args) addr =
    (if arg = ''--addr'' \<or> arg = ''-a'' then pick_addr args v else pick_addr (v # args) addr)"

definition http_echo_main ::
  "'b io_ops \<Rightarrow> string + 'b \<Rightarrow> (string \<Rightarrow> socket_addr option) \<Rightarrow> (socket_addr \<Rightarrow> std_io_error + raw_fd)
   \<Rightarrow> (raw_fd \<Rightarrow> std_io_error + unit) \<Rightarrow> (raw_fd \<Rightarrow> 'o \<Rightarrow> 'o) \<Rightarrow> nat \<Rightarrow> nat \<Rightarrow> string list \<Rightarrow> ('b, 'o thread_state) io_world
   \<Rightarrow> (unit option may_panic \<times> ('b, 'o thread_state) io_world) option" where
  "http_echo_main B new parse sys_bind set_nonblocking sys_close rounds fuel args w =
    (case parse (pick_addr args ''127.0.0.1:8080'') of
       None \<Rightarrow> Some (Inl (ExpectFailed ''called Result::unwrap() on an Err value''), w)
     | Some addr \<Rightarrow> runtime_block_on B new (async_future B) fuel
         (Unresumed (echo_server sys_bind set_nonblocking sys_close rounds addr)) w)"

section \<open>Serving\<close>

text \<open>What the operating system promises: \<open>clients\<close> are the connections that \<open>accept\<close> hands out before
  it fails; a read does not report more than its buffer holds; a write takes a prefix of the
  data, or nothing if it fails.  \<open>sent\<close> are the bytes that a connection was sent.\<close>

definition server_contract :: "'s awaits \<Rightarrow> raw_fd \<Rightarrow> ('s \<Rightarrow> raw_fd list) \<Rightarrow> ('s \<Rightarrow> raw_fd \<Rightarrow> u8 list) \<Rightarrow> bool" where
  "server_contract A listener clients sent \<longleftrightarrow>
    (\<forall>s r s'. A (OpAccept listener) s = (r, s') \<longrightarrow> sent s' = sent s \<and>
      (case clients s of
         [] \<Rightarrow> \<exists>e. r = Inl e
       | c # cs \<Rightarrow> (\<exists>addr. r = Inr (CAccept c addr)) \<and> clients s' = cs))
    \<and> (\<forall>fd n s r s'. A (OpRead fd 0 n) s = (r, s') \<longrightarrow> sent s' = sent s \<and> clients s' = clients s
        \<and> (\<forall>k data. r = Inr (CRead k data) \<longrightarrow> vec_wf data \<and> k \<le> vlen data))
    \<and> (\<forall>fd data s r s'. A (OpWrite fd 0 (from_slice data)) s = (r, s') \<longrightarrow> clients s' = clients s
        \<and> (\<exists>n. sent s' = (sent s)(fd := sent s fd @ take n data)))"

lemma tcp_read_contract:
  assumes "server_contract A listener clients sent" "tcp_read A fd p s = (v, p', s')"
  shows "sent s' = sent s \<and> clients s' = clients s
    \<and> (\<exists>r. v = Inr r \<and> (\<forall>n data. r = Inr (n, data) \<longrightarrow> n \<le> vlen data))"
proof -
  obtain b p1 where get: "pool_get BUFFER_SIZE p = (b, p1)" by fastforce
  obtain r s1 where A: "A (OpRead fd 0 (vcapacity b)) s = (r, s1)" by fastforce
  have s1: "sent s1 = sent s" "clients s1 = clients s"
    "\<And>k data. r = Inr (CRead k data) \<Longrightarrow> vec_wf data \<and> k \<le> vlen data"
    using assms(1) A unfolding server_contract_def by blast+
  have "\<exists>rb. slice_to k data = Inr (map the (take k (contents data)))
      \<and> copy_from_slice (map the (take k (contents data))) (new_zeroed k) = Inr rb \<and> k \<le> vlen rb"
    if "r = Inr (CRead k data)" for k data
  proof -
    let ?bytes = "map the (take k (contents data))"
    have len: "length ?bytes = k" using s1(3) [OF that] by (simp add: vec_defs)
    have "vec_wf (new_zeroed k)" by (simp add: new_zeroed_def vec_defs)
    from copy_from_slice_contents [OF this, of ?bytes] obtain rb where
      "copy_from_slice ?bytes (new_zeroed k) = Inr rb" "contents rb = map Some ?bytes"
      by blast
    moreover from this(2) have "length (contents rb) = k" using len by (metis length_map)
    then have "k \<le> vlen rb" by (simp add: contents_def)
    ultimately show ?thesis using s1(3) [OF that] by (simp add: slice_to_def as_ref_def)
  qed
  then show ?thesis
    using assms(2) get A s1(1,2) by (auto simp: tcp_read_def split: sum.splits completion_kind.splits)
qed

lemma tcp_write_contract:
  assumes "server_contract A listener clients sent" "tcp_write A fd data s = (v, s')"
  shows "clients s' = clients s \<and> (\<exists>n. sent s' = (sent s)(fd := sent s fd @ take n data))"
proof -
  obtain r s1 where A: "A (OpWrite fd 0 (from_slice data)) s = (r, s1)" by fastforce
  then have "s1 = s'"
    using assms(2) by (auto simp: tcp_write_def split: sum.splits completion_kind.splits)
  with A assms(1) show ?thesis unfolding server_contract_def by blast
qed

lemma interp_handle_client:
  assumes "server_contract A listener clients sent"
  shows "\<exists>s' t' n. interp A (handle_client sys_close c) s t = (Inr (), s', t') \<and> clients s' = clients s
    \<and> os_state t' = sys_close c (os_state t) \<and> sent s' = (sent s)(c := sent s c @ take n echo_response)"
proof -
  obtain v p s1 where read: "tcp_read A c (tl_pool t) s = (v, p, s1)" by (metis prod_cases3)
  obtain r where s1: "sent s1 = sent s" "clients s1 = clients s" and v: "v = Inr r"
    and n: "\<And>n data. r = Inr (n, data) \<Longrightarrow> n \<le> vlen data"
    using tcp_read_contract [OF assms read] by auto
  obtain v2 s2 where wrote: "tcp_write A c echo_response s1 = (v2, s2)" by fastforce
  note wr = tcp_write_contract [OF assms wrote]
  have direct: "interp A (handle_client sys_close c) s t =
      (Inr (), if isl r then s1 else s2, close_fd sys_close c (t\<lparr>tl_pool := p\<rparr>))"
    using n by (auto simp: handle_client_def interp_drop_after interp_bind interp_tcp_read interp_tcp_write
        read v wrote slice_to_def split: sum.split)
  have os: "os_state (close_fd sys_close c (t\<lparr>tl_pool := p\<rparr>)) = sys_close c (os_state t)"
    by (simp add: close_fd_def)
  show ?thesis
  proof (cases "isl r")
    case True
    with direct os s1 show ?thesis by (intro exI [of _ s1] exI conjI [rotated]) (auto intro: exI [of _ 0])
  next
    case False
    obtain n where "clients s2 = clients s" "sent s2 = (sent s)(c := sent s c @ take n echo_response)"
      using wr s1 by auto
    with False direct os show ?thesis by auto
  qed
qed

lemma accept_contract:
  assumes "server_contract A listener clients sent" "A (OpAccept listener) s = (r, s')"
  shows "sent s' = sent s \<and> (case clients s of [] \<Rightarrow> \<exists>e. r = Inl e
      | c # cs \<Rightarrow> (\<exists>addr. r = Inr (CAccept c addr)) \<and> clients s' = cs)"
  using assms(1) [unfolded server_contract_def, THEN conjunct1, rule_format, OF assms(2)] .

lemma interp_accept_loop:
  assumes "server_contract A listener clients sent" "distinct (clients s)"
  shows "\<exists>s' t'. interp A (accept_loop sys_close listener (Suc (length (clients s)))) s t = (Inr (Some ()), s', t')
    \<and> os_state t' = fold sys_close (clients s) (os_state t)
    \<and> (\<forall>c. if c \<in> set (clients s) then \<exists>n. sent s' c = sent s c @ take n echo_response else sent s' c = sent s c)"
  using assms(2)
proof (induction "clients s" arbitrary: s t)
  case Nil
  obtain r s1 where A: "A (OpAccept listener) s = (r, s1)" by fastforce
  from accept_contract [OF assms(1) A] A show ?case
    unfolding Nil.hyps [symmetric] by (auto simp: interp_bind interp_tcp_accept tcp_accept_def)
next
  case (Cons c cs)
  obtain r s1 where A: "A (OpAccept listener) s = (r, s1)" by fastforce
  from accept_contract [OF assms(1) A] obtain addr where s1: "r = Inr (CAccept c addr)" "sent s1 = sent s" "clients s1 = cs"
    unfolding Cons.hyps(2) [symmetric] by auto
  obtain s2 t2 n where h: "interp A (handle_client sys_close c) s1 t = (Inr (), s2, t2)" "clients s2 = cs"
    "os_state t2 = sys_close c (os_state t)" "sent s2 = (sent s)(c := sent s c @ take n echo_response)"
    using interp_handle_client [OF assms(1), of sys_close c s1 t] s1(2,3) by auto
  have first: "interp A (accept_loop sys_close listener (Suc (length (c # cs)))) s t
      = interp A (accept_loop sys_close listener (Suc (length cs))) s2 t2"
    using A s1(1) h(1) by (simp add: interp_bind interp_tcp_accept tcp_accept_def)
  have cs: "c \<notin> set cs" "distinct cs" using Cons.prems unfolding Cons.hyps(2) [symmetric] by auto
  obtain s' t' where IH: "interp A (accept_loop sys_close listener (Suc (length cs))) s2 t2 = (Inr (Some ()), s', t')"
    "os_state t' = fold sys_close cs (os_state t2)"
    "\<And>d. if d \<in> set cs then \<exists>n. sent s' d = sent s2 d @ take n echo_response else sent s' d = sent s2 d"
    using Cons.hyps(1) [of s2 t2] h(2) cs(2) by auto
  have "if d \<in> set (c # cs) then \<exists>n. sent s' d = sent s d @ take n echo_response else sent s' d = sent s d" for d
    using IH(3) [of d] h(4) cs(1) by (cases "d = c") auto
  then show ?case
    using first IH(1,2) h(3) unfolding Cons.hyps(2) [symmetric] by simp
qed

lemma echo_main_serves:
  assumes "io_provider B in_flight ok" "answers B I A"
    and "\<And>b. I b \<Longrightarrow> ok b \<and> in_flight b = {}" "I b"
    and addr: "parse (pick_addr args ''127.0.0.1:8080'') = Some addr"
    and bound: "tcp_bind sys_bind set_nonblocking addr = Inr listener"
    and os: "server_contract A listener clients sent" "clients (token_counter w, b) = cs" "distinct cs"
  shows "\<exists>fuel w' s. http_echo_main B (Inr b) parse sys_bind set_nonblocking sys_close (Suc (length cs)) fuel args w
      = Some (Inr (Some ()), w')
    \<and> s = (token_counter w', io_backend (io_states w' ! length (io_states w)))
    \<and> (\<forall>c \<in> set cs. \<exists>n. sent s c = sent (token_counter w, b) c @ take n echo_response)
    \<and> (\<forall>c. c \<notin> set cs \<longrightarrow> sent s c = sent (token_counter w, b) c)
    \<and> os_state (io_rest w') = sys_close listener (fold sys_close cs (os_state (io_rest w)))
    \<and> cur_io w' = None"
proof -
  let ?p = "echo_server sys_bind set_nonblocking sys_close (Suc (length cs)) addr"
  obtain s t where loop: "interp A (accept_loop sys_close listener (Suc (length cs))) (token_counter w, b) (io_rest w)
      = (Inr (Some ()), s, t)" "os_state t = fold sys_close cs (os_state (io_rest w))"
    and sent: "\<And>c. if c \<in> set cs then \<exists>n. sent s c = sent (token_counter w, b) c @ take n echo_response
      else sent s c = sent (token_counter w, b) c"
    using interp_accept_loop [OF os(1), of "(token_counter w, b)" sys_close "io_rest w"] os(2,3) by auto
  have "interp A ?p (token_counter w, b) (io_rest w)
      = (Inr (Some ()), (fst s, snd s), close_fd sys_close listener t)"
    using bound loop(1) by (simp add: echo_server_def interp_drop_after del: accept_loop.simps)
  from io_provider.block_on_interp [OF assms(1-4) this] obtain fuel w' where
    run: "runtime_block_on B (Inr b) (async_future B) fuel (Unresumed ?p) w = Some (Inr (Some ()), w')"
    and w': "s = (token_counter w', io_backend (io_states w' ! length (io_states w)))"
      "io_rest w' = close_fd sys_close listener t" "cur_io w' = None"
    by auto
  have "http_echo_main B (Inr b) parse sys_bind set_nonblocking sys_close (Suc (length cs)) fuel args w
      = Some (Inr (Some ()), w')"
    using addr run by (simp add: http_echo_main_def)
  moreover have "os_state (io_rest w') = sys_close listener (fold sys_close cs (os_state (io_rest w)))"
    using w'(2) loop(2) by (simp add: close_fd_def)
  moreover have "(\<forall>c \<in> set cs. \<exists>n. sent s c = sent (token_counter w, b) c @ take n echo_response)
    \<and> (\<forall>c. c \<notin> set cs \<longrightarrow> sent s c = sent (token_counter w, b) c)"
    using sent by (auto split: if_splits)
  ultimately show ?thesis using w'(1,3) by blast
qed

section \<open>Properties\<close>

text \<open>The example server serves every client and returns.  Let the backend answer every operation, let the
  address of the command line be parsed and bound, and let \<open>cs\<close> be the connections that the operating
  system hands out before \<open>accept\<close> fails.  Then \<open>main\<close> returns; every connection of \<open>cs\<close> was sent a
  prefix of the response, nobody else was sent anything, and all streams were closed in the order of
  their arrival, the listener last.\<close>

theorem echo_server_serves_all:
  assumes "io_provider B in_flight ok" "answers B I A"
    and "\<And>b. I b \<Longrightarrow> ok b \<and> in_flight b = {}" "I b"
    and addr: "parse (pick_addr args ''127.0.0.1:8080'') = Some addr"
    and bound: "tcp_bind sys_bind set_nonblocking addr = Inr listener"
    and os: "server_contract A listener clients sent" "clients (token_counter w, b) = cs" "distinct cs"
  shows "\<exists>fuel w' s. http_echo_main B (Inr b) parse sys_bind set_nonblocking sys_close (Suc (length cs)) fuel args w
      = Some (Inr (Some ()), w')
    \<and> s = (token_counter w', io_backend (io_states w' ! length (io_states w)))
    \<and> (\<forall>c \<in> set cs. \<exists>n. sent s c = sent (token_counter w, b) c @ take n echo_response)
    \<and> (\<forall>c. c \<notin> set cs \<longrightarrow> sent s c = sent (token_counter w, b) c)
    \<and> os_state (io_rest w') = sys_close listener (fold sys_close cs (os_state (io_rest w)))
    \<and> cur_io w' = None"
  using assms by (rule echo_main_serves)

text \<open>An operating system with two clients; a write takes at most 20 bytes.\<close>

definition demo_sockets :: "(raw_fd list \<times> (raw_fd \<Rightarrow> u8 list)) awaits" where
  "demo_sockets op s =
    (case op of
       OpAccept fd \<Rightarrow> (case fst s of [] \<Rightarrow> (Inl (IoErr (OsError 24)), s) | c # cs \<Rightarrow> (Inr (CAccept c None), cs, snd s))
     | OpRead fd off n \<Rightarrow> (Inr (CRead 1 (from_slice [71])), s)
     | OpWrite fd off b \<Rightarrow>
         (Inr (CWrite (min 20 (vlen b))), fst s, (snd s)(fd := snd s fd @ take 20 (map the (contents b))))
     | _ \<Rightarrow> (Inl (IoOther []), s))"

lemma demo_sockets_contract:
  "server_contract (served_awaits demo_sockets) 3 (\<lambda>s. fst (snd (snd s))) (\<lambda>s. snd (snd (snd s)))"
  unfolding server_contract_def
  by (auto simp: served_awaits_def demo_sockets_def from_slice_def vec_defs comp_def split: list.splits)

theorem echo_server_serves_all_witness:
  "\<exists>fuel w'. http_echo_main (served_backend demo_sockets) (Inr ([], [7, 8], \<lambda>_. [])) (\<lambda>_. Some (SocketAddrV4 0 80))
      (\<lambda>_. Inr 3) (\<lambda>_. Inr ()) (\<lambda>fd log. log @ [fd]) 3 fuel [''-a'', ''0.0.0.0:80'']
      \<lparr>io_states = [], cur_io = None, token_counter = 1, io_rest = \<lparr>tl_pool = [], os_state = []\<rparr>\<rparr>
      = Some (Inr (Some ()), w')
    \<and> os_state (io_rest w') = [7, 8, 3]"
proof -
  let ?w = "\<lparr>io_states = [], cur_io = None, token_counter = 1, io_rest = \<lparr>tl_pool = [], os_state = []\<rparr>\<rparr>
    :: ((io_token \<times> op) list \<times> raw_fd list \<times> (raw_fd \<Rightarrow> u8 list), raw_fd list thread_state) io_world"
  have "tcp_bind (\<lambda>_. Inr 3) (\<lambda>_. Inr ()) (SocketAddrV4 0 80) = Inr 3" by (simp add: tcp_bind_def)
  from echo_server_serves_all [OF served.io_provider_axioms served_answers _ _ _ this demo_sockets_contract,
      of "([], [7, 8], \<lambda>_. [])" "\<lambda>_. Some (SocketAddrV4 0 80)" "[''-a'', ''0.0.0.0:80'']" ?w "[7, 8]"
        "\<lambda>fd log. log @ [fd]"]
  show ?thesis by (auto simp: numeral_3_eq_3 numeral_2_eq_2)
qed

end
