(* ===== verification/Uring_Kernel.thy ===== *)
theory Uring_Kernel
  imports Uring Http_Echo
begin

text \<open>
  The io_uring backend over a kernel that serves its entries.

  A kernel is a function from an entry and the state of the ring to the completion and the state
  after it.  If the ring accepts entries and reports each completion at some later drain, then the
  backend answers every operation, and what it answers is read off the kernel.  So the statements
  about \<open>block_on\<close> and about the methods of \<open>src/net.rs\<close> hold down to the entries of the ring.
\<close>

section \<open>Serving one entry\<close>

text \<open>The only completion that shows up within \<open>n\<close> drains.\<close>

primrec drains :: "'r ring_ops \<Rightarrow> nat \<Rightarrow> 'r \<Rightarrow> (cqe \<times> 'r) option" where
  "drains R 0 r = None"
| "drains R (Suc n) r =
    (case ring_completions R r of
       ([], r') \<Rightarrow> drains R n r'
     | ([c], r') \<Rightarrow> Some (c, r')
     | _ \<Rightarrow> None)"

text \<open>From the states \<open>J\<close> the ring takes an entry, and its completion is the one that \<open>K\<close> tells.\<close>

definition ring_serves :: "'r ring_ops \<Rightarrow> ('r \<Rightarrow> bool) \<Rightarrow> (sqe \<Rightarrow> 'r \<Rightarrow> cqe \<times> 'r) \<Rightarrow> bool" where
  "ring_serves R J K \<longleftrightarrow>
    (\<forall>e r. J r \<longrightarrow> fst (ring_push R e r)
      \<and> (\<exists>n. drains R n (ring_submit R (snd (ring_push R e r))) = Some (K e r))
      \<and> cqe_user_data (fst (K e r)) = sqe_user_data e \<and> J (snd (K e r)))"

definition uring_awaits :: "(sqe \<Rightarrow> 'r \<Rightarrow> cqe \<times> 'r) \<Rightarrow> (u64 \<times> 'r uring) awaits" where
  "uring_awaits K op s =
    (let b = snd s;
         (entry, pending, p) = uring_prepare op (fst s) (ur_pool b);
         (c, r) = K entry (ring b);
         ((_, res), p') = complete_op c pending p
     in (res, fst s + 1, b\<lparr>ring := r, ur_pool := p'\<rparr>))"

lemma drive_uring:
  assumes "drains R n (ring b) = Some (c, r)" "pending_ops b = [cqe_user_data c \<mapsto> pending]"
    and "complete_op c pending (ur_pool b) = ((op, res), p)"
  shows "drive_op (UringBackend R) n (IoToken (cqe_user_data c)) b
    = Some (res, b\<lparr>ring := r, pending_ops := Map.empty, ur_pool := p\<rparr>)"
  using assms
proof (induction n arbitrary: b)
  case (Suc n)
  obtain cs r' where cs: "ring_completions R (ring b) = (cs, r')" by fastforce
  show ?case
  proof (cases cs)
    case Nil
    then have "uring_poll_complete R b = (Pending, b\<lparr>ring := r'\<rparr>)"
      using uring_poll_idle [of R b] cs by simp
    with Suc.IH [of "b\<lparr>ring := r'\<rparr>"] Suc.prems cs Nil show ?thesis by (simp add: UringBackend_def)
  next
    case (Cons c' cs')
    then have "c' = c" "cs' = []" "r' = r" using Suc.prems(1) cs by (auto split: list.splits)
    then have "uring_poll_complete R b = (Ready [(IoToken (cqe_user_data c), op, res)],
        b\<lparr>ring := r, pending_ops := Map.empty, ur_pool := p\<rparr>)"
      using Suc.prems(2,3) cs Cons by (simp add: uring_poll_complete_def fun_upd_same Let_def del: fun_upd_apply)
    then show ?thesis by (simp add: UringBackend_def)
  qed
qed simp

text \<open>The backend answers.\<close>

lemma uring_answers:
  assumes "ring_serves R J K"
  shows "answers (UringBackend R) (\<lambda>b. J (ring b) \<and> pending_ops b = Map.empty) (uring_awaits K)"
  unfolding answers_def
proof (intro allI impI)
  fix op and s :: "u64 \<times> 'a uring"
  assume I: "J (ring (snd s)) \<and> pending_ops (snd s) = Map.empty"
  obtain u b where s: "s = (u, b)" by fastforce
  obtain e pending p where prep: "uring_prepare op u (ur_pool b) = (e, pending, p)" by (rule uring_prepare_split)
  obtain c r where K: "K e (ring b) = (c, r)" by fastforce
  obtain op' res p' where fin: "complete_op c pending p = ((op', res), p')" by (metis prod.exhaust)
  have ud: "sqe_user_data e = u" using prep by (cases op) (auto split: prod.splits)
  obtain n r1 where R: "ring_push R e (ring b) = (True, r1)" "drains R n (ring_submit R r1) = Some (c, r)"
    "cqe_user_data c = u" "J r"
    using assms I s K ud unfolding ring_serves_def by (metis fst_conv snd_conv prod.collapse)
  let ?b = "b\<lparr>ring := ring_submit R r1, pending_ops := [u \<mapsto> pending], ur_pool := p\<rparr>"
  have sub: "io_submit (UringBackend R) op u b = (IoToken u, u + 1, ?b)"
    using prep R(1) I s by (simp add: UringBackend_def uring_submit_def io_token_new_def fetch_add_def)
  have "drive_op (UringBackend R) n (IoToken (cqe_user_data c)) ?b
      = Some (res, ?b\<lparr>ring := r, pending_ops := Map.empty, ur_pool := p'\<rparr>)"
    by (rule drive_uring) (use R(2,3) fin in simp_all)
  moreover have A: "uring_awaits K op s = (res, u + 1, b\<lparr>ring := r, ur_pool := p'\<rparr>)"
    using s prep K fin by (simp add: uring_awaits_def)
  moreover have "b\<lparr>ring := r, ur_pool := p'\<rparr> = ?b\<lparr>ring := r, pending_ops := Map.empty, ur_pool := p'\<rparr>"
    using I s by (cases b) simp
  ultimately have "await_op (UringBackend R) n op s = Some (uring_awaits K op s)"
    using s sub R(3) by (simp add: await_op_def)
  moreover have "J (ring (snd (snd (uring_awaits K op s)))) \<and> pending_ops (snd (snd (uring_awaits K op s))) = Map.empty"
    using A I s R(4) by simp
  ultimately show "(\<exists>n. await_op (UringBackend R) n op s = Some (uring_awaits K op s))
      \<and> J (ring (snd (snd (uring_awaits K op s)))) \<and> pending_ops (snd (snd (uring_awaits K op s))) = Map.empty"
    by blast
qed

section \<open>Writing to a socket\<close>

text \<open>What the kernel promises about the write entries of a descriptor: it takes at most as many bytes
  as the entry says from the address of the entry, or fails and takes nothing; \<open>patience\<close> bounds how
  often in a row it is interrupted.\<close>

definition kernel_sink :: "(sqe \<Rightarrow> 'r \<Rightarrow> cqe \<times> 'r) \<Rightarrow> raw_fd \<Rightarrow> ('r \<Rightarrow> u8 list) \<Rightarrow> ('r \<Rightarrow> nat) \<Rightarrow> bool" where
  "kernel_sink K fd sent patience \<longleftrightarrow>
    (\<forall>e r c r'. sqe_opcode e = OcWrite \<and> sqe_fd e = fd \<and> K e r = (c, r') \<longrightarrow>
      (if cqe_result c < 0
       then sent r' = sent r \<and> (cqe_result c = - 4 \<longrightarrow> patience r' < patience r)
       else cqe_result c \<le> uint (sqe_len e) \<and> patience r' \<le> patience r
         \<and> sent r' = sent r @ map the (take (nat (cqe_result c)) (sqe_data e))))"

text \<open>One write over the ring.\<close>

lemma uring_write_cases [consumes 2, case_names failed wrote]:
  assumes "kernel_sink K fd sent patience" "uring_awaits K (OpWrite fd 0 (from_slice data)) s = (res, s')"
  obtains (failed) e where "res = Inl (os_error e)" "e < 0" "sent (ring (snd s')) = sent (ring (snd s))"
      "e = - 4 \<longrightarrow> patience (ring (snd s')) < patience (ring (snd s))"
  | (wrote) n where "res = Inr (CWrite n)" "n \<le> length data mod 2 ^ 32"
      "sent (ring (snd s')) = sent (ring (snd s)) @ take n data"
      "patience (ring (snd s')) \<le> patience (ring (snd s))"
proof -
  let ?e = "fst (uring_prepare (OpWrite fd 0 (from_slice data)) (fst s) (ur_pool (snd s)))"
  obtain c r where K: "K ?e (ring (snd s)) = (c, r)" by fastforce
  have e: "sqe_opcode ?e = OcWrite" "sqe_fd ?e = fd" "sqe_data ?e = map Some data"
    "sqe_len ?e = of_nat (length data)"
    by (simp_all add: from_slice_def vec_defs buffer_len_def)
  have sink: "if cqe_result c < 0
       then sent r = sent (ring (snd s)) \<and> (cqe_result c = - 4 \<longrightarrow> patience r < patience (ring (snd s)))
       else cqe_result c \<le> uint (sqe_len ?e) \<and> patience r \<le> patience (ring (snd s))
         \<and> sent r = sent (ring (snd s)) @ map the (take (nat (cqe_result c)) (sqe_data ?e))"
    using assms(1) K e(1,2) unfolding kernel_sink_def by blast
  have s': "ring (snd s') = r" "res = fst (write_result c CWrite (from_slice data) (ur_pool (snd s)))"
    using assms(2) K by (auto simp: uring_awaits_def Let_def split: prod.splits)
  show thesis
  proof (cases "cqe_result c < 0")
    case True
    then show thesis using failed [of "cqe_result c"] sink s' by (simp add: write_result_def)
  next
    case False
    have "uint (sqe_len ?e) = int (length data mod 2 ^ 32)"
      unfolding e(4) by (simp add: unsigned_of_nat take_bit_eq_mod)
    with False wrote [of "nat (cqe_result c)"] sink s' show thesis
      unfolding e(3) by (simp add: write_result_def take_map comp_def nat_le_iff)
  qed
qed

lemma uring_sink:
  assumes "kernel_sink K fd sent patience"
  shows "sink_contract (uring_awaits K) fd (\<lambda>s. sent (ring (snd s))) (\<lambda>s. patience (ring (snd s)))"
  unfolding sink_contract_def
proof (intro allI impI)
  fix data s res s'
  assume "uring_awaits K (OpWrite fd 0 (from_slice data)) s = (res, s')"
  with assms show "case res of
         Inr (CWrite n) \<Rightarrow> n \<le> length data \<and> sent (ring (snd s')) = sent (ring (snd s)) @ take n data
           \<and> patience (ring (snd s')) \<le> patience (ring (snd s))
       | Inr _ \<Rightarrow> sent (ring (snd s')) = sent (ring (snd s))
       | Inl e \<Rightarrow> sent (ring (snd s')) = sent (ring (snd s))
           \<and> (error_kind (io_error_into e) = Interrupted \<longrightarrow> patience (ring (snd s')) < patience (ring (snd s)))"
  proof (cases rule: uring_write_cases)
    case (failed e)
    then show ?thesis by (auto simp: os_error_def split: if_splits)
  next
    case (wrote n)
    moreover from this(2) have "n \<le> length data" by (meson le_trans mod_less_eq_dividend)
    ultimately show ?thesis by simp
  qed
qed

text \<open>The length of an entry has 32 bits, so one write takes less than 4 GiB, and nothing at all of a
  buffer whose length is a multiple of 4 GiB.\<close>

lemma uring_write_wraps:
  assumes "kernel_sink K fd sent patience" "tcp_write (uring_awaits K) fd data s = (Inr n, s')"
  shows "n \<le> length data mod 2 ^ 32"
proof -
  obtain res s1 where A: "uring_awaits K (OpWrite fd 0 (from_slice data)) s = (res, s1)" by (metis prod.exhaust)
  from assms(1) A show ?thesis
    by (cases rule: uring_write_cases) (use assms(2) A in \<open>auto simp: tcp_write_def\<close>)
qed

text \<open>C9. \<open>block_on\<close> of \<open>write_all\<close> over io_uring delivers to the kernel.  Take a ring that accepts entries
  and reports their completions at some later drain, and a kernel that takes a prefix of the bytes
  of a write entry or fails.  Then \<open>Runtime::block_on\<close> on \<open>write_all\<close> returns; what the kernel got is a
  prefix of the buffer, in order and without repetition over short writes and interruptions; the
  result is \<open>Ok\<close> exactly if it is the whole buffer; and the thread-local I/O state is cleared.\<close>

theorem uring_write_all_delivers:
  assumes "ring_serves R J K" "kernel_sink K fd sent patience"
    and "J (ring b)" "pending_ops b = Map.empty" "length buf + patience (ring b) < rounds"
  shows "\<exists>fuel r k w'. runtime_block_on (UringBackend R) (Inr b) (async_future (UringBackend R)) fuel
      (Unresumed (write_all_fn fd rounds buf)) w = Some (Inr (Some r), w')
    \<and> k \<le> length buf \<and> (r = Inr () \<longleftrightarrow> k = length buf)
    \<and> sent (ring (io_backend (io_states w' ! length (io_states w)))) = sent (ring b) @ take k buf
    \<and> cur_io w' = None"
proof -
  let ?A = "uring_awaits K" and ?s = "(token_counter w, b)"
  obtain r k c' b' where W: "write_all ?A fd rounds buf ?s = Some (Inr r, c', b')" "k \<le> length buf"
    "sent (ring b') = sent (ring b) @ take k buf" "r = Inr () \<longleftrightarrow> k = length buf"
    using write_all_sink [OF uring_sink [OF assms(2)], of buf ?s rounds] assms(5) by auto
  have "interp ?A (write_all_fn fd rounds buf) ?s (io_rest w) = (Inr (Some r), (c', b'), io_rest w)"
    using interp_write_all [OF W(1)] by simp
  from io_provider.block_on_interp [OF uring.io_provider_axioms uring_answers [OF assms(1)] _ _ this] assms(3,4) W(2-4) show ?thesis
    by (fastforce simp: uring_in_flight_def)
qed

text \<open>A ring that queues its entries and has a drain serve the first of them.\<close>

definition queue_kernel :: "(sqe \<Rightarrow> 'k \<Rightarrow> cqe \<times> 'k) \<Rightarrow> sqe \<Rightarrow> sqe list \<times> 'k \<Rightarrow> cqe \<times> sqe list \<times> 'k" where
  "queue_kernel K e r = (let (c, k) = K e (snd r) in (c, fst r, k))"

definition queue_ring :: "(sqe \<Rightarrow> 'k \<Rightarrow> cqe \<times> 'k) \<Rightarrow> (sqe list \<times> 'k) ring_ops" where
  "queue_ring K = \<lparr>ring_push = \<lambda>e r. (True, fst r @ [e], snd r), ring_submit = id,
    ring_completions = \<lambda>r. case fst r of [] \<Rightarrow> ([], r)
      | e # q \<Rightarrow> (let (c, r') = queue_kernel K e (q, snd r) in ([c], r'))\<rparr>"

lemma queue_ring_serves:
  assumes "\<And>e k. cqe_user_data (fst (K e k)) = sqe_user_data e"
  shows "ring_serves (queue_ring K) (\<lambda>r. fst r = []) (queue_kernel K)"
  unfolding ring_serves_def
proof (intro allI impI)
  fix e :: sqe and r :: "sqe list \<times> 'a"
  assume "fst r = []"
  then have "drains (queue_ring K) 1 (ring_submit (queue_ring K) (snd (ring_push (queue_ring K) e r)))
      = Some (queue_kernel K e r)"
    by (cases r) (simp add: queue_ring_def split: prod.split)
  moreover have "fst (ring_push (queue_ring K) e r)" by (simp add: queue_ring_def)
  moreover have "cqe_user_data (fst (queue_kernel K e r)) = sqe_user_data e \<and> fst (snd (queue_kernel K e r)) = []"
    using assms [of e "snd r"] \<open>fst r = []\<close> by (simp add: queue_kernel_def split_beta Let_def)
  ultimately show "fst (ring_push (queue_ring K) e r)
      \<and> (\<exists>n. drains (queue_ring K) n (ring_submit (queue_ring K) (snd (ring_push (queue_ring K) e r)))
          = Some (queue_kernel K e r))
      \<and> cqe_user_data (fst (queue_kernel K e r)) = sqe_user_data e \<and> fst (snd (queue_kernel K e r)) = []"
    by blast
qed

lemma min_unat_le: "int (min n (unat (x :: u32))) \<le> uint x"
proof -
  have "int (min n (unat x)) \<le> int (unat x)" by (intro of_nat_mono) simp
  then show ?thesis by simp
qed

text \<open>A kernel that takes at most three bytes of a write, and is interrupted as often as the number says.\<close>

definition slow_kernel :: "sqe \<Rightarrow> u8 list \<times> nat \<Rightarrow> cqe \<times> u8 list \<times> nat" where
  "slow_kernel e k =
    (let n = min 3 (unat (sqe_len e));
         c = \<lparr>cqe_user_data = sqe_user_data e, cqe_result = int n, cqe_written = [], cqe_addr = SockaddrOther 0\<rparr>
     in if snd k = 0 then (c, fst k @ map the (take n (sqe_data e)), 0)
        else (c\<lparr>cqe_result := - 4\<rparr>, fst k, snd k - 1))"

lemma slow_ring_serves: "ring_serves (queue_ring slow_kernel) (\<lambda>r. fst r = []) (queue_kernel slow_kernel)"
  by (rule queue_ring_serves) (simp add: slow_kernel_def Let_def)

lemma slow_kernel_sink: "kernel_sink (queue_kernel slow_kernel) fd (\<lambda>r. fst (snd r)) (\<lambda>r. snd (snd r))"
  by (auto simp: kernel_sink_def queue_kernel_def slow_kernel_def Let_def min_unat_le split: prod.splits if_splits)

theorem uring_write_all_delivers_witness:
  "\<exists>fuel r k w'. runtime_block_on (UringBackend (queue_ring slow_kernel))
      (Inr \<lparr>ring = ([], [9], 2 :: nat), pending_ops = Map.empty, ur_pool = []\<rparr>) (async_future (UringBackend (queue_ring slow_kernel))) fuel
      (Unresumed (write_all_fn 5 8 [1, 2, 3, 4, 5]))
      \<lparr>io_states = [], cur_io = None, token_counter = 1, io_rest = ()\<rparr> = Some (Inr (Some r), w')
    \<and> k \<le> length [1 :: u8, 2, 3, 4, 5] \<and> (r = Inr () \<longleftrightarrow> k = length [1 :: u8, 2, 3, 4, 5])
    \<and> fst (snd (ring (io_backend (io_states w' ! 0)))) = [9] @ take k [1, 2, 3, 4, 5] \<and> cur_io w' = None"
  using uring_write_all_delivers [OF slow_ring_serves slow_kernel_sink [of 5],
      of "\<lparr>ring = ([], [9], 2), pending_ops = Map.empty, ur_pool = []\<rparr>" "[1, 2, 3, 4, 5]" 8
        "\<lparr>io_states = [], cur_io = None, token_counter = 1, io_rest = ()\<rparr>"]
  by simp

section \<open>Serving connections\<close>

text \<open>What the kernel promises about sockets: \<open>conns\<close> are the connections that accept entries of the
  listener hand out before they fail; a read stores as many bytes as it reports, and no more than
  the entry asks for; a write takes a prefix of the bytes of its entry, or fails and takes nothing.\<close>

definition kernel_sockets :: "(sqe \<Rightarrow> 'r \<Rightarrow> cqe \<times> 'r) \<Rightarrow> raw_fd \<Rightarrow> ('r \<Rightarrow> nat list) \<Rightarrow> ('r \<Rightarrow> raw_fd \<Rightarrow> u8 list) \<Rightarrow> bool" where
  "kernel_sockets K listener conns sent \<longleftrightarrow>
    (\<forall>e r c r'. K e r = (c, r') \<longrightarrow>
      (sqe_opcode e = OcAccept \<and> sqe_fd e = listener \<longrightarrow> sent r' = sent r \<and>
        (case conns r of
           [] \<Rightarrow> cqe_result c < 0
         | n # ns \<Rightarrow> cqe_result c = int n \<and> (\<exists>a. decode_addr (cqe_addr c) = Inr a) \<and> conns r' = ns))
      \<and> (sqe_opcode e = OcRead \<longrightarrow> sent r' = sent r \<and> conns r' = conns r
        \<and> cqe_result c \<le> uint (sqe_len e) \<and> length (cqe_written c) = nat (cqe_result c))
      \<and> (sqe_opcode e = OcWrite \<longrightarrow> conns r' = conns r \<and> cqe_result c \<le> uint (sqe_len e)
        \<and> sent r' = (sent r)(sqe_fd e := sent r (sqe_fd e) @ map the (take (nat (cqe_result c)) (sqe_data e)))))"

lemma pool_get_room: "n \<le> vcapacity (fst (pool_get n p))"
  by (auto simp: pool_get_def vec_defs vec_resize_def Let_def split: list.split)

lemma uint_of_nat_le: "uint (of_nat n :: u32) \<le> int n"
  by (simp add: unsigned_of_nat take_bit_eq_mod)

lemma uring_sockets_accept:
  assumes "kernel_sockets K listener conns sent" "uring_awaits K (OpAccept listener) s = (res, s')"
  shows "sent (ring (snd s')) = sent (ring (snd s)) \<and>
    (case conns (ring (snd s)) of
       [] \<Rightarrow> \<exists>e. res = Inl e
     | n # ns \<Rightarrow> (\<exists>addr. res = Inr (CAccept (int n) addr)) \<and> conns (ring (snd s')) = ns)"
proof -
  let ?e = "fst (uring_prepare (OpAccept listener) (fst s) (ur_pool (snd s)))"
  obtain c r where K: "K ?e (ring (snd s)) = (c, r)" by fastforce
  have "ring (snd s') = r" "res = snd (fst (complete_op c (PAccept (OpAccept listener) zeroed_storage) (ur_pool (snd s))))"
    using assms(2) K by (auto simp: uring_awaits_def Let_def split: prod.splits)
  with assms(1) [unfolded kernel_sockets_def, rule_format, OF K] show ?thesis
    by (auto split: list.splits sum.splits)
qed

lemma uring_sockets_read:
  assumes "kernel_sockets K listener conns sent" "uring_awaits K (OpRead fd off n) s = (res, s')"
  shows "sent (ring (snd s')) = sent (ring (snd s)) \<and> conns (ring (snd s')) = conns (ring (snd s))
    \<and> (\<forall>k data. res = Inr (CRead k data) \<longrightarrow> vec_wf data \<and> k \<le> vlen data)"
proof -
  let ?e = "fst (uring_prepare (OpRead fd off n) (fst s) (ur_pool (snd s)))"
  obtain c r where K: "K ?e (ring (snd s)) = (c, r)" by fastforce
  obtain buf p where buf: "pool_get n (ur_pool (snd s)) = (buf, p)" by fastforce
  have s': "ring (snd s') = r" "res = fst (read_result c CRead buf p)"
    using assms(2) K buf by (auto simp: uring_awaits_def Let_def split: prod.splits)
  note os = assms(1) [unfolded kernel_sockets_def, rule_format, OF K]
  have "cqe_result c \<le> int n" "length (cqe_written c) = nat (cqe_result c)"
    using os buf uint_of_nat_le [of n] by auto
  moreover have "n \<le> length (mem buf)" using pool_get_room [of n "ur_pool (snd s)"] buf by (simp add: vcapacity_def)
  ultimately show ?thesis
    using os buf s' by (auto simp: read_result_def set_len_def kernel_fill_def vec_defs Let_def)
qed

lemma uring_sockets_write:
  assumes "kernel_sockets K listener conns sent" "uring_awaits K (OpWrite fd 0 (from_slice data)) s = (res, s')"
  shows "conns (ring (snd s')) = conns (ring (snd s))
    \<and> (\<exists>n. sent (ring (snd s')) = (sent (ring (snd s)))(fd := sent (ring (snd s)) fd @ take n data))"
proof -
  let ?e = "fst (uring_prepare (OpWrite fd 0 (from_slice data)) (fst s) (ur_pool (snd s)))"
  obtain c r where K: "K ?e (ring (snd s)) = (c, r)" by fastforce
  have "ring (snd s') = r" using assms(2) K by (auto simp: uring_awaits_def Let_def split: prod.splits)
  moreover have "sqe_data ?e = map Some data" by (simp add: from_slice_def vec_defs)
  ultimately show ?thesis
    using assms(1) [unfolded kernel_sockets_def, rule_format, OF K] by (auto simp: take_map comp_def)
qed

lemma uring_server:
  assumes "kernel_sockets K listener conns sent"
  shows "server_contract (uring_awaits K) listener (\<lambda>s. map int (conns (ring (snd s)))) (\<lambda>s. sent (ring (snd s)))"
  unfolding server_contract_def
proof (intro conjI allI impI)
  fix s res s'
  assume "uring_awaits K (OpAccept listener) s = (res, s')"
  from uring_sockets_accept [OF assms this]
  show "sent (ring (snd s')) = sent (ring (snd s))"
    "case map int (conns (ring (snd s))) of [] \<Rightarrow> \<exists>e. res = Inl e
     | c # cs \<Rightarrow> (\<exists>addr. res = Inr (CAccept c addr)) \<and> map int (conns (ring (snd s'))) = cs"
    by (auto split: list.splits)
next
  fix fd n s res s'
  assume A: "uring_awaits K (OpRead fd 0 n) s = (res, s')"
  from uring_sockets_read [OF assms this]
  show "sent (ring (snd s')) = sent (ring (snd s))" "map int (conns (ring (snd s'))) = map int (conns (ring (snd s)))"
    "\<And>k data. res = Inr (CRead k data) \<Longrightarrow> vec_wf data" "\<And>k data. res = Inr (CRead k data) \<Longrightarrow> k \<le> vlen data"
    by auto
next
  fix fd data s res s'
  assume "uring_awaits K (OpWrite fd 0 (from_slice data)) s = (res, s')"
  from uring_sockets_write [OF assms this]
  show "map int (conns (ring (snd s'))) = map int (conns (ring (snd s)))"
    "\<exists>n. sent (ring (snd s')) = (sent (ring (snd s)))(fd := sent (ring (snd s)) fd @ take n data)"
    by auto
qed


text \<open>A kernel with connections that wait; a read gets one byte, a write takes at most 20.\<close>

definition socket_kernel :: "sqe \<Rightarrow> nat list \<times> (raw_fd \<Rightarrow> u8 list) \<Rightarrow> cqe \<times> nat list \<times> (raw_fd \<Rightarrow> u8 list)" where
  "socket_kernel e k =
    (let c = \<lparr>cqe_user_data = sqe_user_data e, cqe_result = - 24, cqe_written = [], cqe_addr = SockaddrIn 80 1\<rparr> in
     case sqe_opcode e of
       OcAccept \<Rightarrow> (case fst k of [] \<Rightarrow> (c, k) | n # ns \<Rightarrow> (c\<lparr>cqe_result := int n\<rparr>, ns, snd k))
     | OcRead \<Rightarrow> (if sqe_len e = 0 then (c, k) else (c\<lparr>cqe_result := 1, cqe_written := [71]\<rparr>, k))
     | OcWrite \<Rightarrow> (let n = min 20 (unat (sqe_len e)) in
         (c\<lparr>cqe_result := int n\<rparr>, fst k, (snd k)(sqe_fd e := snd k (sqe_fd e) @ map the (take n (sqe_data e)))))
     | _ \<Rightarrow> (c, k))"

lemma socket_ring_serves: "ring_serves (queue_ring socket_kernel) (\<lambda>r. fst r = []) (queue_kernel socket_kernel)"
  by (rule queue_ring_serves) (simp add: socket_kernel_def Let_def split: opcode.split list.split)

lemma uint_pos: "(x :: u32) \<noteq> 0 \<Longrightarrow> 1 \<le> uint x"
  by (metis int_one_le_iff_zero_less order_le_less uint_0_iff unsigned_greater_eq)

lemma socket_kernel_sockets:
  "kernel_sockets (queue_kernel socket_kernel) listener (\<lambda>r. fst (snd r)) (\<lambda>r. snd (snd r))"
  unfolding kernel_sockets_def
proof (intro allI impI)
  fix e :: sqe and r c r'
  assume K: "queue_kernel socket_kernel e r = (c, r')"
  have neg: "- 24 \<le> uint (sqe_len e)" by (rule order_trans [of _ 0]) simp_all
  show "(sqe_opcode e = OcAccept \<and> sqe_fd e = listener \<longrightarrow> snd (snd r') = snd (snd r) \<and>
        (case fst (snd r) of [] \<Rightarrow> cqe_result c < 0
         | n # ns \<Rightarrow> cqe_result c = int n \<and> (\<exists>a. decode_addr (cqe_addr c) = Inr a) \<and> fst (snd r') = ns))
      \<and> (sqe_opcode e = OcRead \<longrightarrow> snd (snd r') = snd (snd r) \<and> fst (snd r') = fst (snd r)
        \<and> cqe_result c \<le> uint (sqe_len e) \<and> length (cqe_written c) = nat (cqe_result c))
      \<and> (sqe_opcode e = OcWrite \<longrightarrow> fst (snd r') = fst (snd r) \<and> cqe_result c \<le> uint (sqe_len e)
        \<and> snd (snd r') = (snd (snd r))(sqe_fd e := snd (snd r) (sqe_fd e) @ map the (take (nat (cqe_result c)) (sqe_data e))))"
    using K neg uint_pos [of "sqe_len e"] min_unat_le [of 20 "sqe_len e"]
    by (cases "sqe_opcode e") (auto simp: queue_kernel_def socket_kernel_def Let_def split: list.splits if_splits prod.splits)
qed


end
