(* ===== verification/Epoll.thy ===== *)
theory Epoll
  imports Sockaddr Net "HOL-Library.Multiset"
begin

text \<open>
  The readiness-based backend of \<open>src/io/epoll.rs\<close>.

  \<open>mio\<close>, the system calls and the order in which a hash map yields its keys are arguments.  A
  \<open>File\<close> or \<open>UdpSocket\<close> made with \<open>from_raw_fd\<close> owns the descriptor, so dropping it is a \<open>close\<close>.
  The closures given to the thread pool are a list of jobs; how many of them are finished before a
  poll is decided by the world.  A worker only takes buffers from its own pool and never returns
  one, so that pool stays empty.

  The file does not compile as it stands: the closure for \<open>WriteFile\<close> uses a variable
  \<open>len_copy\<close> that is not declared in its scope, so its value is an argument here; the other
  diagnostics (a missing \<open>mut\<close>, a missing \<open>unsafe\<close>, and \<open>as_mut\<close> on a \<open>Buffer\<close>, which offers
  \<open>as_mut_slice\<close>) do not bear on what the code means.
  The counter of \<open>mio\<close> tokens is a number; its overflow after 2 to the 64 submissions is left out.
\<close>

section \<open>Operating system and mio\<close>

datatype interest = READABLE | WRITABLE

record ('p, 'o) epoll_env =
  mio_register :: "raw_fd \<Rightarrow> nat \<Rightarrow> interest \<Rightarrow> 'p \<Rightarrow> (std_io_error + unit) \<times> 'p"
  mio_deregister :: "raw_fd \<Rightarrow> 'p \<Rightarrow> 'p"
  mio_poll :: "'p \<Rightarrow> (std_io_error + nat list) \<times> 'p"
  os_seek :: "raw_fd \<Rightarrow> u64 \<Rightarrow> 'o \<Rightarrow> (std_io_error + unit) \<times> 'o"
  os_read :: "raw_fd \<Rightarrow> usize \<Rightarrow> 'o \<Rightarrow> (std_io_error + u8 list) \<times> 'o"
  os_write :: "raw_fd \<Rightarrow> cell list \<Rightarrow> 'o \<Rightarrow> (std_io_error + usize) \<times> 'o"
  os_sync :: "raw_fd \<Rightarrow> 'o \<Rightarrow> (std_io_error + unit) \<times> 'o"
  os_metadata :: "raw_fd \<Rightarrow> 'o \<Rightarrow> 'o"
  os_close :: "raw_fd \<Rightarrow> 'o \<Rightarrow> (std_io_error + unit) \<times> 'o"
  os_accept :: "raw_fd \<Rightarrow> 'o \<Rightarrow> (std_io_error + raw_fd \<times> sockaddr_storage) \<times> 'o"
  os_recv_from :: "raw_fd \<Rightarrow> usize \<Rightarrow> 'o \<Rightarrow> (std_io_error + u8 list \<times> socket_addr) \<times> 'o"
  os_send_to :: "raw_fd \<Rightarrow> cell list \<Rightarrow> socket_addr \<Rightarrow> 'o \<Rightarrow> (std_io_error + usize) \<times> 'o"
  key_order :: "(nat \<rightharpoonup> io_token \<times> op) \<Rightarrow> nat list"
  jobs_done :: "'o \<Rightarrow> nat"
  len_copy :: usize

text \<open>Dropping the owner of a descriptor closes it; the result is ignored.\<close>

definition drop_fd :: "('p, 'o) epoll_env \<Rightarrow> raw_fd \<Rightarrow> 'o \<Rightarrow> 'o" where
  "drop_fd E fd w = snd (os_close E fd w)"

section \<open>The backend\<close>

text \<open>A closure for the thread pool: token, operation, descriptor, offset and length.\<close>

datatype job = Job io_token op raw_fd u64 usize

record ('p, 'o) epoll =
  ep_poll :: 'p
  ep_pending :: "nat \<rightharpoonup> io_token \<times> op"
  udp_recv_buffers :: "nat \<rightharpoonup> buffer"
  next_token :: nat
  ep_jobs :: "job list"
  completed_ops :: "completion list"
  ep_pool :: pool
  ep_os :: 'o

definition epoll_new :: "std_io_error + 'p \<Rightarrow> pool \<Rightarrow> 'o \<Rightarrow> std_io_error + ('p, 'o) epoll" where
  "epoll_new polled p w =
    (case polled of
       Inl e \<Rightarrow> Inl e
     | Inr q \<Rightarrow> Inr \<lparr>ep_poll = q, ep_pending = Map.empty, udp_recv_buffers = Map.empty, next_token = 0,
         ep_jobs = [], completed_ops = [], ep_pool = p, ep_os = w\<rparr>)"

fun as_raw_fd :: "op \<Rightarrow> raw_fd" where
  "as_raw_fd (OpAccept fd) = fd"
| "as_raw_fd (OpRead fd _ _) = fd"
| "as_raw_fd (OpWrite fd _ _) = fd"
| "as_raw_fd (OpFsync fd) = fd"
| "as_raw_fd (OpClose fd) = fd"
| "as_raw_fd (OpReadFile fd _ _) = fd"
| "as_raw_fd (OpWriteFile fd _ _) = fd"
| "as_raw_fd (OpUdpRecv fd _) = fd"
| "as_raw_fd (OpUdpSend fd _ _) = fd"

text \<open>The derived \<open>Clone\<close> of \<open>Op\<close>.\<close>

fun op_clone :: "op \<Rightarrow> op" where
  "op_clone (OpWrite fd offset data) = OpWrite fd offset (buffer_clone data)"
| "op_clone (OpWriteFile fd offset data) = OpWriteFile fd offset (buffer_clone data)"
| "op_clone (OpUdpRecv fd buffer) = OpUdpRecv fd (buffer_clone buffer)"
| "op_clone (OpUdpSend fd data addr) = OpUdpSend fd (buffer_clone data) addr"
| "op_clone op = op"

section \<open>Submission\<close>

definition ep_register :: "('p, 'o) epoll_env \<Rightarrow> raw_fd \<Rightarrow> nat \<Rightarrow> interest \<Rightarrow> ('p, 'o) epoll
    \<Rightarrow> bool \<times> ('p, 'o) epoll" where
  "ep_register E fd mio_token interest b =
    (case mio_register E fd mio_token interest (ep_poll b) of
       (Inl _, q) \<Rightarrow> (False, b\<lparr>ep_poll := q\<rparr>)
     | (Inr _, q) \<Rightarrow> (True, b\<lparr>ep_poll := q\<rparr>))"

definition ep_insert :: "nat \<Rightarrow> io_token \<Rightarrow> op \<Rightarrow> ('p, 'o) epoll \<Rightarrow> ('p, 'o) epoll" where
  "ep_insert mio_token io_token op b = b\<lparr>ep_pending := (ep_pending b)(mio_token \<mapsto> (io_token, op))\<rparr>"

text \<open>Readiness operations: pending only if the registration succeeded.\<close>

definition submit_ready :: "('p, 'o) epoll_env \<Rightarrow> raw_fd \<Rightarrow> nat \<Rightarrow> interest \<Rightarrow> io_token \<Rightarrow> op
    \<Rightarrow> ('p, 'o) epoll \<Rightarrow> ('p, 'o) epoll" where
  "submit_ready E fd mio_token interest io_token op b =
    (let (registered, b1) = ep_register E fd mio_token interest b in
     if registered then ep_insert mio_token io_token op b1 else b1)"

definition submit_job :: "io_token \<Rightarrow> op \<Rightarrow> raw_fd \<Rightarrow> u64 \<Rightarrow> usize \<Rightarrow> ('p, 'o) epoll \<Rightarrow> ('p, 'o) epoll" where
  "submit_job io_token op fd offset len b = b\<lparr>ep_jobs := ep_jobs b @ [Job io_token (op_clone op) fd offset len]\<rparr>"

fun submit_op :: "('p, 'o) epoll_env \<Rightarrow> nat \<Rightarrow> io_token \<Rightarrow> op \<Rightarrow> ('p, 'o) epoll \<Rightarrow> ('p, 'o) epoll" where
  "submit_op E m tok (OpAccept fd) b = submit_ready E fd m READABLE tok (OpAccept fd) b"
| "submit_op E m tok (OpRead fd offset len) b = submit_ready E fd m READABLE tok (OpRead fd offset len) b"
| "submit_op E m tok (OpWrite fd offset data) b = submit_ready E fd m WRITABLE tok (OpWrite fd offset data) b"
| "submit_op E m tok (OpReadFile fd offset len) b = submit_job tok (OpReadFile fd offset len) fd offset len b"
| "submit_op E m tok (OpWriteFile fd offset data) b =
    submit_job tok (OpWriteFile fd offset data) fd offset (len_copy E) b"
| "submit_op E m tok (OpUdpRecv fd buffer) b =
    (let (_, b1) = ep_register E fd m READABLE b;
         b2 = b1\<lparr>udp_recv_buffers := (udp_recv_buffers b1)(m \<mapsto> buffer_clone buffer)\<rparr>
     in ep_insert m tok (OpUdpRecv fd buffer) b2)"
| "submit_op E m tok (OpUdpSend fd data addr) b =
    (let (_, b1) = ep_register E fd m WRITABLE b in ep_insert m tok (OpUdpSend fd data addr) b1)"
| "submit_op E m tok (OpFsync fd) b =
    (let w = os_metadata E fd (ep_os b) in ep_insert m tok (OpFsync fd) (b\<lparr>ep_os := drop_fd E fd w\<rparr>))"
| "submit_op E m tok (OpClose fd) b =
    (let (_, w) = os_close E fd (ep_os b) in ep_insert m tok (OpClose fd) (b\<lparr>ep_os := w\<rparr>))"

definition epoll_submit :: "('p, 'o) epoll_env \<Rightarrow> op \<Rightarrow> u64 \<Rightarrow> ('p, 'o) epoll
    \<Rightarrow> io_token \<times> u64 \<times> ('p, 'o) epoll" where
  "epoll_submit E op counter b =
    (let (io_token, counter') = io_token_new counter;
         mio_token = next_token b;
         b1 = b\<lparr>next_token := mio_token + 1\<rparr>
     in (io_token, counter', submit_op E mio_token io_token op b1))"

text \<open>A job on a worker: seek, take a buffer of the length, write it, close the descriptor.\<close>

definition job_run :: "('p, 'o) epoll_env \<Rightarrow> raw_fd \<Rightarrow> u64 \<Rightarrow> usize \<Rightarrow> 'o \<Rightarrow> io_result \<times> 'o" where
  "job_run E fd offset len w =
    (case os_seek E fd offset w of
       (Inl e, w1) \<Rightarrow> (Inl (IoErr e), drop_fd E fd w1)
     | (Inr _, w1) \<Rightarrow>
         (let (buf, _) = pool_get len pool_empty in
          case os_write E fd (contents buf) w1 of
            (Inl e, w2) \<Rightarrow> (Inl (IoErr e), drop_fd E fd w2)
          | (Inr bytes_written, w2) \<Rightarrow> (Inr (CWriteFile bytes_written), drop_fd E fd w2)))"

fun job_finish :: "('p, 'o) epoll_env \<Rightarrow> job \<Rightarrow> ('p, 'o) epoll \<Rightarrow> ('p, 'o) epoll" where
  "job_finish E (Job tok op fd offset len) b =
    (let (result, w) = job_run E fd offset len (ep_os b)
     in b\<lparr>completed_ops := completed_ops b @ [(tok, op, result)], ep_os := w\<rparr>)"

definition run_jobs :: "('p, 'o) epoll_env \<Rightarrow> nat \<Rightarrow> ('p, 'o) epoll \<Rightarrow> ('p, 'o) epoll" where
  "run_jobs E n b = fold (job_finish E) (take n (ep_jobs b)) (b\<lparr>ep_jobs := drop n (ep_jobs b)\<rparr>)"

section \<open>Completion\<close>

definition syscall_accept :: "('p, 'o) epoll_env \<Rightarrow> raw_fd \<Rightarrow> 'o \<Rightarrow> io_result \<times> 'o" where
  "syscall_accept E fd w =
    (case os_accept E fd w of
       (Inl e, w1) \<Rightarrow> (Inl (IoErr e), w1)
     | (Inr (new_fd, storage), w1) \<Rightarrow>
         (case decode_addr storage of
            Inl e \<Rightarrow> (Inl e, w1)
          | Inr addr \<Rightarrow> (Inr (CAccept new_fd (Some addr)), w1)))"

definition seek_read :: "('p, 'o) epoll_env \<Rightarrow> (usize \<Rightarrow> buffer \<Rightarrow> completion_kind) \<Rightarrow> raw_fd \<Rightarrow> u64 \<Rightarrow> usize
    \<Rightarrow> pool \<Rightarrow> 'o \<Rightarrow> io_result \<times> pool \<times> 'o" where
  "seek_read E kind fd offset len p w =
    (case os_seek E fd offset w of
       (Inl e, w1) \<Rightarrow> (Inl (IoErr e), p, drop_fd E fd w1)
     | (Inr _, w1) \<Rightarrow>
         (let (buf, p1) = pool_get len p in
          case os_read E fd (buffer_len buf) w1 of
            (Inl e, w2) \<Rightarrow> (Inl (IoErr e), p1, drop_fd E fd w2)
          | (Inr bytes, w2) \<Rightarrow>
              (Inr (kind (length bytes) (set_len (length bytes) (kernel_fill bytes buf))), p1, drop_fd E fd w2)))"

definition seek_write :: "('p, 'o) epoll_env \<Rightarrow> (usize \<Rightarrow> completion_kind) \<Rightarrow> raw_fd \<Rightarrow> u64 \<Rightarrow> buffer
    \<Rightarrow> 'o \<Rightarrow> io_result \<times> 'o" where
  "seek_write E kind fd offset data w =
    (case os_seek E fd offset w of
       (Inl e, w1) \<Rightarrow> (Inl (IoErr e), drop_fd E fd w1)
     | (Inr _, w1) \<Rightarrow>
         (case os_write E fd (as_ref data) w1 of
            (Inl e, w2) \<Rightarrow> (Inl (IoErr e), drop_fd E fd w2)
          | (Inr bytes_written, w2) \<Rightarrow> (Inr (kind bytes_written), drop_fd E fd w2)))"

text \<open>A datagram; nothing is reported when the socket would block: the operation is registered and
  pending again, although leaving the block drops the socket in this case too.\<close>

definition udp_receive :: "('p, 'o) epoll_env \<Rightarrow> nat \<Rightarrow> io_token \<Rightarrow> op \<Rightarrow> raw_fd \<Rightarrow> ('p, 'o) epoll
    \<Rightarrow> io_result option \<times> ('p, 'o) epoll" where
  "udp_receive E m tok op fd b =
    (case udp_recv_buffers b m of
       None \<Rightarrow> (Some (Inl (IoOther ''UDP receive buffer not found for event'')), b)
     | Some buffer \<Rightarrow>
         (let b1 = b\<lparr>udp_recv_buffers := (udp_recv_buffers b)(m := None)\<rparr> in
          case os_recv_from E fd (buffer_len buffer) (ep_os b1) of
            (Inr (bytes, addr), w) \<Rightarrow>
              (Some (Inr (CUdpRecv (length bytes) (set_len (length bytes) (kernel_fill bytes buffer)) addr)),
               b1\<lparr>ep_os := drop_fd E fd w\<rparr>)
          | (Inl e, w) \<Rightarrow>
              (if error_kind e = WouldBlock then
                 (let (_, b2) = ep_register E fd m READABLE (b1\<lparr>ep_os := w\<rparr>);
                      b3 = b2\<lparr>udp_recv_buffers := (udp_recv_buffers b2)(m \<mapsto> buffer)\<rparr>;
                      b4 = ep_insert m tok (op_clone op) b3
                  in (None, b4\<lparr>ep_os := drop_fd E fd (ep_os b4)\<rparr>))
               else (Some (Inl (IoErr e)), b1\<lparr>ep_os := drop_fd E fd w\<rparr>))))"

definition udp_transmit :: "('p, 'o) epoll_env \<Rightarrow> raw_fd \<Rightarrow> buffer \<Rightarrow> socket_addr \<Rightarrow> 'o \<Rightarrow> io_result \<times> 'o" where
  "udp_transmit E fd data addr w =
    (case os_send_to E fd (as_ref data) addr w of
       (Inl e, w1) \<Rightarrow> (Inl (IoErr e), drop_fd E fd w1)
     | (Inr bytes_written, w1) \<Rightarrow> (Inr (CUdpSend bytes_written (buffer_clone data)), drop_fd E fd w1))"

text \<open>The result of an operation whose descriptor is ready.\<close>

fun ready_op :: "('p, 'o) epoll_env \<Rightarrow> nat \<Rightarrow> io_token \<Rightarrow> op \<Rightarrow> ('p, 'o) epoll
    \<Rightarrow> io_result option \<times> ('p, 'o) epoll" where
  "ready_op E m tok (OpAccept fd) b =
    (let (r, w) = syscall_accept E fd (ep_os b) in (Some r, b\<lparr>ep_os := w\<rparr>))"
| "ready_op E m tok (OpRead fd offset len) b =
    (let (r, p, w) = seek_read E CRead fd offset len (ep_pool b) (ep_os b) in (Some r, b\<lparr>ep_pool := p, ep_os := w\<rparr>))"
| "ready_op E m tok (OpWrite fd offset data) b =
    (let (r, w) = seek_write E CWrite fd offset data (ep_os b) in (Some r, b\<lparr>ep_os := w\<rparr>))"
| "ready_op E m tok (OpReadFile fd offset len) b =
    (let (r, p, w) = seek_read E CReadFile fd offset len (ep_pool b) (ep_os b) in (Some r, b\<lparr>ep_pool := p, ep_os := w\<rparr>))"
| "ready_op E m tok (OpWriteFile fd offset data) b =
    (let (r, w) = seek_write E CWriteFile fd offset data (ep_os b) in (Some r, b\<lparr>ep_os := w\<rparr>))"
| "ready_op E m tok (OpUdpRecv fd buffer) b = udp_receive E m tok (OpUdpRecv fd buffer) fd b"
| "ready_op E m tok (OpUdpSend fd data addr) b =
    (let (r, w) = udp_transmit E fd data addr (ep_os b) in (Some r, b\<lparr>ep_os := w\<rparr>))"
| "ready_op E m tok (OpFsync fd) b = (None, b)"
| "ready_op E m tok (OpClose fd) b = (None, b)"

primrec handle_events :: "('p, 'o) epoll_env \<Rightarrow> nat list \<Rightarrow> ('p, 'o) epoll \<Rightarrow> completion list \<times> ('p, 'o) epoll" where
  "handle_events E [] b = ([], b)"
| "handle_events E (m # ms) b =
    (case ep_pending b m of
       None \<Rightarrow> handle_events E ms b
     | Some (tok, op) \<Rightarrow>
         (let b1 = b\<lparr>ep_pending := (ep_pending b)(m := None), ep_poll := mio_deregister E (as_raw_fd op) (ep_poll b)\<rparr>;
              (r, b2) = ready_op E m tok op b1;
              (cs, b3) = handle_events E ms b2
          in (case r of None \<Rightarrow> cs | Some result \<Rightarrow> (tok, op, result) # cs, b3)))"

text \<open>The operations that are carried out by the poll itself.\<close>

definition sync_result :: "('p, 'o) epoll_env \<Rightarrow> op \<Rightarrow> 'o \<Rightarrow> (io_result \<times> 'o) option" where
  "sync_result E op w =
    (case op of
       OpFsync fd \<Rightarrow>
         (case os_sync E fd w of
            (Inl e, w1) \<Rightarrow> Some (Inl (IoErr e), drop_fd E fd w1)
          | (Inr _, w1) \<Rightarrow> Some (Inr CFsync, drop_fd E fd w1))
     | OpClose fd \<Rightarrow>
         (case os_close E fd w of
            (Inl e, w1) \<Rightarrow> Some (Inl (IoErr e), w1)
          | (Inr _, w1) \<Rightarrow> Some (Inr CClose, w1))
     | _ \<Rightarrow> None)"

primrec handle_sync :: "('p, 'o) epoll_env \<Rightarrow> nat list \<Rightarrow> ('p, 'o) epoll \<Rightarrow> completion list \<times> ('p, 'o) epoll" where
  "handle_sync E [] b = ([], b)"
| "handle_sync E (m # ms) b =
    (case ep_pending b m of
       None \<Rightarrow> handle_sync E ms b
     | Some (tok, op) \<Rightarrow>
         (case sync_result E op (ep_os b) of
            None \<Rightarrow> handle_sync E ms b
          | Some (result, w) \<Rightarrow>
              (let (cs, b1) = handle_sync E ms (b\<lparr>ep_pending := (ep_pending b)(m := None), ep_os := w\<rparr>)
               in ((tok, op, result) # cs, b1))))"

definition epoll_poll_complete :: "('p, 'o) epoll_env \<Rightarrow> ('p, 'o) epoll \<Rightarrow> completion list poll \<times> ('p, 'o) epoll" where
  "epoll_poll_complete E b =
    (let cs0 = completed_ops b; b1 = b\<lparr>completed_ops := []\<rparr> in
     case mio_poll E (ep_poll b1) of
       (Inl _, q) \<Rightarrow> (Ready cs0, b1\<lparr>ep_poll := q\<rparr>)
     | (Inr events, q) \<Rightarrow>
         (let (cs1, b2) = handle_events E events (b1\<lparr>ep_poll := q\<rparr>);
              (cs2, b3) = handle_sync E (key_order E (ep_pending b2)) b2;
              completions = cs0 @ cs1 @ cs2
          in (if completions = [] then Pending else Ready completions, b3)))"

text \<open>As a provider: the jobs that finished since the last poll have pushed their results.\<close>

definition EpollBackend :: "('p, 'o) epoll_env \<Rightarrow> ('p, 'o) epoll io_ops" where
  "EpollBackend E = \<lparr>io_submit = epoll_submit E,
     io_poll_complete = (\<lambda>b. epoll_poll_complete E (run_jobs E (jobs_done E (ep_os b)) b))\<rparr>"

section \<open>The backend is a provider\<close>

text \<open>The tokens of a map of pending operations, and that each occurs once.\<close>

definition mtoks :: "(nat \<rightharpoonup> io_token \<times> op) \<Rightarrow> io_token set" where
  "mtoks P = {t. \<exists>m op. P m = Some (t, op)}"

definition minj :: "(nat \<rightharpoonup> io_token \<times> op) \<Rightarrow> bool" where
  "minj P \<longleftrightarrow> (\<forall>m m' t op op'. P m = Some (t, op) \<longrightarrow> P m' = Some (t, op') \<longrightarrow> m = m')"

fun job_token :: "job \<Rightarrow> io_token" where
  "job_token (Job tok _ _ _ _) = tok"

definition epoll_in_flight :: "('p, 'o) epoll \<Rightarrow> io_token set" where
  "epoll_in_flight b = mtoks (ep_pending b) \<union> job_token ` set (ep_jobs b) \<union> fst ` set (completed_ops b)"

definition epoll_ok :: "('p, 'o) epoll \<Rightarrow> bool" where
  "epoll_ok b \<longleftrightarrow> minj (ep_pending b) \<and> dom (ep_pending b) \<subseteq> {..<next_token b}
    \<and> distinct (map job_token (ep_jobs b) @ map fst (completed_ops b))
    \<and> mtoks (ep_pending b) \<inter> (job_token ` set (ep_jobs b) \<union> fst ` set (completed_ops b)) = {}"

lemma mtoks_empty [simp]: "mtoks Map.empty = {}"
  by (simp add: mtoks_def)

lemma mtoks_remove:
  assumes "minj P" "P m = Some (t, op)"
  shows "mtoks (P(m := None)) = mtoks P - {t}" "minj (P(m := None))" "t \<in> mtoks P"
proof -
  show "t \<in> mtoks P" using assms(2) by (auto simp: mtoks_def)
  show "minj (P(m := None))"
    unfolding minj_def fun_upd_apply by (metis assms(1) minj_def option.distinct(1))
  show "mtoks (P(m := None)) = mtoks P - {t}"
  proof (rule set_eqI)
    fix x
    have "x \<in> mtoks (P(m := None)) \<longleftrightarrow> (\<exists>m' op'. m' \<noteq> m \<and> P m' = Some (x, op'))"
      unfolding mtoks_def mem_Collect_eq fun_upd_apply by (metis option.distinct(1))
    also have "\<dots> \<longleftrightarrow> x \<in> mtoks P - {t}"
      unfolding mtoks_def using assms unfolding minj_def by (auto; metis Pair_inject option.inject)
    finally show "x \<in> mtoks (P(m := None)) \<longleftrightarrow> x \<in> mtoks P - {t}" .
  qed
qed

lemma mtoks_insert:
  assumes "minj P" "P m = None" "t \<notin> mtoks P"
  shows "mtoks (P(m \<mapsto> (t, op))) = insert t (mtoks P)" "minj (P(m \<mapsto> (t, op)))"
proof -
  show "mtoks (P(m \<mapsto> (t, op))) = insert t (mtoks P)"
    unfolding mtoks_def using assms(2) by (auto split: if_splits) (metis option.distinct(1))+
  show "minj (P(m \<mapsto> (t, op)))"
    using assms(1,3) unfolding minj_def mtoks_def by (auto split: if_splits)
qed

text \<open>Completions that take their tokens out of the map, each once.\<close>

definition consumes :: "(nat \<rightharpoonup> io_token \<times> op) \<Rightarrow> completion list \<Rightarrow> (nat \<rightharpoonup> io_token \<times> op) \<Rightarrow> bool" where
  "consumes P cs P' \<longleftrightarrow> minj P' \<and> dom P' \<subseteq> dom P \<and> distinct (map fst cs) \<and> fst ` set cs \<subseteq> mtoks P
    \<and> mtoks P' \<subseteq> mtoks P - fst ` set cs"

lemma consumes_refl: "minj P \<Longrightarrow> consumes P [] P"
  by (simp add: consumes_def)

lemma consumes_mono:
  assumes "consumes Q cs P'" "mtoks Q \<subseteq> mtoks P" "dom Q \<subseteq> dom P"
  shows "consumes P cs P'"
  unfolding consumes_def
proof (intro conjI)
  have "dom P' \<subseteq> dom Q" using assms(1) by (simp only: consumes_def)
  then show "dom P' \<subseteq> dom P" using assms(3) by (rule subset_trans)
qed (use assms(1,2) in \<open>auto simp: consumes_def\<close>)

lemma dom_remove: "dom (P(m := None)) \<subseteq> dom P"
  by auto

lemma consumes_skip:
  assumes "minj P" "P m = Some (t, op)" "consumes (P(m := None)) cs P'"
  shows "consumes P cs P'"
  by (rule consumes_mono [OF assms(3) _ dom_remove]) (simp add: mtoks_remove(1) [OF assms(1,2)])

lemma consumes_take:
  assumes "minj P" "P m = Some (t, op)" "consumes (P(m := None)) cs P'"
  shows "consumes P ((t, op', r) # cs) P'"
  unfolding consumes_def
proof (intro conjI)
  note c = assms(3) [unfolded consumes_def mtoks_remove(1) [OF assms(1,2)]]
  have "dom P' \<subseteq> dom (P(m := None))" using assms(3) by (simp only: consumes_def)
  then show "dom P' \<subseteq> dom P" by (rule subset_trans [OF _ dom_remove])
  show "minj P'" "distinct (map fst ((t, op', r) # cs))" "mtoks P' \<subseteq> mtoks P - fst ` set ((t, op', r) # cs)"
    using c by auto
  show "fst ` set ((t, op', r) # cs) \<subseteq> mtoks P" using c mtoks_remove(3) [OF assms(1,2)] by auto
qed

lemma consumes_put:
  assumes "minj P" "P m = Some (t, op)" "consumes (P(m \<mapsto> (t, op'))) cs P'"
  shows "consumes P cs P'"
proof (rule consumes_mono [OF assms(3)])
  note rm = mtoks_remove [OF assms(1,2)]
  show "mtoks (P(m \<mapsto> (t, op'))) \<subseteq> mtoks P"
    using mtoks_insert(1) [OF rm(2), of m t op'] rm(1,3) by auto
  show "dom (P(m \<mapsto> (t, op'))) \<subseteq> dom P" using assms(2) by auto
qed

lemma minj_put:
  assumes "minj P" "P m = Some (t, op)"
  shows "minj (P(m \<mapsto> (t, op')))"
  using mtoks_insert(2) [OF mtoks_remove(2) [OF assms], of m t op'] mtoks_remove(1) [OF assms] by simp

lemma consumes_trans:
  assumes "consumes P cs P'" "consumes P' cs' P''"
  shows "consumes P (cs @ cs') P''"
  unfolding consumes_def
proof (intro conjI)
  have "dom P'' \<subseteq> dom P'" "dom P' \<subseteq> dom P" using assms by (simp_all only: consumes_def)
  then show "dom P'' \<subseteq> dom P" by (rule subset_trans)
  have "fst ` set cs \<inter> fst ` set cs' = {}" using assms unfolding consumes_def by blast
  then show "distinct (map fst (cs @ cs'))" using assms unfolding consumes_def by simp
qed (use assms in \<open>auto simp: consumes_def\<close>)

text \<open>Handling an operation leaves the queues alone; at most it puts the operation back.\<close>

lemma ep_register_frame:
  "ep_register E fd m i b = (x, b') \<Longrightarrow> ep_pending b' = ep_pending b \<and> ep_jobs b' = ep_jobs b
    \<and> completed_ops b' = completed_ops b \<and> next_token b' = next_token b
    \<and> udp_recv_buffers b' = udp_recv_buffers b \<and> ep_os b' = ep_os b"
  by (auto simp: ep_register_def split: prod.splits sum.splits)

lemma udp_receive_frame:
  "udp_receive E m tok op fd b = (r, b') \<Longrightarrow>
    ep_jobs b' = ep_jobs b \<and> completed_ops b' = completed_ops b \<and> next_token b' = next_token b
    \<and> ep_pending b' = (if r = None then (ep_pending b)(m \<mapsto> (tok, op_clone op)) else ep_pending b)"
  by (auto simp: udp_receive_def Let_def ep_insert_def dest!: ep_register_frame
      split: option.splits prod.splits sum.splits if_splits)

lemma ready_op_frame:
  assumes "ready_op E m tok op b = (r, b')"
  shows "ep_jobs b' = ep_jobs b \<and> completed_ops b' = completed_ops b \<and> next_token b' = next_token b
    \<and> (ep_pending b' = ep_pending b \<or> r = None \<and> ep_pending b' = (ep_pending b)(m \<mapsto> (tok, op_clone op)))"
proof (cases "\<exists>fd buffer. op = OpUdpRecv fd buffer")
  case True
  then obtain fd buffer where "op = OpUdpRecv fd buffer" by blast
  with assms udp_receive_frame [of E m tok op fd b r b'] show ?thesis by (auto split: if_splits)
next
  case False
  with assms show ?thesis by (cases op) (auto split: prod.splits)
qed

lemma handle_events_consumes:
  assumes "handle_events E ms b = (cs, b')" "minj (ep_pending b)"
  shows "consumes (ep_pending b) cs (ep_pending b') \<and> ep_jobs b' = ep_jobs b
    \<and> completed_ops b' = completed_ops b \<and> next_token b' = next_token b"
  using assms
proof (induction ms arbitrary: b cs)
  case Nil
  then show ?case by (simp add: consumes_refl)
next
  case (Cons m ms)
  show ?case
  proof (cases "ep_pending b m")
    case None
    with Cons.prems(1) have "handle_events E ms b = (cs, b')" by simp
    then show ?thesis by (rule Cons.IH [OF _ Cons.prems(2)])
  next
    case (Some x)
    obtain tok op where x: "x = (tok, op)" by fastforce
    note old = Cons.prems(2) Some [unfolded x]
    let ?b1 = "b\<lparr>ep_pending := (ep_pending b)(m := None), ep_poll := mio_deregister E (as_raw_fd op) (ep_poll b)\<rparr>"
    obtain r b2 where r: "ready_op E m tok op ?b1 = (r, b2)" by fastforce
    obtain cs' where cs': "handle_events E ms b2 = (cs', b')"
      "cs = (case r of None \<Rightarrow> cs' | Some result \<Rightarrow> (tok, op, result) # cs')"
      using Cons.prems(1) Some x r by (auto split: prod.splits)
    from ready_op_frame [OF r] consider
        (put) "r = None" "ep_pending b2 = (ep_pending b)(m \<mapsto> (tok, op_clone op))"
      | (gone) "ep_pending b2 = (ep_pending b)(m := None)"
      by fastforce
    then show ?thesis
    proof cases
      case put
      have "minj (ep_pending b2)" unfolding put(2) by (rule minj_put [OF old])
      note IH = Cons.IH [OF cs'(1) this]
      then have "consumes (ep_pending b) cs' (ep_pending b')"
        unfolding put(2) by (blast intro: consumes_put [OF old])
      with IH ready_op_frame [OF r] cs'(2) put(1) show ?thesis by simp
    next
      case gone
      have "minj (ep_pending b2)" unfolding gone by (rule mtoks_remove(2) [OF old])
      note IH = Cons.IH [OF cs'(1) this]
      then have "consumes ((ep_pending b)(m := None)) cs' (ep_pending b')" unfolding gone by blast
      from consumes_skip [OF old this] consumes_take [OF old this] IH ready_op_frame [OF r] cs'(2)
      show ?thesis by (cases r) simp_all
    qed
  qed
qed

lemma handle_sync_consumes:
  assumes "handle_sync E ms b = (cs, b')" "minj (ep_pending b)"
  shows "consumes (ep_pending b) cs (ep_pending b') \<and> ep_jobs b' = ep_jobs b
    \<and> completed_ops b' = completed_ops b \<and> next_token b' = next_token b"
  using assms
proof (induction ms arbitrary: b cs)
  case Nil
  then show ?case by (simp add: consumes_refl)
next
  case (Cons m ms)
  show ?case
  proof (cases "\<exists>tok op result w. ep_pending b m = Some (tok, op) \<and> sync_result E op (ep_os b) = Some (result, w)")
    case False
    then have "handle_sync E (m # ms) b = handle_sync E ms b"
      by (auto split: option.splits prod.splits)
    with Cons.prems(1) have "handle_sync E ms b = (cs, b')" by simp
    then show ?thesis by (rule Cons.IH [OF _ Cons.prems(2)])
  next
    case True
    then obtain tok op result w where s: "ep_pending b m = Some (tok, op)" "sync_result E op (ep_os b) = Some (result, w)"
      by blast
    then obtain cs' where cs': "handle_sync E ms (b\<lparr>ep_pending := (ep_pending b)(m := None), ep_os := w\<rparr>) = (cs', b')"
      "cs = (tok, op, result) # cs'"
      using Cons.prems(1) by (auto split: prod.splits)
    note old = Cons.prems(2) s(1)
    let ?b = "b\<lparr>ep_pending := (ep_pending b)(m := None), ep_os := w\<rparr>"
    have pend: "ep_pending ?b = (ep_pending b)(m := None)" by simp
    have "minj (ep_pending ?b)" unfolding pend by (rule mtoks_remove(2) [OF old])
    note IH = Cons.IH [OF cs'(1) this]
    then have "consumes ((ep_pending b)(m := None)) cs' (ep_pending b')" unfolding pend by blast
    from consumes_take [OF old this] IH cs'(2) show ?thesis by simp
  qed
qed

lemma fold_job_finish:
  "map fst (completed_ops (fold (job_finish E) js b)) = map fst (completed_ops b) @ map job_token js
   \<and> ep_pending (fold (job_finish E) js b) = ep_pending b \<and> ep_jobs (fold (job_finish E) js b) = ep_jobs b
   \<and> next_token (fold (job_finish E) js b) = next_token b"
proof (induction js arbitrary: b)
  case (Cons j js)
  obtain tok op fd offset len where j: "j = Job tok op fd offset len" by (cases j)
  obtain r w where "job_run E fd offset len (ep_os b) = (r, w)" by fastforce
  with Cons.IH [of "job_finish E j b"] j show ?case by simp
qed simp

lemma run_jobs_effect:
  "ep_pending (run_jobs E n b) = ep_pending b" "next_token (run_jobs E n b) = next_token b"
  "ep_jobs (run_jobs E n b) = drop n (ep_jobs b)"
  "map fst (completed_ops (run_jobs E n b)) = map fst (completed_ops b) @ map job_token (take n (ep_jobs b))"
  unfolding run_jobs_def by (simp_all add: fold_job_finish)

lemma set_fst_map: "fst ` set cs = set (map fst cs)"
  by simp

lemma run_jobs_ok:
  "epoll_in_flight (run_jobs E n b) = epoll_in_flight b" "epoll_ok (run_jobs E n b) \<longleftrightarrow> epoll_ok b"
proof -
  have js: "set (ep_jobs b) = set (take n (ep_jobs b)) \<union> set (drop n (ep_jobs b))"
    by (metis append_take_drop_id set_append)
  have m: "mset (map job_token (drop n (ep_jobs b)) @ map fst (completed_ops b) @ map job_token (take n (ep_jobs b)))
      = mset (map job_token (ep_jobs b) @ map fst (completed_ops b))"
    by (metis (no_types, lifting) append_take_drop_id map_append mset_append union_assoc union_commute)
  then have d: "distinct (map job_token (drop n (ep_jobs b)) @ map fst (completed_ops b) @ map job_token (take n (ep_jobs b)))
      \<longleftrightarrow> distinct (map job_token (ep_jobs b) @ map fst (completed_ops b))"
    by (metis mset_eq_imp_distinct_iff)
  have c: "fst ` set (completed_ops (run_jobs E n b)) = fst ` set (completed_ops b) \<union> job_token ` set (take n (ep_jobs b))"
    unfolding set_fst_map run_jobs_effect(4) by simp
  show "epoll_in_flight (run_jobs E n b) = epoll_in_flight b"
    unfolding epoll_in_flight_def run_jobs_effect(1,3) c js by auto
  show "epoll_ok (run_jobs E n b) \<longleftrightarrow> epoll_ok b"
    unfolding epoll_ok_def run_jobs_effect c d [symmetric] js image_Un by (simp add: Un_ac)
qed

lemma epoll_poll_effect:
  assumes "epoll_poll_complete E b = (r, b')" "epoll_ok b"
  obtains cs where "r = Ready (completed_ops b @ cs) \<or> r = Pending \<and> completed_ops b = [] \<and> cs = []"
    "consumes (ep_pending b) cs (ep_pending b')" "ep_jobs b' = ep_jobs b" "completed_ops b' = []"
    "next_token b' = next_token b"
proof -
  let ?b1 = "b\<lparr>completed_ops := []\<rparr>"
  have inj: "minj (ep_pending b)" using assms(2) by (simp add: epoll_ok_def)
  obtain ev q where ev: "mio_poll E (ep_poll b) = (ev, q)" by fastforce
  show thesis
  proof (cases ev)
    case (Inl e)
    with assms(1) ev consumes_refl [OF inj] that [of "[]"] show thesis
      by (auto simp: epoll_poll_complete_def)
  next
    case (Inr events)
    obtain cs1 b2 where h1: "handle_events E events (?b1\<lparr>ep_poll := q\<rparr>) = (cs1, b2)" by fastforce
    obtain cs2 b3 where h2: "handle_sync E (key_order E (ep_pending b2)) b2 = (cs2, b3)" by fastforce
    have e1: "consumes (ep_pending b) cs1 (ep_pending b2)" "ep_jobs b2 = ep_jobs b" "completed_ops b2 = []"
      "next_token b2 = next_token b"
      using handle_events_consumes [OF h1] inj by simp_all
    then have "minj (ep_pending b2)" by (simp add: consumes_def)
    note e2 = handle_sync_consumes [OF h2 this]
    have "b' = b3" "r = (if completed_ops b @ cs1 @ cs2 = [] then Pending else Ready (completed_ops b @ cs1 @ cs2))"
      using assms(1) ev Inr h1 h2 by (auto simp: epoll_poll_complete_def Let_def)
    with e1 e2 consumes_trans [OF e1(1)] that [of "cs1 @ cs2"] show thesis by (auto split: if_splits)
  qed
qed

lemma submit_op_effect:
  "completed_ops (submit_op E m tok op b) = completed_ops b \<and> next_token (submit_op E m tok op b) = next_token b
   \<and> (ep_jobs (submit_op E m tok op b) = ep_jobs b \<and>
        (ep_pending (submit_op E m tok op b) = ep_pending b
         \<or> ep_pending (submit_op E m tok op b) = (ep_pending b)(m \<mapsto> (tok, op)))
      \<or> ep_pending (submit_op E m tok op b) = ep_pending b
        \<and> (\<exists>op' fd offset len. ep_jobs (submit_op E m tok op b) = ep_jobs b @ [Job tok op' fd offset len]))"
  by (cases op) (auto simp: submit_ready_def submit_job_def ep_insert_def Let_def dest!: ep_register_frame
      split: prod.splits)

lemma epoll_submit_ok:
  assumes "epoll_submit E op c b = (tok, c', b')" "epoll_ok b" "IoToken c \<notin> epoll_in_flight b"
  shows "epoll_ok b' \<and> epoll_in_flight b' \<subseteq> insert (IoToken c) (epoll_in_flight b)"
proof -
  let ?m = "next_token b"
  have b': "b' = submit_op E ?m (IoToken c) op (b\<lparr>next_token := ?m + 1\<rparr>)"
    using assms(1) by (auto simp: epoll_submit_def io_token_new_def fetch_add_def Let_def)
  have fresh: "ep_pending b ?m = None" "minj (ep_pending b)" "IoToken c \<notin> mtoks (ep_pending b)"
    "dom (ep_pending b) \<subseteq> {..<?m}"
    using assms(2,3) by (auto simp: epoll_ok_def epoll_in_flight_def)
  have dom1: "dom (ep_pending b) \<subseteq> {..<Suc ?m}" "dom ((ep_pending b)(?m \<mapsto> (IoToken c, op))) \<subseteq> {..<Suc ?m}"
    using fresh(4) by (auto simp: less_Suc_eq)
  have eff: "completed_ops b' = completed_ops b" "next_token b' = Suc ?m"
    using submit_op_effect [of E ?m "IoToken c" op "b\<lparr>next_token := ?m + 1\<rparr>"] b' by simp_all
  from submit_op_effect [of E ?m "IoToken c" op "b\<lparr>next_token := ?m + 1\<rparr>"] b'
  consider (same) "ep_jobs b' = ep_jobs b" "ep_pending b' = ep_pending b"
    | (pend) "ep_jobs b' = ep_jobs b" "ep_pending b' = (ep_pending b)(?m \<mapsto> (IoToken c, op))"
    | (job) op' fd offset len where "ep_jobs b' = ep_jobs b @ [Job (IoToken c) op' fd offset len]" "ep_pending b' = ep_pending b"
    by auto
  then show ?thesis
  proof cases
    case same
    with assms(2) dom1(1) eff show ?thesis by (auto simp: epoll_ok_def epoll_in_flight_def)
  next
    case pend
    note ins = mtoks_insert [OF fresh(2,1,3), of op]
    from assms(2,3) dom1(2) eff pend(1) show ?thesis
      unfolding epoll_ok_def epoll_in_flight_def pend(2) ins(1) using ins(2) by auto
  next
    case job
    with assms(2,3) dom1(1) eff show ?thesis by (auto simp: epoll_ok_def epoll_in_flight_def)
  qed
qed

lemma epoll_poll_ok:
  assumes "epoll_poll_complete E b = (Ready cs, b')" "epoll_ok b"
  shows "epoll_ok b' \<and> set (map fst cs) \<subseteq> epoll_in_flight b \<and> distinct (map fst cs)
    \<and> epoll_in_flight b' \<subseteq> epoll_in_flight b - set (map fst cs)"
proof -
  obtain cs' where e: "cs = completed_ops b @ cs'" "consumes (ep_pending b) cs' (ep_pending b')"
    "ep_jobs b' = ep_jobs b" "completed_ops b' = []" "next_token b' = next_token b"
    using epoll_poll_effect [OF assms] by (metis poll.distinct(1) poll.inject)
  have sets: "set (map fst cs) = fst ` set (completed_ops b) \<union> fst ` set cs'" using e(1) by auto
  have t: "fst ` set cs' \<subseteq> mtoks (ep_pending b)" "mtoks (ep_pending b') \<subseteq> mtoks (ep_pending b) - fst ` set cs'"
    "dom (ep_pending b') \<subseteq> dom (ep_pending b)" "minj (ep_pending b')" "distinct (map fst cs')"
    using e(2) by (simp_all only: consumes_def)
  have ok: "mtoks (ep_pending b) \<inter> (job_token ` set (ep_jobs b) \<union> fst ` set (completed_ops b)) = {}"
    "job_token ` set (ep_jobs b) \<inter> fst ` set (completed_ops b) = {}" "dom (ep_pending b) \<subseteq> {..<next_token b}"
    "distinct (map job_token (ep_jobs b))" "distinct (map fst (completed_ops b))"
    using assms(2) by (simp_all add: epoll_ok_def)
  have "distinct (map fst cs)" using e(1) t(1,5) ok(1,5) by auto
  moreover have "epoll_ok b'"
    unfolding epoll_ok_def e(3-5) using t ok by (simp add: subset_trans) blast
  moreover have "set (map fst cs) \<subseteq> epoll_in_flight b" "epoll_in_flight b' \<subseteq> epoll_in_flight b - set (map fst cs)"
    unfolding sets epoll_in_flight_def e(3,4) using t(1,2) ok(1,2) by auto
  ultimately show ?thesis by blast
qed

lemma epoll_poll_none:
  assumes "epoll_poll_complete E b = (Pending, b')" "epoll_ok b"
  shows "epoll_ok b' \<and> epoll_in_flight b' \<subseteq> epoll_in_flight b"
proof -
  have e: "consumes (ep_pending b) [] (ep_pending b')" "ep_jobs b' = ep_jobs b" "completed_ops b' = []"
    "completed_ops b = []" "next_token b' = next_token b"
    using epoll_poll_effect [OF assms] by (metis poll.distinct(1))+
  have t: "mtoks (ep_pending b') \<subseteq> mtoks (ep_pending b)" "dom (ep_pending b') \<subseteq> dom (ep_pending b)" "minj (ep_pending b')"
    using e(1) by (simp_all add: consumes_def)
  then show ?thesis
    using assms(2) e(2-5) unfolding epoll_ok_def epoll_in_flight_def by (auto dest: subset_trans)
qed

interpretation epoll: io_provider "EpollBackend E" epoll_in_flight epoll_ok for E
proof unfold_locales
  fix op c b tok c' b'
  assume sub: "io_submit (EpollBackend E) op c b = (tok, c', b')"
  then show "tok = IoToken c \<and> c' = c + 1"
    by (auto simp: EpollBackend_def epoll_submit_def io_token_new_def fetch_add_def Let_def)
  assume "epoll_ok b" "IoToken c \<notin> epoll_in_flight b"
  with sub show "epoll_ok b' \<and> epoll_in_flight b' \<subseteq> insert (IoToken c) (epoll_in_flight b)"
    by (intro epoll_submit_ok) (simp_all add: EpollBackend_def)
next
  fix b cs b'
  assume "epoll_ok b" "io_poll_complete (EpollBackend E) b = (Ready cs, b')"
  then show "epoll_ok b' \<and> set (map fst cs) \<subseteq> epoll_in_flight b \<and> distinct (map fst cs)
        \<and> epoll_in_flight b' \<subseteq> epoll_in_flight b - set (map fst cs)"
    using epoll_poll_ok [of E "run_jobs E (jobs_done E (ep_os b)) b" cs b']
    by (simp add: EpollBackend_def run_jobs_ok)
next
  fix b b'
  assume "epoll_ok b" "io_poll_complete (EpollBackend E) b = (Pending, b')"
  then show "epoll_ok b' \<and> epoll_in_flight b' \<subseteq> epoll_in_flight b"
    using epoll_poll_none [of E "run_jobs E (jobs_done E (ep_os b)) b" b']
    by (simp add: EpollBackend_def run_jobs_ok)
qed

section \<open>Descriptors\<close>

definition EBADF :: std_io_error where
  "EBADF = OsError 9"

text \<open>What the system calls do to the set of open descriptors, and that they fail on a closed one.\<close>

definition fd_contract :: "('p, 'o) epoll_env \<Rightarrow> ('o \<Rightarrow> raw_fd set) \<Rightarrow> bool" where
  "fd_contract E opened \<longleftrightarrow>
    (\<forall>fd w. opened (snd (os_close E fd w)) = opened w - {fd} \<and> (fd \<notin> opened w \<longrightarrow> fst (os_close E fd w) = Inl EBADF))
    \<and> (\<forall>fd offset w. opened (snd (os_seek E fd offset w)) = opened w
        \<and> (fd \<notin> opened w \<longrightarrow> fst (os_seek E fd offset w) = Inl EBADF))
    \<and> (\<forall>fd w. opened (snd (os_sync E fd w)) = opened w \<and> (fd \<notin> opened w \<longrightarrow> fst (os_sync E fd w) = Inl EBADF))
    \<and> (\<forall>fd w. opened (os_metadata E fd w) = opened w)
    \<and> (\<forall>fd n w. opened (snd (os_read E fd n w)) = opened w)
    \<and> (\<forall>fd cells w. opened (snd (os_write E fd cells w)) = opened w)"

definition stream_op :: "op \<Rightarrow> bool" where
  "stream_op op \<longleftrightarrow> (case op of OpRead _ _ _ \<Rightarrow> True | OpWrite _ _ _ \<Rightarrow> True | _ \<Rightarrow> False)"

lemma drop_fd_closed: "fd_contract E opened \<Longrightarrow> fd \<notin> opened (drop_fd E fd w)"
  by (simp add: fd_contract_def drop_fd_def)

lemma closed_seek:
  assumes "fd_contract E opened" "fd \<notin> opened w"
  obtains w' where "os_seek E fd offset w = (Inl EBADF, w')"
proof -
  have "fst (os_seek E fd offset w) = Inl EBADF" using assms by (simp add: fd_contract_def)
  then show thesis using that by (metis prod.collapse)
qed

lemma stream_op_closes:
  assumes "fd_contract E opened" "stream_op op" "ready_op E m tok op b = (r, b')"
  shows "r \<noteq> None \<and> as_raw_fd op \<notin> opened (ep_os b') \<and> ep_pending b' = ep_pending b"
  using assms
  by (cases op) (auto simp: stream_op_def seek_read_def seek_write_def Let_def drop_fd_closed
      split: prod.splits sum.splits)

lemma stream_op_on_closed:
  assumes "fd_contract E opened" "stream_op op" "as_raw_fd op \<notin> opened (ep_os b)"
  shows "\<exists>b'. ready_op E m tok op b = (Some (Inl (IoErr EBADF)), b')"
proof (cases op)
  case (OpRead fd offset len)
  with assms(3) obtain w' where "os_seek E fd offset (ep_os b) = (Inl EBADF, w')"
    using closed_seek [OF assms(1), of fd "ep_os b" offset] by auto
  with OpRead show ?thesis by (simp add: seek_read_def)
next
  case (OpWrite fd offset data)
  with assms(3) obtain w' where "os_seek E fd offset (ep_os b) = (Inl EBADF, w')"
    using closed_seek [OF assms(1), of fd "ep_os b" offset] by auto
  with OpWrite show ?thesis by (simp add: seek_write_def)
qed (use assms(2) in \<open>simp_all add: stream_op_def\<close>)

text \<open>A world that is its set of open descriptors; reads return one byte and writes take everything.\<close>

definition demo_epoll_env :: "(unit, raw_fd set) epoll_env" where
  "demo_epoll_env = \<lparr>mio_register = \<lambda>_ _ _ q. (Inr (), q), mio_deregister = \<lambda>_ q. q, mio_poll = \<lambda>q. (Inr [], q),
     os_seek = \<lambda>fd _ w. (if fd \<in> w then Inr () else Inl EBADF, w), os_read = \<lambda>_ _ w. (Inr [7], w),
     os_write = \<lambda>_ cells w. (Inr (length cells), w), os_sync = \<lambda>fd w. (if fd \<in> w then Inr () else Inl EBADF, w),
     os_metadata = \<lambda>_ w. w, os_close = \<lambda>fd w. (if fd \<in> w then Inr () else Inl EBADF, w - {fd}),
     os_accept = \<lambda>_ w. (Inl EBADF, w), os_recv_from = \<lambda>_ _ w. (Inl EBADF, w), os_send_to = \<lambda>_ _ _ w. (Inl EBADF, w),
     key_order = \<lambda>P. sorted_list_of_set (dom P), jobs_done = \<lambda>_. 0, len_copy = 0\<rparr>"

definition demo_epoll :: "(unit, raw_fd set) epoll" where
  "demo_epoll = \<lparr>ep_poll = (), ep_pending = Map.empty, udp_recv_buffers = Map.empty, next_token = 0,
     ep_jobs = [], completed_ops = [], ep_pool = [], ep_os = {3}\<rparr>"

lemma demo_fd_contract: "fd_contract demo_epoll_env (\<lambda>w. w)"
  by (simp add: fd_contract_def demo_epoll_env_def)

section \<open>Properties\<close>



text \<open>On the epoll backend reading a file overwrites it.  The job for \<open>ReadFile\<close> seeks to the
  offset and then writes a buffer of zeros of the requested length there; and \<open>AsyncFile::read_at\<close>,
  which awaits the result of that job, never succeeds.\<close>

theorem epoll_read_file_overwrites:
  assumes "os_seek E fd offset w = (Inr (), w1)" "fst (A (OpReadFile fd offset len) v) = fst (job_run E fd offset len w)"
  shows "snd (job_run E fd offset len w) = drop_fd E fd (snd (os_write E fd (replicate len (Some 0)) w1))
    \<and> (\<exists>e. fst (read_at A fd offset len v) = Inl e)"
proof -
  obtain buf p where buf: "pool_get len pool_empty = (buf, p)" by fastforce
  then have z: "contents buf = replicate len (Some 0)"
    using pool_get_zeroed [OF pool_wf_empty, of len] by (simp add: zeroed_buffer_def)
  obtain r w2 where wr: "os_write E fd (replicate len (Some 0)) w1 = (r, w2)" by fastforce
  have "job_run E fd offset len w = (case r of Inl e \<Rightarrow> Inl (IoErr e) | Inr n \<Rightarrow> Inr (CWriteFile n), drop_fd E fd w2)"
    using assms(1) buf z wr by (cases r) (simp_all add: job_run_def)
  with assms(2) wr show ?thesis
    by (cases "A (OpReadFile fd offset len) v"; cases r) (simp_all add: read_at_def)
qed

theorem epoll_read_file_overwrites_witness:
  "\<exists>e. fst (read_at (\<lambda>op w. job_run demo_epoll_env 3 0 4 w) 3 0 4 {3}) = Inl e"
  using epoll_read_file_overwrites [of demo_epoll_env 3 0 "{3}" "{3}" "\<lambda>op w. job_run demo_epoll_env 3 0 4 w" 4 "{3}"]
  by (simp add: demo_epoll_env_def)

text \<open>\<open>Close\<close> and \<open>Fsync\<close> always report \<open>EBADF\<close>: the submission has closed the descriptor
  when the poll carries out the operation.\<close>

lemma epoll_close_reports_error:
  assumes "fd_contract E opened" "op = OpClose fd \<or> op = OpFsync fd"
    and "ep_pending b = Map.empty" "completed_ops b = []" "fst (mio_poll E (ep_poll b)) = Inr []"
    and "\<And>m x. key_order E [m \<mapsto> x] = [m]"
    and "epoll_submit E op c b = (tok, c', b')"
  shows "fst (epoll_poll_complete E b') = Ready [(tok, op, Inl (IoErr EBADF))]"
proof -
  let ?m = "next_token b"
  define w where "w = (case op of OpClose _ \<Rightarrow> snd (os_close E fd (ep_os b)) | _ \<Rightarrow> drop_fd E fd (os_metadata E fd (ep_os b)))"
  have w: "b' = b\<lparr>next_token := Suc ?m, ep_os := w, ep_pending := [?m \<mapsto> (tok, op)]\<rparr>"
    using assms(2,3,7)
    by (auto simp: epoll_submit_def io_token_new_def fetch_add_def Let_def ep_insert_def w_def split: prod.splits)
  have closed: "fd \<notin> opened w"
    using assms(2) drop_fd_closed [OF assms(1), of fd] by (auto simp: w_def drop_fd_def)
  have "fst (os_close E fd w) = Inl EBADF" "fst (os_sync E fd w) = Inl EBADF"
    using assms(1) closed by (simp_all add: fd_contract_def)
  then obtain x where x: "sync_result E op w = Some (Inl (IoErr EBADF), x)"
    using assms(2) by (cases "os_close E fd w"; cases "os_sync E fd w") (auto simp: sync_result_def)
  obtain q where "mio_poll E (ep_poll b) = (Inr [], q)" using assms(5) by (cases "mio_poll E (ep_poll b)") simp
  with w x assms(4,6) show ?thesis by (simp add: epoll_poll_complete_def)
qed

end
