(* ===== verification/Text.thy ===== *)
theory Text
  imports Prelude
begin

text \<open>
  Strings of the Rust standard library, as far as \<open>src/http.rs\<close> uses them.

  A \<open>str\<close> is the list of its Unicode scalar values; \<open>encode_utf8\<close> and \<open>decode_utf8\<close> are the
  conversions to and from bytes (\<open>into_bytes\<close>, \<open>str::from_utf8\<close>).  \<open>lines\<close>, \<open>split_whitespace\<close>,
  \<open>trim\<close> and \<open>find\<close> are written out.  The Unicode case mappings of \<open>to_lowercase\<close> and
  \<open>to_uppercase\<close> are tables of the standard library; they are passed as arguments, with their
  documented behaviour on ASCII strings as a hypothesis.
\<close>

type_synonym rstr = "nat list"

definition lit :: "string \<Rightarrow> rstr" where
  "lit s = map of_char s"

section \<open>UTF-8\<close>

definition scalar :: "nat \<Rightarrow> bool" where
  "scalar c \<longleftrightarrow> c < 0x110000 \<and> \<not> (0xD800 \<le> c \<and> c < 0xE000)"

definition encode_char :: "nat \<Rightarrow> nat list" where
  "encode_char c =
    (if c < 0x80 then [c]
     else if c < 0x800 then [0xC0 + c div 64, 0x80 + c mod 64]
     else if c < 0x10000 then [0xE0 + c div 4096, 0x80 + c div 64 mod 64, 0x80 + c mod 64]
     else [0xF0 + c div 262144, 0x80 + c div 4096 mod 64, 0x80 + c div 64 mod 64, 0x80 + c mod 64])"

definition encode_utf8 :: "rstr \<Rightarrow> u8 list" where
  "encode_utf8 s = map of_nat (concat (map encode_char s))"

definition cont_byte :: "nat \<Rightarrow> bool" where
  "cont_byte b \<longleftrightarrow> 0x80 \<le> b \<and> b < 0xC0"

definition cont_value :: "nat list \<Rightarrow> nat" where
  "cont_value bs = foldl (\<lambda>n b. 64 * n + (b - 0x80)) 0 bs"

text \<open>The first sequence of the input: its length and its scalar value.  Overlong forms, surrogates
  and values beyond the last plane are refused.\<close>

definition decode_first :: "nat \<Rightarrow> nat list \<Rightarrow> (nat \<times> nat list) option" where
  "decode_first b bs =
    (let n = (if b < 0x80 then 0 else if 0xC0 \<le> b \<and> b < 0xE0 then 1 else if 0xE0 \<le> b \<and> b < 0xF0 then 2
              else if 0xF0 \<le> b \<and> b < 0xF8 then 3 else 4);
         c = (if n = 0 then b else if n = 1 then (b - 0xC0) * 64 + cont_value (take 1 bs)
              else if n = 2 then (b - 0xE0) * 4096 + cont_value (take 2 bs)
              else (b - 0xF0) * 262144 + cont_value (take 3 bs))
     in if n < 4 \<and> n \<le> length bs \<and> list_all cont_byte (take n bs) \<and> scalar c
           \<and> (n = 1 \<longrightarrow> 0x80 \<le> c) \<and> (n = 2 \<longrightarrow> 0x800 \<le> c) \<and> (n = 3 \<longrightarrow> 0x10000 \<le> c)
        then Some (c, drop n bs) else None)"

lemma decode_first_shorter: "decode_first b bs = Some (c, rest) \<Longrightarrow> length rest \<le> length bs"
  by (auto simp: decode_first_def Let_def split: if_splits)

function decode_nats :: "nat list \<Rightarrow> rstr option" where
  "decode_nats [] = Some []"
| "decode_nats (b # bs) =
    (case decode_first b bs of
       None \<Rightarrow> None
     | Some (c, rest) \<Rightarrow> map_option (Cons c) (decode_nats rest))"
  by pat_completeness auto
termination
  by (relation "measure length") (auto dest: decode_first_shorter)

definition decode_utf8 :: "u8 list \<Rightarrow> rstr option" where
  "decode_utf8 bs = decode_nats (map unat bs)"

lemma radix64: "c div n * n + c mod n = (c :: nat)"
  by simp

lemma digits2: "c div 4096 * 4096 + (64 * (c div 64 mod 64) + c mod 64) = (c :: nat)"
proof -
  have "c div 4096 = c div 64 div 64" by (simp flip: div_mult2_eq)
  then show ?thesis using radix64 [of c 64] radix64 [of "c div 64" 64] by linarith
qed

lemma radix64_join: "a * 64 + b = d \<Longrightarrow> d * 4096 + (64 * e + f) = (c :: nat)
    \<Longrightarrow> a * 262144 + (64 * (64 * b + e) + f) = c"
  by (simp flip: mult.assoc add: add_mult_distrib)

lemma digits3: "c div 262144 * 262144 + (64 * (64 * (c div 4096 mod 64) + c div 64 mod 64) + c mod 64) = (c :: nat)"
proof -
  have "c div 262144 = c div 4096 div 64" by (simp flip: div_mult2_eq)
  then show ?thesis using radix64_join [OF radix64 [of "c div 4096" 64] digits2 [of c]] by simp
qed

lemma cont_byte_mod: "cont_byte (128 + c mod 64)"
  by (simp add: cont_byte_def)

lemma cont_value_simps:
  "cont_value [128 + x] = x"
  "cont_value [128 + x, 128 + y] = 64 * x + y"
  "cont_value [128 + x, 128 + y, 128 + z] = 64 * (64 * x + y) + z"
  by (simp_all add: cont_value_def)

lemma decode_first_1:
  assumes "c < 0x800" "0x80 \<le> c"
  shows "decode_first (0xC0 + c div 64) ((0x80 + c mod 64) # rest) = Some (c, rest)"
proof -
  have "c div 64 < 32" using assms by simp
  with assms show ?thesis
    by (simp add: decode_first_def cont_value_simps cont_byte_mod scalar_def)
qed

lemma decode_first_2:
  assumes "c < 0x10000" "0x800 \<le> c" "scalar c"
  shows "decode_first (0xE0 + c div 4096) ((0x80 + c div 64 mod 64) # (0x80 + c mod 64) # rest) = Some (c, rest)"
proof -
  have "c div 4096 < 16" using assms by simp
  moreover have "take 2 (x # y # r) = [x, y]" "drop 2 (x # y # r) = r" for x y :: nat and r
    by (simp_all add: numeral_2_eq_2)
  ultimately show ?thesis
    unfolding decode_first_def using assms digits2 [of c]
    by (simp add: cont_value_simps cont_byte_mod)
qed

lemma decode_first_3:
  assumes "0x10000 \<le> c" "scalar c"
  shows "decode_first (0xF0 + c div 262144)
    ((0x80 + c div 4096 mod 64) # (0x80 + c div 64 mod 64) # (0x80 + c mod 64) # rest) = Some (c, rest)"
proof -
  have "c div 262144 < 5" using assms(2) by (simp add: scalar_def less_mult_imp_div_less)
  moreover have "take 3 (x # y # z # r) = [x, y, z]" "drop 3 (x # y # z # r) = r" for x y z :: nat and r
    by (simp_all add: numeral_3_eq_3)
  ultimately show ?thesis
    unfolding decode_first_def using assms digits3 [of c]
    by (simp add: cont_value_simps cont_byte_mod)
qed

lemma decode_encode_first:
  assumes "scalar c"
  shows "decode_first (hd (encode_char c)) (tl (encode_char c) @ rest) = Some (c, rest)"
proof -
  consider "c < 0x80" | "0x80 \<le> c" "c < 0x800" | "0x800 \<le> c" "c < 0x10000" | "0x10000 \<le> c"
    by linarith
  then show ?thesis
  proof cases
    case 1
    then show ?thesis using assms by (simp add: encode_char_def decode_first_def)
  next
    case 2
    then show ?thesis by (simp add: encode_char_def decode_first_1)
  next
    case 3
    then show ?thesis using assms by (simp add: encode_char_def decode_first_2)
  next
    case 4
    then show ?thesis using assms by (simp add: encode_char_def decode_first_3)
  qed
qed

lemma encode_char_bytes: "scalar c \<Longrightarrow> b \<in> set (encode_char c) \<Longrightarrow> b < 256"
  by (auto simp: encode_char_def scalar_def less_mult_imp_div_less split: if_splits)

lemma encode_char_nonempty: "encode_char c \<noteq> []"
  by (simp add: encode_char_def)

lemma decode_encode_nats: "list_all scalar s \<Longrightarrow> decode_nats (concat (map encode_char s)) = Some s"
proof (induction s)
  case (Cons c s)
  obtain b bs where b: "encode_char c = b # bs" using encode_char_nonempty by (metis neq_Nil_conv)
  with decode_encode_first [of c "concat (map encode_char s)"] Cons show ?case by simp
qed simp

lemma decode_encode_utf8: "list_all scalar s \<Longrightarrow> decode_utf8 (encode_utf8 s) = Some s"
proof -
  assume s: "list_all scalar s"
  then have "\<forall>b \<in> set (concat (map encode_char s)). unat (of_nat b :: u8) = b"
    by (auto simp: list_all_iff unat_of_nat dest!: encode_char_bytes)
  then have "map unat (map (of_nat :: nat \<Rightarrow> u8) (concat (map encode_char s))) = concat (map encode_char s)"
    unfolding map_map comp_def by (intro map_idI) blast
  with s show ?thesis by (simp add: decode_utf8_def encode_utf8_def decode_encode_nats)
qed

lemma encode_utf8_append [simp]: "encode_utf8 (s @ t) = encode_utf8 s @ encode_utf8 t"
  by (simp add: encode_utf8_def)

lemma encode_utf8_Nil [simp]: "encode_utf8 [] = []"
  by (simp add: encode_utf8_def)

section \<open>Lines and words\<close>

text \<open>A line ends with a line feed, or with a carriage return and a line feed; the last line need
  not end.\<close>

definition strip_cr :: "rstr \<Rightarrow> rstr" where
  "strip_cr l = (if l \<noteq> [] \<and> last l = 13 then butlast l else l)"

function lines :: "rstr \<Rightarrow> rstr list" where
  "lines s =
    (if s = [] then []
     else case dropWhile (\<lambda>c. c \<noteq> 10) s of
       [] \<Rightarrow> [s]
     | _ # rest \<Rightarrow> strip_cr (takeWhile (\<lambda>c. c \<noteq> 10) s) # lines rest)"
  by pat_completeness auto
termination
proof (relation "measure length")
  fix s x and rest :: rstr
  assume "dropWhile (\<lambda>c. c \<noteq> 10) s = x # rest"
  then have "length (x # rest) \<le> length s" by (metis length_dropWhile_le)
  then show "(rest, s) \<in> measure length" by simp
qed simp

declare lines.simps [simp del]

text \<open>The code points with the property \<open>White_Space\<close>.\<close>

definition whitespace :: "nat \<Rightarrow> bool" where
  "whitespace c \<longleftrightarrow> 9 \<le> c \<and> c \<le> 13 \<or> c = 0x20 \<or> c = 0x85 \<or> c = 0xA0 \<or> c = 0x1680
     \<or> 0x2000 \<le> c \<and> c \<le> 0x200A \<or> c = 0x2028 \<or> c = 0x2029 \<or> c = 0x202F \<or> c = 0x205F \<or> c = 0x3000"

function split_whitespace :: "rstr \<Rightarrow> rstr list" where
  "split_whitespace s =
    (let s' = dropWhile whitespace s in
     if s' = [] then []
     else takeWhile (\<lambda>c. \<not> whitespace c) s' # split_whitespace (dropWhile (\<lambda>c. \<not> whitespace c) s'))"
  by pat_completeness auto
termination
proof (relation "measure length")
  fix s s'
  assume "s' = dropWhile whitespace s" "s' \<noteq> []"
  then obtain c t where t: "s' = c # t" "\<not> whitespace c" "length s' \<le> length s"
    by (metis hd_dropWhile list.exhaust_sel length_dropWhile_le)
  then show "(dropWhile (\<lambda>c. \<not> whitespace c) s', s) \<in> measure length"
    using length_dropWhile_le [of "\<lambda>c. \<not> whitespace c" t] by simp
qed simp

declare split_whitespace.simps [simp del]

definition trim :: "rstr \<Rightarrow> rstr" where
  "trim s = rev (dropWhile whitespace (rev (dropWhile whitespace s)))"

fun find_char :: "nat \<Rightarrow> rstr \<Rightarrow> nat option" where
  "find_char c [] = None"
| "find_char c (x # xs) = (if x = c then Some 0 else map_option Suc (find_char c xs))"

fun join :: "rstr \<Rightarrow> rstr list \<Rightarrow> rstr" where
  "join sep [] = []"
| "join sep [s] = s"
| "join sep (s # ss) = s @ sep @ join sep ss"

definition ascii :: "rstr \<Rightarrow> bool" where
  "ascii s \<longleftrightarrow> list_all (\<lambda>c. c < 128) s"

definition ascii_lower :: "nat \<Rightarrow> nat" where
  "ascii_lower c = (if 65 \<le> c \<and> c \<le> 90 then c + 32 else c)"

definition ascii_upper :: "nat \<Rightarrow> nat" where
  "ascii_upper c = (if 97 \<le> c \<and> c \<le> 122 then c - 32 else c)"

text \<open>The case mappings, and what the documentation says of them on ASCII strings.\<close>

record str_case =
  to_lowercase :: "rstr \<Rightarrow> rstr"
  to_uppercase :: "rstr \<Rightarrow> rstr"

definition ascii_case :: "str_case \<Rightarrow> bool" where
  "ascii_case U \<longleftrightarrow> (\<forall>s. ascii s \<longrightarrow> to_lowercase U s = map ascii_lower s \<and> to_uppercase U s = map ascii_upper s)"

definition ascii_tables :: str_case where
  "ascii_tables = \<lparr>to_lowercase = map ascii_lower, to_uppercase = map ascii_upper\<rparr>"

lemma ascii_case_tables: "ascii_case ascii_tables"
  by (simp add: ascii_case_def ascii_tables_def)

section \<open>Lemmas\<close>

lemma lines_Nil [simp]: "lines [] = []"
  by (simp add: lines.simps)

lemma lines_split:
  assumes "10 \<notin> set l"
  shows "lines (l @ 10 # rest) = strip_cr l # lines rest"
proof -
  have "dropWhile (\<lambda>c. c \<noteq> 10) (l @ 10 # rest) = 10 # rest" "takeWhile (\<lambda>c. c \<noteq> 10) (l @ 10 # rest) = l"
    using assms by (auto simp: dropWhile_append takeWhile_append)
  then show ?thesis by (subst lines.simps) simp
qed

lemma lines_last:
  assumes "s \<noteq> []" "10 \<notin> set s"
  shows "lines s = [s]"
proof -
  have "dropWhile (\<lambda>c. c \<noteq> 10) s = []" using assms(2) by auto
  with assms(1) show ?thesis by (subst lines.simps) (simp del: dropWhile_eq_Nil_conv)
qed

lemma strip_cr_snoc [simp]: "strip_cr (l @ [13]) = l"
  by (simp add: strip_cr_def)

lemma lines_crlf: "10 \<notin> set l \<Longrightarrow> lines (l @ 13 # 10 # rest) = l # lines rest"
  using lines_split [of "l @ [13]" rest] by simp

definition word :: "rstr \<Rightarrow> bool" where
  "word w \<longleftrightarrow> w \<noteq> [] \<and> list_all (\<lambda>c. \<not> whitespace c) w"

lemma whitespace_space [simp]: "whitespace 32"
  by (simp add: whitespace_def)

lemma split_whitespace_space [simp]: "split_whitespace (32 # s) = split_whitespace s"
  by (subst (1 2) split_whitespace.simps) simp

lemma split_whitespace_Nil [simp]: "split_whitespace [] = []"
  by (subst split_whitespace.simps) simp

lemma split_whitespace_word:
  assumes "word w"
  shows "split_whitespace (w @ 32 # s) = w # split_whitespace (32 # s)" "split_whitespace w = [w]"
proof -
  obtain c t where w: "w = c # t" "\<not> whitespace c" using assms by (cases w) (auto simp: word_def)
  have front: "dropWhile whitespace (w @ u) = w @ u" for u using w by simp
  have split: "takeWhile (\<lambda>c. \<not> whitespace c) (w @ 32 # s) = w"
    "dropWhile (\<lambda>c. \<not> whitespace c) (w @ 32 # s) = 32 # s"
    using assms by (auto simp: word_def list_all_iff takeWhile_append dropWhile_append)
  show "split_whitespace (w @ 32 # s) = w # split_whitespace (32 # s)"
    by (subst split_whitespace.simps) (simp only: front split Let_def, simp)
  have "takeWhile (\<lambda>c. \<not> whitespace c) w = w" "dropWhile (\<lambda>c. \<not> whitespace c) w = []"
    using assms by (auto simp: word_def list_all_iff)
  then show "split_whitespace w = [w]"
    using front [of "[]"] w(1) by (subst split_whitespace.simps) simp
qed

lemma find_char_append: "c \<notin> set s \<Longrightarrow> find_char c (s @ c # t) = Some (length s)"
  by (induction s) auto

definition trimmed :: "rstr \<Rightarrow> bool" where
  "trimmed s \<longleftrightarrow> s = [] \<or> \<not> whitespace (hd s) \<and> \<not> whitespace (last s)"

lemma dropWhile_hd: "s = [] \<or> \<not> P (hd s) \<Longrightarrow> dropWhile P s = s"
  by (cases s) simp_all

lemma trim_trimmed: "trimmed s \<Longrightarrow> trim s = s"
  unfolding trimmed_def trim_def by (auto simp: dropWhile_hd hd_rev)

lemma trim_space: "trimmed s \<Longrightarrow> trim (32 # s) = s"
  using trim_trimmed [of s] by (simp add: trim_def)

text \<open>A body that \<open>lines\<close> and \<open>join\<close> reproduce.\<close>

fun no_crlf :: "rstr \<Rightarrow> bool" where
  "no_crlf (a # b # s) \<longleftrightarrow> \<not> (a = 13 \<and> b = 10) \<and> no_crlf (b # s)"
| "no_crlf _ \<longleftrightarrow> True"

lemma no_crlf_split: "no_crlf (l @ 10 # rest) \<Longrightarrow> strip_cr l = l \<and> no_crlf rest"
proof (induction l rule: no_crlf.induct)
  case (1 a b s)
  then show ?case by (auto simp: strip_cr_def)
qed (cases rest; auto simp: strip_cr_def)+

lemma join_lines: "no_crlf s \<Longrightarrow> s = [] \<or> last s \<noteq> 10 \<Longrightarrow> join [10] (lines s) = s"
proof (induction s rule: length_induct)
  case (1 s)
  show ?case
  proof (cases "10 \<in> set s")
    case True
    then obtain l rest where s: "s = l @ 10 # rest" "10 \<notin> set l" by (metis split_list_first)
    with "1.prems" have "rest \<noteq> []" "strip_cr l = l" "no_crlf rest" "last rest \<noteq> 10"
      using no_crlf_split [of l rest] by (auto split: if_splits)
    moreover from this have "lines rest \<noteq> []" by (subst lines.simps) (simp split: list.split)
    moreover have "length rest < length s" using s by simp
    ultimately have "join [10] (lines rest) = rest" using "1.IH" by simp
    with \<open>lines rest \<noteq> []\<close> \<open>strip_cr l = l\<close> s show ?thesis
      by (cases "lines rest") (simp_all add: lines_split)
  qed (cases s; simp add: lines_last)
qed

end
