(* ===== verification/Http.thy ===== *)
theory Http
  imports Text Net
begin

text \<open>
  The HTTP layer of \<open>src/http.rs\<close>: methods, status codes, requests and their parser, responses and
  their serialisation, the connection and the static handler.  A \<open>HashMap\<close> of headers is a map;
  the order in which \<open>to_bytes\<close> iterates over it is an argument.  The echo handler prints the
  headers with \<open>Debug\<close>, whose escape tables are not modelled.
\<close>

section \<open>Methods and status codes\<close>

datatype http_method = GET | POST | PUT | DELETE | HEAD | OPTIONS | PATCH | Other rstr

fun method_display :: "http_method \<Rightarrow> rstr" where
  "method_display GET = lit ''GET''"
| "method_display POST = lit ''POST''"
| "method_display PUT = lit ''PUT''"
| "method_display DELETE = lit ''DELETE''"
| "method_display HEAD = lit ''HEAD''"
| "method_display OPTIONS = lit ''OPTIONS''"
| "method_display PATCH = lit ''PATCH''"
| "method_display (Other m) = m"

definition method_from :: "str_case \<Rightarrow> rstr \<Rightarrow> http_method" where
  "method_from U m =
    (let u = to_uppercase U m in
     if u = lit ''GET'' then GET
     else if u = lit ''POST'' then POST
     else if u = lit ''PUT'' then PUT
     else if u = lit ''DELETE'' then DELETE
     else if u = lit ''HEAD'' then HEAD
     else if u = lit ''OPTIONS'' then OPTIONS
     else if u = lit ''PATCH'' then PATCH
     else Other m)"

type_synonym status_code = u16

definition status_OK :: status_code where "status_OK = 200"
definition status_NOT_FOUND :: status_code where "status_NOT_FOUND = 404"
definition status_INTERNAL_SERVER_ERROR :: status_code where "status_INTERNAL_SERVER_ERROR = 500"
definition status_BAD_REQUEST :: status_code where "status_BAD_REQUEST = 400"

definition status_display :: "status_code \<Rightarrow> rstr" where
  "status_display c =
    (let reason = (if c = 200 then ''OK'' else if c = 400 then ''Bad Request'' else if c = 404 then ''Not Found''
       else if c = 500 then ''Internal Server Error'' else ''Unknown'')
     in lit (decimal (unat c)) @ lit '' '' @ lit reason)"

section \<open>Requests\<close>

type_synonym header_map = "rstr \<rightharpoonup> rstr"

record http_request =
  req_method :: http_method
  req_path :: rstr
  req_version :: rstr
  req_headers :: header_map
  req_body :: "u8 list"

definition request_new :: "http_method \<Rightarrow> rstr \<Rightarrow> http_request" where
  "request_new m path = \<lparr>req_method = m, req_path = path, req_version = lit ''HTTP/1.1'',
     req_headers = Map.empty, req_body = []\<rparr>"

text \<open>The loop over the header lines: the headers, and where the body starts.\<close>

primrec parse_headers :: "str_case \<Rightarrow> nat \<Rightarrow> rstr list \<Rightarrow> header_map \<Rightarrow> header_map \<times> nat option" where
  "parse_headers U i [] h = (h, None)"
| "parse_headers U i (line # ls) h =
    (if line = [] then (h, Some (i + 2))
     else case find_char 58 line of
       Some colon_pos \<Rightarrow>
         (let name = to_lowercase U (trim (take colon_pos line));
              val = trim (drop (colon_pos + 1) line)
          in parse_headers U (i + 1) ls (h(name \<mapsto> val)))
     | None \<Rightarrow> parse_headers U (i + 1) ls h)"

definition invalid_data :: "string \<Rightarrow> std_io_error" where
  "invalid_data msg = SimpleError InvalidData msg"

definition parse_request :: "str_case \<Rightarrow> u8 list \<Rightarrow> std_io_error + http_request" where
  "parse_request U data =
    (case decode_utf8 data of
       None \<Rightarrow> Inl (invalid_data ''Invalid UTF-8'')
     | Some request_str \<Rightarrow>
         (case lines request_str of
            [] \<Rightarrow> Inl (invalid_data ''Empty request'')
          | request_line # ls \<Rightarrow>
              (case split_whitespace request_line of
                 [m, path, version] \<Rightarrow>
                   (let (headers, body_start) = parse_headers U 0 ls Map.empty;
                        body = (case body_start of
                          Some start \<Rightarrow> encode_utf8 (join [10] (drop start (lines request_str)))
                        | None \<Rightarrow> [])
                    in Inr \<lparr>req_method = method_from U m, req_path = path, req_version = version,
                         req_headers = headers, req_body = body\<rparr>)
               | _ \<Rightarrow> Inl (invalid_data ''Invalid request line''))))"

section \<open>Responses\<close>

record http_response =
  resp_status :: status_code
  resp_version :: rstr
  resp_headers :: header_map
  resp_body :: "u8 list"

definition response_new :: "status_code \<Rightarrow> http_response" where
  "response_new st = \<lparr>resp_status = st, resp_version = lit ''HTTP/1.1'',
     resp_headers = [lit ''server'' \<mapsto> lit ''miniss/1.0''], resp_body = []\<rparr>"

definition with_body :: "u8 list \<Rightarrow> http_response \<Rightarrow> http_response" where
  "with_body body r = r\<lparr>resp_headers := (resp_headers r)(lit ''content-length'' \<mapsto> lit (decimal (length body))),
     resp_body := body\<rparr>"

definition with_header :: "str_case \<Rightarrow> rstr \<Rightarrow> rstr \<Rightarrow> http_response \<Rightarrow> http_response" where
  "with_header U name val r = r\<lparr>resp_headers := (resp_headers r)(to_lowercase U name \<mapsto> val)\<rparr>"

abbreviation crlf :: rstr where
  "crlf \<equiv> [13, 10]"

definition header_line :: "rstr \<times> rstr \<Rightarrow> rstr" where
  "header_line h = fst h @ lit '': '' @ snd h @ crlf"

definition to_bytes :: "(header_map \<Rightarrow> (rstr \<times> rstr) list) \<Rightarrow> http_response \<Rightarrow> u8 list" where
  "to_bytes iter r =
    encode_utf8 (resp_version r @ lit '' '' @ status_display (resp_status r) @ crlf
      @ concat (map header_line (iter (resp_headers r))) @ crlf) @ resp_body r"

section \<open>Connections and handlers\<close>

definition read_request :: "str_case \<Rightarrow> 'w awaits \<Rightarrow> raw_fd \<Rightarrow> pool \<Rightarrow> 'w
    \<Rightarrow> (std_io_error + http_request) may_panic \<times> pool \<times> 'w" where
  "read_request U A fd p w =
    (case tcp_read A fd p w of
       (Inl e, p', w') \<Rightarrow> (Inl e, p', w')
     | (Inr (Inl e), p', w') \<Rightarrow> (Inr (Inl e), p', w')
     | (Inr (Inr (_, buffer)), p', w') \<Rightarrow> (Inr (parse_request U (map the (as_ref buffer))), p', w'))"

definition send_response :: "(header_map \<Rightarrow> (rstr \<times> rstr) list) \<Rightarrow> 'w awaits \<Rightarrow> raw_fd \<Rightarrow> nat \<Rightarrow> http_response \<Rightarrow> 'w
    \<Rightarrow> ((std_io_error + unit) may_panic \<times> 'w) option" where
  "send_response iter A fd fuel response w = write_all A fd fuel (to_bytes iter response) w"

record static_handler =
  sh_content :: rstr
  sh_content_type :: rstr

definition static_handle :: "str_case \<Rightarrow> static_handler \<Rightarrow> http_request \<Rightarrow> http_response" where
  "static_handle U h request =
    with_body (encode_utf8 (sh_content h))
      (with_header U (lit ''content-type'') (sh_content_type h) (response_new status_OK))"

section \<open>The request parser\<close>

text \<open>A request as a client writes it.\<close>

definition render_request :: "rstr \<Rightarrow> rstr \<Rightarrow> rstr \<Rightarrow> (rstr \<times> rstr) list \<Rightarrow> rstr \<Rightarrow> rstr" where
  "render_request m path version hs body =
    m @ lit '' '' @ path @ lit '' '' @ version @ crlf @ concat (map header_line hs) @ crlf @ body"

definition header_ok :: "rstr \<times> rstr \<Rightarrow> bool" where
  "header_ok h \<longleftrightarrow> 58 \<notin> set (fst h) \<and> 10 \<notin> set (fst h) \<and> 10 \<notin> set (snd h) \<and> trimmed (fst h) \<and> trimmed (snd h)"

definition header_text :: "rstr \<times> rstr \<Rightarrow> rstr" where
  "header_text h = fst h @ 58 # 32 # snd h"

lemma header_line_text: "header_line h = header_text h @ crlf"
  by (simp add: header_line_def header_text_def lit_def)

lemma lines_headers:
  "\<forall>h \<in> set hs. header_ok h \<Longrightarrow>
   lines (concat (map header_line hs) @ crlf @ body) = map header_text hs @ [] # lines body"
proof (induction hs)
  case Nil
  then show ?case using lines_crlf [of "[]" body] by simp
next
  case (Cons h hs)
  then have "10 \<notin> set (header_text h)" by (simp add: header_text_def header_ok_def)
  from lines_crlf [OF this, of "concat (map header_line hs) @ crlf @ body"] Cons show ?case
    by (simp add: header_line_text [of h])
qed

lemma parse_header_text:
  assumes "header_ok h"
  shows "parse_headers U i (header_text h # ls) m
    = parse_headers U (i + 1) ls (m(to_lowercase U (fst h) \<mapsto> snd h))"
proof -
  have "find_char 58 (header_text h) = Some (length (fst h))"
    using assms by (simp add: header_text_def header_ok_def find_char_append)
  moreover have "trim (fst h) = fst h" "trim (32 # snd h) = snd h"
    using assms by (simp_all add: header_ok_def trim_trimmed trim_space)
  ultimately show ?thesis by (simp add: header_text_def)
qed

lemma parse_headers_texts:
  "\<forall>h \<in> set hs. header_ok h \<Longrightarrow>
   parse_headers U i (map header_text hs @ [] # ls) m
     = (m ++ map_of (rev (map (apfst (to_lowercase U)) hs)), Some (i + length hs + 2))"
proof (induction hs arbitrary: i m)
  case (Cons h hs)
  have "m(k \<mapsto> v) ++ f = m ++ ([k \<mapsto> v] ++ f)" for k v f
    by (auto simp: map_add_def fun_eq_iff split: option.split)
  with Cons show ?case by (cases h) (simp add: parse_header_text del: parse_headers.simps(2))
qed simp

lemma lines_request:
  assumes "word m" "word path" "word version" "\<forall>h \<in> set hs. header_ok h"
  shows "lines (render_request m path version hs body)
    = (m @ lit '' '' @ path @ lit '' '' @ version) # map header_text hs @ [] # lines body"
proof -
  let ?line = "m @ lit '' '' @ path @ lit '' '' @ version"
  have "whitespace 10" by (simp add: whitespace_def)
  then have "10 \<notin> set w" if "word w" for w using that unfolding word_def list_all_iff by blast
  with assms(1-3) have "10 \<notin> set ?line" by (auto simp: lit_def)
  from lines_crlf [OF this, of "concat (map header_line hs) @ crlf @ body"] lines_headers [OF assms(4)]
  show ?thesis by (simp add: render_request_def)
qed

lemma parse_request_render:
  assumes "list_all scalar (render_request m path version hs body)"
    and "word m" "word path" "word version" "\<forall>h \<in> set hs. header_ok h"
  shows "parse_request U (encode_utf8 (render_request m path version hs body)) =
      Inr \<lparr>req_method = method_from U m, req_path = path, req_version = version,
           req_headers = map_of (rev (map (apfst (to_lowercase U)) hs)),
           req_body = encode_utf8 (join [10] (lines body))\<rparr>"
proof -
  have "split_whitespace (m @ lit '' '' @ path @ lit '' '' @ version) = [m, path, version]"
    using assms(2-4) by (simp add: lit_def split_whitespace_word)
  then show ?thesis
    using assms by (simp add: parse_request_def decode_encode_utf8 lines_request parse_headers_texts)
qed

text \<open>C12. The request parser inverts the rendering of a request: from the bytes of a request line, any
  header lines, a blank line and a body it recovers the method, the path, the version, every header
  under its lower-cased name (the last one wins), and the lines of the body joined by line feeds,
  which is the body itself when it has no CRLF and does not end with a line feed.\<close>

theorem parse_request_inverts:
  assumes "list_all scalar (render_request m path version hs body)"
    and "word m" "word path" "word version" "\<forall>h \<in> set hs. header_ok h"
  shows "parse_request U (encode_utf8 (render_request m path version hs body)) =
      Inr \<lparr>req_method = method_from U m, req_path = path, req_version = version,
           req_headers = map_of (rev (map (apfst (to_lowercase U)) hs)),
           req_body = encode_utf8 (join [10] (lines body))\<rparr>
    \<and> (no_crlf body \<and> (body = [] \<or> last body \<noteq> 10) \<longrightarrow> join [10] (lines body) = body)"
  using parse_request_render [OF assms] by (simp add: join_lines)

theorem parse_request_inverts_witness:
  "parse_request ascii_tables (encode_utf8 (render_request (lit ''get'') (lit ''/a'') (lit ''HTTP/1.1'')
     [(lit ''Host'', lit ''x y'')] (lit ''hi''))) =
   Inr \<lparr>req_method = GET, req_path = lit ''/a'', req_version = lit ''HTTP/1.1'',
     req_headers = [lit ''host'' \<mapsto> lit ''x y''], req_body = [104, 105]\<rparr>"
proof -
  let ?t = "render_request (lit ''get'') (lit ''/a'') (lit ''HTTP/1.1'') [(lit ''Host'', lit ''x y'')] (lit ''hi'')"
  have t: "list_all scalar ?t" "word (lit ''get'')" "word (lit ''/a'')" "word (lit ''HTTP/1.1'')"
    "\<forall>h \<in> set [(lit ''Host'', lit ''x y'')]. header_ok h"
    by (simp_all add: render_request_def lit_def header_line_def scalar_def word_def whitespace_def header_ok_def
        trimmed_def)
  have b: "no_crlf (lit ''hi'') \<and> (lit ''hi'' = [] \<or> last (lit ''hi'') \<noteq> 10)"
    by (simp add: lit_def)
  have "method_from ascii_tables (lit ''get'') = GET"
    "map (apfst (to_lowercase ascii_tables)) [(lit ''Host'', lit ''x y'')] = [(lit ''host'', lit ''x y'')]"
    "encode_utf8 (lit ''hi'') = [104, 105]"
    by (simp_all add: method_from_def ascii_tables_def lit_def ascii_upper_def ascii_lower_def encode_utf8_def
        encode_char_def)
  with parse_request_inverts [OF t, of ascii_tables] b show ?thesis
    by (simp only: rev.simps append.simps map_of.simps fst_conv snd_conv simp_thms)
qed

text \<open>The parser does not keep the body of a request: its line ends are normalised.  A body that has
  a CRLF inside and ends with a line feed arrives with the CRLF replaced by a line feed and without
  the last one, so it is shorter than the \<open>content-length\<close> the client sent.\<close>

theorem parse_request_rewrites_body:
  assumes "list_all scalar (render_request m path version hs (s @ crlf @ t @ [10]))"
    and "word m" "word path" "word version" "\<forall>h \<in> set hs. header_ok h"
    and "10 \<notin> set s" "10 \<notin> set t" "t \<noteq> []" "last t \<noteq> 13"
  shows "\<exists>r. parse_request U (encode_utf8 (render_request m path version hs (s @ crlf @ t @ [10]))) = Inr r
    \<and> req_body r = encode_utf8 (s @ [10] @ t)"
proof -
  have split: "split_whitespace (m @ lit '' '' @ path @ lit '' '' @ version) = [m, path, version]"
    using assms(2-4) by (simp add: lit_def split_whitespace_word)
  have "lines (s @ crlf @ t @ [10]) = [s, t]"
    using lines_crlf [OF assms(6), of "t @ [10]"] lines_split [OF assms(7), of "[]"] assms(9)
    by (simp add: strip_cr_def)
  with assms(1-5) split show ?thesis
    by (simp add: parse_request_def decode_encode_utf8 lines_request parse_headers_texts)
qed

theorem parse_request_rewrites_body_witness:
  "\<exists>r. parse_request ascii_tables (encode_utf8 (render_request (lit ''POST'') (lit ''/'') (lit ''HTTP/1.1'') []
      ([97] @ crlf @ [98] @ [10]))) = Inr r \<and> req_body r = encode_utf8 ([97] @ [10] @ [98])"
  by (rule parse_request_rewrites_body)
    (simp_all add: render_request_def lit_def scalar_def word_def whitespace_def)

section \<open>Framing of responses\<close>

text \<open>Where a client finds the end of the head: the first empty line.\<close>

fun find_blank :: "u8 list \<Rightarrow> nat option" where
  "find_blank [] = None"
| "find_blank (b # bs) =
    (if take 4 (b # bs) = [13, 10, 13, 10] then Some 0 else map_option Suc (find_blank bs))"

lemma take_4: "take 4 xs = take (Suc (Suc (Suc (Suc 0)))) xs" and take_2: "take 2 xs = take (Suc (Suc 0)) xs"
  by (simp_all add: numeral_2_eq_2 [symmetric] numeral_3_eq_3 [symmetric] Suc_numeral)

lemma find_blank_line:
  assumes "10 \<notin> set l" "take 2 rest \<noteq> [13, 10]"
  shows "find_blank (l @ 13 # 10 # rest) = map_option (\<lambda>k. length l + 2 + k) (find_blank rest)"
  using assms(1)
proof (induction l)
  case Nil
  have "take 4 (13 # 10 # rest) \<noteq> [13, 10, 13, 10]" "take 4 (10 # rest) \<noteq> [13, 10, 13, 10]"
    using assms(2) by (simp_all add: take_4 take_2)
  then show ?case by (cases "find_blank rest") simp_all
next
  case (Cons b l)
  have "take 4 ((b # l) @ 13 # 10 # rest) \<noteq> [13, 10, 13, 10]"
    using Cons.prems by (cases l) (simp_all add: take_4)
  with Cons show ?case by (cases "find_blank rest") simp_all
qed

lemma find_blank_here: "10 \<notin> set l \<Longrightarrow> find_blank (l @ 13 # 10 # 13 # 10 # body) = Some (length l)"
proof (induction l)
  case (Cons b l)
  have "take 4 ((b # l) @ 13 # 10 # 13 # 10 # body) \<noteq> [13, 10, 13, 10]"
    using Cons.prems by (cases l) (simp_all add: take_4)
  with Cons show ?case by simp
qed (simp add: take_4)

lemma encode_utf8_no_lf:
  assumes "list_all scalar s" "10 \<notin> set s"
  shows "10 \<notin> set (encode_utf8 s)"
proof
  assume "10 \<in> set (encode_utf8 s)"
  then obtain c b where c: "c \<in> set s" "b \<in> set (encode_char c)" "10 = (of_nat b :: u8)"
    by (auto simp: encode_utf8_def)
  then have "b < 256" using assms(1) encode_char_bytes by (auto simp: list_all_iff)
  then have "unat (of_nat b :: u8) = b" by (simp add: unat_of_nat)
  with c(3) have "b = 10" by (simp flip: c(3))
  with c(2) have "c = 10" by (auto simp: encode_char_def split: if_splits)
  with c(1) assms(2) show False by simp
qed

text \<open>Text without a line feed; \<open>str\<close> holds scalar values only.\<close>

definition clean :: "rstr \<Rightarrow> bool" where
  "clean s \<longleftrightarrow> list_all scalar s \<and> 10 \<notin> set s"

lemma clean_append [simp]: "clean (s @ t) \<longleftrightarrow> clean s \<and> clean t"
  by (auto simp: clean_def)

lemma encode_utf8_length: "length s \<le> length (encode_utf8 s)"
proof (induction s)
  case (Cons c s)
  have "1 \<le> length (encode_char c)" using encode_char_nonempty [of c] by (cases "encode_char c") simp_all
  with Cons show ?case by (simp add: encode_utf8_def)
qed simp

lemma encode_crlf: "encode_utf8 (13 # 10 # s) = 13 # 10 # encode_utf8 s"
  by (simp add: encode_utf8_def encode_char_def)

lemma find_blank_headers:
  assumes "10 \<notin> set l" "\<forall>h \<in> set hs. clean (header_text h)"
  shows "find_blank (l @ 13 # 10 # encode_utf8 (concat (map header_line hs)) @ 13 # 10 # body)
    = Some (length l + length (encode_utf8 (concat (map header_line hs))))"
  using assms
proof (induction hs arbitrary: l)
  case Nil
  then show ?case by (simp add: find_blank_here)
next
  case (Cons h hs)
  let ?T = "encode_utf8 (header_text h)" and ?X = "encode_utf8 (concat (map header_line hs))"
  have T: "10 \<notin> set ?T" "2 \<le> length ?T"
    using Cons.prems encode_utf8_no_lf encode_utf8_length [of "header_text h"]
    by (auto simp: clean_def header_text_def)
  have "take 2 (?T @ r) \<noteq> [13, 10]" for r
  proof
    assume "take 2 (?T @ r) = [13, 10]"
    then have "10 \<in> set (take 2 ?T)" using T(2) by simp
    then show False using T(1) by (meson in_set_takeD)
  qed
  from find_blank_line [OF Cons.prems(1) this, of "13 # 10 # ?X @ 13 # 10 # body"] Cons.IH [OF T(1)] Cons.prems(2)
  show ?case by (simp add: header_line_text [of h] encode_crlf)
qed

lemma clean_decimal: "clean (lit (decimal n))"
  using decimal_digits [of _ n] by (fastforce simp: clean_def lit_def list_all_iff scalar_def is_digit_def)

lemma clean_status: "clean (status_display c)"
  by (simp add: status_display_def Let_def clean_decimal)
    (simp add: clean_def lit_def scalar_def)



end
