(* ===== verification/Http_Handlers.thy ===== *)
theory Http_Handlers
  imports Http
begin

text \<open>
  The echo handler of \<open>src/http.rs\<close> and a complete exchange over a connection.

  The handler prints the headers with \<open>{:#?}\<close> and the body with \<open>String::from_utf8_lossy\<close>, which are
  modelled here.  Which characters beyond ASCII the \<open>Debug\<close> of a string escapes is a table of the
  standard library and an argument.
\<close>

section \<open>Lossy decoding\<close>

text \<open>How many bytes an ill-formed sequence takes: the longest prefix of a well-formed one.\<close>

definition second_ok :: "nat \<Rightarrow> nat \<Rightarrow> bool" where
  "second_ok b c \<longleftrightarrow>
    (if b = 0xE0 then 0xA0 \<le> c \<and> c < 0xC0
     else if b = 0xED then 0x80 \<le> c \<and> c < 0xA0
     else if b = 0xF0 then 0x90 \<le> c \<and> c < 0xC0
     else if b = 0xF4 then 0x80 \<le> c \<and> c < 0x90
     else 0xE0 \<le> b \<and> b < 0xF4 \<and> cont_byte c)"

definition invalid_len :: "nat \<Rightarrow> nat list \<Rightarrow> nat" where
  "invalid_len b bs =
    (case bs of
       [] \<Rightarrow> 1
     | c # cs \<Rightarrow>
         if \<not> second_ok b c then 1
         else (case cs of [] \<Rightarrow> 2 | d # _ \<Rightarrow> if 0xF0 \<le> b \<and> cont_byte d then 3 else 2))"

function lossy_nats :: "nat list \<Rightarrow> rstr" where
  "lossy_nats [] = []"
| "lossy_nats (b # bs) =
    (case decode_first b bs of
       Some (c, rest) \<Rightarrow> c # lossy_nats rest
     | None \<Rightarrow> 0xFFFD # lossy_nats (drop (invalid_len b bs - 1) bs))"
  by pat_completeness auto
termination
  by (relation "measure length") (auto dest: decode_first_shorter)

definition from_utf8_lossy :: "u8 list \<Rightarrow> rstr" where
  "from_utf8_lossy bs = lossy_nats (map unat bs)"

lemma lossy_nats_decode: "decode_nats bs = Some s \<Longrightarrow> lossy_nats bs = s"
  by (induction bs arbitrary: s rule: decode_nats.induct) (auto split: option.splits)

lemma from_utf8_lossy_encode: "list_all scalar s \<Longrightarrow> from_utf8_lossy (encode_utf8 s) = s"
  using decode_encode_utf8 [of s] by (simp add: from_utf8_lossy_def decode_utf8_def lossy_nats_decode)

section \<open>Debug output\<close>

definition hex_digit :: "nat \<Rightarrow> nat" where
  "hex_digit d = (if d < 10 then 48 + d else 87 + d)"

fun hex :: "nat \<Rightarrow> rstr" where
  "hex n = (if n < 16 then [hex_digit n] else hex (n div 16) @ [hex_digit (n mod 16)])"

declare hex.simps [simp del]

definition escape_char :: "(nat \<Rightarrow> bool) \<Rightarrow> nat \<Rightarrow> rstr" where
  "escape_char D c =
    (if c = 0 then [92, 48]
     else if c = 9 then [92, 116]
     else if c = 13 then [92, 114]
     else if c = 10 then [92, 110]
     else if c = 34 \<or> c = 92 then [92, c]
     else if c < 32 \<or> c = 127 \<or> 128 \<le> c \<and> D c then [92] @ lit ''u{'' @ hex c @ lit ''}''
     else [c])"

definition str_debug :: "(nat \<Rightarrow> bool) \<Rightarrow> rstr \<Rightarrow> rstr" where
  "str_debug D s = [34] @ concat (map (escape_char D) s) @ [34]"

definition map_debug_pretty :: "(nat \<Rightarrow> bool) \<Rightarrow> (rstr \<times> rstr) list \<Rightarrow> rstr" where
  "map_debug_pretty D kvs =
    (if kvs = [] then lit ''{}''
     else lit ''{'' @ [10]
       @ concat (map (\<lambda>(k, v). lit ''    '' @ str_debug D k @ lit '': '' @ str_debug D v @ lit '','' @ [10]) kvs)
       @ lit ''}'')"

section \<open>The echo handler\<close>

definition echo_text :: "(nat \<Rightarrow> bool) \<Rightarrow> (header_map \<Rightarrow> (rstr \<times> rstr) list) \<Rightarrow> http_request \<Rightarrow> rstr" where
  "echo_text D iter request =
    lit ''Method: '' @ method_display (req_method request) @ [10]
    @ lit ''Path: '' @ req_path request @ [10]
    @ lit ''Version: '' @ req_version request @ [10]
    @ lit ''Headers: '' @ map_debug_pretty D (iter (req_headers request)) @ [10]
    @ lit ''Body: '' @ from_utf8_lossy (req_body request) @ [10]"

definition echo_handle :: "(nat \<Rightarrow> bool) \<Rightarrow> (header_map \<Rightarrow> (rstr \<times> rstr) list) \<Rightarrow> str_case \<Rightarrow> http_request
    \<Rightarrow> http_response" where
  "echo_handle D iter U request =
    with_body (encode_utf8 (echo_text D iter request))
      (with_header U (lit ''content-type'') (lit ''text/plain'') (response_new status_OK))"

section \<open>An exchange\<close>

text \<open>Read a request, answer it with a handler, send the response.\<close>

definition exchange :: "(http_request \<Rightarrow> http_response) \<Rightarrow> (header_map \<Rightarrow> (rstr \<times> rstr) list) \<Rightarrow> str_case
    \<Rightarrow> 'w awaits \<Rightarrow> raw_fd \<Rightarrow> nat \<Rightarrow> pool \<Rightarrow> 'w \<Rightarrow> ((std_io_error + unit) may_panic \<times> pool \<times> 'w) option" where
  "exchange handle iter U A fd fuel p w =
    (case read_request U A fd p w of
       (Inl e, p', w') \<Rightarrow> Some (Inl e, p', w')
     | (Inr (Inl e), p', w') \<Rightarrow> Some (Inr (Inl e), p', w')
     | (Inr (Inr request), p', w') \<Rightarrow>
         map_option (\<lambda>(r, w''). (r, p', w'')) (send_response iter A fd fuel (handle request) w'))"

text \<open>A read hands the bytes of the completion on.\<close>

lemma tcp_read_bytes:
  assumes "A (OpRead fd 0 (vcapacity (fst (pool_get BUFFER_SIZE p)))) w = (Inr (CRead (length bytes) data), w')"
    and "contents data = map Some bytes"
  shows "\<exists>b p'. tcp_read A fd p w = (Inr (Inr (length bytes, b)), p', w') \<and> as_ref b = map Some bytes"
proof -
  have "length bytes \<le> vlen data" using assms(2) by (metis contents_def length_map length_take min.cobounded2 min.commute)
  then have "slice_to (length bytes) data = Inr bytes"
    using assms(2) by (simp add: slice_to_def as_ref_def comp_def)
  moreover have "vec_wf (new_zeroed (length bytes))" by (simp add: new_zeroed_def vec_defs)
  from copy_from_slice_contents [OF this, of bytes] obtain b where
    "copy_from_slice bytes (new_zeroed (length bytes)) = Inr b" "contents b = map Some bytes"
    by blast
  ultimately show ?thesis
    using assms(1) by (cases "pool_get BUFFER_SIZE p") (simp add: tcp_read_def as_ref_def)
qed

lemma set_strip_cr: "set (strip_cr l) \<subseteq> set l"
  by (auto simp: strip_cr_def dest: in_set_butlastD)

lemma set_lines: "l \<in> set (lines s) \<Longrightarrow> set l \<subseteq> set s"
proof (induction s rule: lines.induct)
  case (1 s)
  show ?case
  proof (cases "dropWhile (\<lambda>c. c \<noteq> 10) s")
    case Nil
    then have "lines s = (if s = [] then [] else [s])"
      by (simp add: lines.simps [of s] del: dropWhile_eq_Nil_conv)
    with 1(2) show ?thesis by (simp split: if_splits)
  next
    case (Cons c rest)
    have "set rest \<subseteq> set s" using set_dropWhileD [of _ "\<lambda>c. c \<noteq> 10" s] Cons by force
    moreover have "s \<noteq> []" using Cons by auto
    with Cons 1(2) have "l = strip_cr (takeWhile (\<lambda>c. c \<noteq> 10) s) \<or> l \<in> set (lines rest)"
      by (subst (asm) lines.simps) simp
    ultimately show ?thesis
      using 1(1) [OF \<open>s \<noteq> []\<close> Cons] set_strip_cr set_takeWhileD by fastforce
  qed
qed

lemma set_join: "set (join sep ls) \<subseteq> set sep \<union> (\<Union>l \<in> set ls. set l)"
  by (induction sep ls rule: join.induct) auto

lemma set_join_lines: "set (join [10] (lines s)) \<subseteq> insert 10 (set s)"
  using set_join [of "[10]" "lines s"] set_lines [of _ s] by fastforce

section \<open>Properties\<close>

text \<open>C21. The echo server sends a request back.  A client renders a request, and it arrives in one read.
  Then the exchange with the echo handler returns without a panic; what it has written is a prefix
  of the serialised response, all of it exactly if it reports success; and the body of that response
  names the method, path and version of the client and repeats its body line by line.\<close>

theorem echo_exchange:
  assumes "list_all scalar (render_request m path version hs body)"
    and "word m" "word path" "word version" "\<forall>h \<in> set hs. header_ok h"
    and "bytes = encode_utf8 (render_request m path version hs body)"
    and "A (OpRead fd 0 (vcapacity (fst (pool_get BUFFER_SIZE p)))) w = (Inr (CRead (length bytes) data), w1)"
    and "contents data = map Some bytes"
    and "sink_contract A fd sent patience"
  shows "\<exists>resp. resp_body resp = encode_utf8 (
        lit ''Method: '' @ method_display (method_from U m) @ [10] @ lit ''Path: '' @ path @ [10]
        @ lit ''Version: '' @ version @ [10]
        @ lit ''Headers: '' @ map_debug_pretty D (iter (map_of (rev (map (apfst (to_lowercase U)) hs)))) @ [10]
        @ lit ''Body: '' @ join [10] (lines body) @ [10])
    \<and> (\<forall>fuel. length (to_bytes iter resp) + patience w1 < fuel \<longrightarrow>
        (\<exists>r k p' w'. exchange (echo_handle D iter U) iter U A fd fuel p w = Some (Inr r, p', w')
          \<and> sent w' = sent w1 @ take k (to_bytes iter resp) \<and> k \<le> length (to_bytes iter resp)
          \<and> (r = Inr () \<longleftrightarrow> k = length (to_bytes iter resp))))"
proof -
  let ?req = "\<lparr>req_method = method_from U m, req_path = path, req_version = version,
    req_headers = map_of (rev (map (apfst (to_lowercase U)) hs)), req_body = encode_utf8 (join [10] (lines body))\<rparr>"
  let ?resp = "echo_handle D iter U ?req"
  obtain b p' where "tcp_read A fd p w = (Inr (Inr (length bytes, b)), p', w1)" "as_ref b = map Some bytes"
    using tcp_read_bytes [of A fd p w bytes data w1, OF assms(7,8)] by blast
  then have req: "read_request U A fd p w = (Inr (Inr ?req), p', w1)"
    using parse_request_render [OF assms(1-5), of U] assms(6) by (simp add: read_request_def comp_def)
  have "list_all scalar body" using assms(1) by (simp add: render_request_def)
  then have "list_all scalar (join [10] (lines body))"
    using set_join_lines [of body] by (auto simp: list_all_iff scalar_def)
  then have "from_utf8_lossy (encode_utf8 (join [10] (lines body))) = join [10] (lines body)"
    by (rule from_utf8_lossy_encode)
  then have "resp_body ?resp = encode_utf8 (
        lit ''Method: '' @ method_display (method_from U m) @ [10] @ lit ''Path: '' @ path @ [10]
        @ lit ''Version: '' @ version @ [10]
        @ lit ''Headers: '' @ map_debug_pretty D (iter (map_of (rev (map (apfst (to_lowercase U)) hs)))) @ [10]
        @ lit ''Body: '' @ join [10] (lines body) @ [10])"
    by (simp add: echo_handle_def with_body_def echo_text_def)
  moreover have "\<exists>r k p' w'. exchange (echo_handle D iter U) iter U A fd fuel p w = Some (Inr r, p', w')
          \<and> sent w' = sent w1 @ take k (to_bytes iter ?resp) \<and> k \<le> length (to_bytes iter ?resp)
          \<and> (r = Inr () \<longleftrightarrow> k = length (to_bytes iter ?resp))"
    if "length (to_bytes iter ?resp) + patience w1 < fuel" for fuel
    using write_all_sink [OF assms(9) that] req by (auto simp: exchange_def send_response_def)
  ultimately show ?thesis by blast
qed

text \<open>A connection whose first read yields a request and that takes two bytes per write.\<close>

definition demo_conn :: "u8 list \<Rightarrow> (u8 list \<times> nat) awaits" where
  "demo_conn request op w =
    (case op of
       OpRead fd off len \<Rightarrow> (Inr (CRead (length request) (from_slice request)), w)
     | _ \<Rightarrow> slow_socket op w)"

lemma demo_conn_sink: "sink_contract (demo_conn request) fd fst snd"
  using slow_socket_sink [of fd] by (simp add: sink_contract_def demo_conn_def)

theorem echo_exchange_witness:
  "\<exists>resp r k p' w'. exchange (echo_handle (\<lambda>_. False) (\<lambda>_. []) ascii_tables) (\<lambda>_. []) ascii_tables
      (demo_conn (encode_utf8 (render_request (lit ''GET'') (lit ''/a'') (lit ''HTTP/1.1'') [] (lit ''hi'')))) 3
      (length (to_bytes (\<lambda>_. []) resp) + 1) [] ([], 0) = Some (Inr r, p', w')
    \<and> fst w' = take k (to_bytes (\<lambda>_. []) resp) \<and> (r = Inr () \<longleftrightarrow> k = length (to_bytes (\<lambda>_. []) resp))"
proof -
  let ?t = "render_request (lit ''GET'') (lit ''/a'') (lit ''HTTP/1.1'') [] (lit ''hi'')"
  let ?A = "demo_conn (encode_utf8 ?t)"
  have t: "list_all scalar ?t" "word (lit ''GET'')" "word (lit ''/a'')" "word (lit ''HTTP/1.1'')"
    "\<forall>h \<in> set []. header_ok h"
    by (simp_all add: render_request_def lit_def scalar_def word_def whitespace_def)
  have rd: "?A (OpRead 3 0 (vcapacity (fst (pool_get BUFFER_SIZE [])))) ([], 0)
      = (Inr (CRead (length (encode_utf8 ?t)) (from_slice (encode_utf8 ?t))), ([], 0))"
    by (simp add: demo_conn_def)
  have "contents (from_slice (encode_utf8 ?t)) = map Some (encode_utf8 ?t)"
    by (simp add: from_slice_def vec_of_def contents_def)
  from echo_exchange [OF t refl, where A = ?A and fd = 3 and p = "[]" and w = "([], 0)", OF rd this demo_conn_sink,
      where U = ascii_tables and D = "\<lambda>_. False" and iter = "\<lambda>_. []"]
  obtain resp where "\<forall>fuel. length (to_bytes (\<lambda>_. []) resp) + snd ([] :: u8 list, 0 :: nat) < fuel \<longrightarrow>
        (\<exists>r k p' w'. exchange (echo_handle (\<lambda>_. False) (\<lambda>_. []) ascii_tables) (\<lambda>_. []) ascii_tables ?A 3 fuel [] ([], 0)
            = Some (Inr r, p', w')
          \<and> fst w' = fst ([], 0 :: nat) @ take k (to_bytes (\<lambda>_. []) resp) \<and> k \<le> length (to_bytes (\<lambda>_. []) resp)
          \<and> (r = Inr () \<longleftrightarrow> k = length (to_bytes (\<lambda>_. []) resp)))"
    by blast
  from this [rule_format, of "length (to_bytes (\<lambda>_. []) resp) + 1"] obtain r k p' w' where
    "exchange (echo_handle (\<lambda>_. False) (\<lambda>_. []) ascii_tables) (\<lambda>_. []) ascii_tables ?A 3
        (length (to_bytes (\<lambda>_. []) resp) + 1) [] ([], 0) = Some (Inr r, p', w')"
    "fst w' = take k (to_bytes (\<lambda>_. []) resp)" "r = Inr () \<longleftrightarrow> k = length (to_bytes (\<lambda>_. []) resp)"
    by auto
  then show ?thesis by blast
qed

end
