(* ===== verification/Examples.thy ===== *)
theory Examples
  imports Http_Echo
begin

text \<open>
  Three programs of \<open>examples\<close> as whole programs over the modelled interface: \<open>hello_world.rs\<close>,
  \<open>udp_echo_demo.rs\<close>, and \<open>async_file_demo.rs\<close> with its copy \<open>file_io_demo.rs\<close>.

  What they print is left out, except that the UDP program's reports on what it sent and received are
  events for the operating system.  The standard library's socket calls and the temporary files of
  the \<open>tempfile\<close> crate are arguments.
\<close>

section \<open>hello\_world.rs\<close>

definition hello_simple :: "(nat, 'w) async_fn" where
  "hello_simple = Return 42"

definition hello_chained :: "(nat, 'w) async_fn" where
  "hello_chained = async_bind (Return 10) (\<lambda>x. async_bind (Return 20) (\<lambda>y. Return (x + y)))"

text \<open>Example 3: the future of the block that spawns a task on the runtime it borrows, and awaits it.\<close>

datatype 'f hello_state = HelloStart 'f | HelloAwait join_handle | HelloOver

definition hello_await :: "('f, 'v, 'w, 'q, 'c) exec_env \<Rightarrow> waker \<Rightarrow> join_handle
    \<Rightarrow> ('b, ('f, 'q, 'c, 'w) runtime) io_world
    \<Rightarrow> (panic + 'v poll) \<times> 'f hello_state \<times> ('b, ('f, 'q, 'c, 'w) runtime) io_world" where
  "hello_await E wk h w =
    (let rt = io_rest w;
         (p, h', st) = jh_poll (chan E) wk h (results (rt_executor rt));
         put = (\<lambda>st. w\<lparr>io_rest := rt\<lparr>rt_executor := (rt_executor rt)\<lparr>results := st\<rparr>\<rparr>\<rparr>)
     in case p of
       Pending \<Rightarrow> (Inr Pending, HelloAwait h', put st)
     | Ready r \<Rightarrow>
         (let w' = put (store_update (jh_receiver h') (ch_drop_rx (chan E)) st) in
          case r of
            Inl e \<Rightarrow> (Inl (ExpectFailed ''called Result::unwrap() on an Err value''), HelloOver, w')
          | Inr v \<Rightarrow> (Inr (Ready v), HelloOver, w')))"

fun hello_poll :: "('f, 'v, 'w, 'q, 'c) exec_env \<Rightarrow> waker \<Rightarrow> 'f hello_state
    \<Rightarrow> ('b, ('f, 'q, 'c, 'w) runtime) io_world
    \<Rightarrow> (panic + 'v poll) \<times> 'f hello_state \<times> ('b, ('f, 'q, 'c, 'w) runtime) io_world" where
  "hello_poll E wk (HelloStart f) w =
    (let (h, rt) = single_runtime_spawn E f (io_rest w) in hello_await E wk h (w\<lparr>io_rest := rt\<rparr>))"
| "hello_poll E wk (HelloAwait h) w = hello_await E wk h w"
| "hello_poll E wk HelloOver w = (Inl (UserPanic resumed_after_completion), HelloOver, w)"

fun hello_drop :: "('f, 'v, 'w, 'q, 'c) exec_env \<Rightarrow> 'f hello_state
    \<Rightarrow> ('b, ('f, 'q, 'c, 'w) runtime) io_world \<Rightarrow> ('b, ('f, 'q, 'c, 'w) runtime) io_world may_panic" where
  "hello_drop E (HelloAwait h) w =
    Inr (w\<lparr>io_rest := (io_rest w)\<lparr>rt_executor := (rt_executor (io_rest w))\<lparr>results :=
      store_update (jh_receiver h) (ch_drop_rx (chan E)) (results (rt_executor (io_rest w)))\<rparr>\<rparr>\<rparr>)"
| "hello_drop E _ w = Inr w"

definition hello_future :: "('f, 'v, 'w, 'q, 'c) exec_env
    \<Rightarrow> ('f hello_state, 'v, ('b, ('f, 'q, 'c, 'w) runtime) io_world) boxed_future" where
  "hello_future E = \<lparr>bf_poll = hello_poll E, bf_drop = hello_drop E\<rparr>"

text \<open>\<open>main\<close>, from the creation of the runtime to the result of each \<open>block_on\<close>.  Every \<open>block_on\<close>
  creates a backend; \<open>new k\<close> is what the \<open>k\<close>-th creation gives.\<close>

definition hello_world_main :: "'b io_ops \<Rightarrow> (nat \<Rightarrow> string + 'b) \<Rightarrow> ('f, 'v, 'w, 'q, 'c) exec_env \<Rightarrow> 'c chan_store \<Rightarrow> 'w
    \<Rightarrow> 'f \<Rightarrow> nat \<Rightarrow> ('b, 'x) io_world \<Rightarrow> (nat \<times> nat \<times> 'v) may_panic option" where
  "hello_world_main B new E st g task fuel w =
    (let w0 = \<lparr>io_states = io_states w, cur_io = cur_io w, token_counter = token_counter w,
               io_rest = single_runtime_new E st g\<rparr>
     in case runtime_block_on B (new 0) (async_future B) fuel (Unresumed hello_simple) w0 of
       None \<Rightarrow> None
     | Some (Inl e, w1) \<Rightarrow> Some (Inl e)
     | Some (Inr a, w1) \<Rightarrow>
         (case runtime_block_on B (new 1) (async_future B) fuel (Unresumed hello_chained) w1 of
            None \<Rightarrow> None
          | Some (Inl e, w2) \<Rightarrow> Some (Inl e)
          | Some (Inr b, w2) \<Rightarrow>
              map_option (\<lambda>(r, _). map_sum id (\<lambda>c. (a, b, c)) r)
                (runtime_block_on B (new 2) (hello_future E) fuel (HelloStart task) w2)))"

lemma block_on_returns:
  "runtime_block_on B (Inr b) (async_future B) (Suc fuel) (Unresumed (Return v)) w
    = Some (Inr v, w\<lparr>io_states := io_states w @ [io_state_new b], cur_io := None\<rparr>)"
  by (simp add: runtime_block_on_def async_future_def set_current_io_state_def clear_current_io_state_def Let_def)

lemma hello_await_open:
  assumes "channel (chan E) view" "chan_open view (results (rt_executor (io_rest w))) (jh_receiver h)"
  shows "\<exists>h' w'. hello_await E wk h w = (Inr Pending, HelloAwait h', w')
    \<and> chan_open view (results (rt_executor (io_rest w'))) (jh_receiver h')"
proof -
  have "result_channel (chan E) view" using assms(1) by (rule result_channel.intro)
  from result_channel.jh_poll_stays_open [OF this assms(2), of wk] show ?thesis
    by (auto simp: hello_await_def Let_def)
qed

lemma hello_loop_waits:
  assumes "channel (chan E) view" "chan_open view (results (rt_executor (io_rest w))) (jh_receiver h)"
  shows "block_on_loop B (hello_future E) i fuel (HelloAwait h) w = None"
  using assms(2)
proof (induction fuel arbitrary: h w)
  case (Suc fuel)
  from hello_await_open [OF assms(1) Suc.prems, of DummyWaker] obtain h' w' where
    p: "hello_await E DummyWaker h w = (Inr Pending, HelloAwait h', w')"
      "chan_open view (results (rt_executor (io_rest w'))) (jh_receiver h')"
    by blast
  obtain a s ws where r: "poll_io_completions B (io_states w' ! i) = (a, s, ws)" by (rule prod_cases3)
  from p Suc.IH [of "io_update i (\<lambda>_. s) w'" h'] r show ?case
    by (simp add: hello_future_def io_update_def)
qed simp

lemma hello_spawn_waits:
  assumes "seg_queue (run_ops E) items" "channel (chan E) view" "exec_wf view (rt_executor (io_rest w))"
  shows "block_on_loop B (hello_future E) i fuel (HelloStart f) w = None"
proof (cases fuel)
  case (Suc n)
  have env: "executor_env E items view" using assms(1,2) by (rule executor_env.intro)
  obtain h s where spawn: "exec_spawn E f (rt_executor (io_rest w)) = (h, s)" by fastforce
  let ?w = "w\<lparr>io_rest := (io_rest w)\<lparr>rt_executor := s\<rparr>\<rparr>"
  have "chan_open view (results (rt_executor (io_rest ?w))) (jh_receiver h)"
    using executor_env.exec_spawn_effect [OF env assms(3) spawn] channel.view_ch_bounded [OF assms(2)]
    by (simp add: chan_open_def join_handle_new_def view_bounded_def)
  from hello_await_open [OF assms(2) this, of DummyWaker] obtain h' w' where
    p: "hello_await E DummyWaker h ?w = (Inr Pending, HelloAwait h', w')"
      "chan_open view (results (rt_executor (io_rest w'))) (jh_receiver h')"
    by blast
  obtain a st ws where r: "poll_io_completions B (io_states w' ! i) = (a, st, ws)" by (rule prod_cases3)
  from p r spawn hello_loop_waits [OF assms(2), of "io_update i (\<lambda>_. st) w'" h'] show ?thesis
    unfolding Suc by (simp add: hello_future_def single_runtime_spawn_def io_update_def)
qed simp

text \<open>The first two examples return 42 and 30; the program hangs in the third, whatever its task does.\<close>

theorem hello_world_hangs:
  assumes "seg_queue (run_ops E) items" "channel (chan E) view" "store_wf st"
    and "\<And>k. \<exists>b. new k = Inr b"
  shows "hello_world_main B new E st g task fuel w = None"
    and "\<exists>w1. runtime_block_on B (new 0) (async_future B) (Suc fuel) (Unresumed hello_simple) w = Some (Inr 42, w1)"
    and "\<exists>w1. runtime_block_on B (new 1) (async_future B) (Suc fuel) (Unresumed hello_chained) w = Some (Inr 30, w1)"
proof -
  obtain b where b: "\<And>k. new k = Inr (b k)" using assms(4) by metis
  show "\<exists>w1. runtime_block_on B (new 0) (async_future B) (Suc fuel) (Unresumed hello_simple) w = Some (Inr 42, w1)"
    "\<exists>w1. runtime_block_on B (new 1) (async_future B) (Suc fuel) (Unresumed hello_chained) w = Some (Inr 30, w1)"
    by (simp_all add: b hello_simple_def hello_chained_def block_on_returns)
  have wf: "exec_wf view (rt_executor (single_runtime_new E st g))"
    using assms(3) by (simp add: exec_wf_def single_runtime_new_def executor_new_def)
  show "hello_world_main B new E st g task fuel w = None"
  proof (cases fuel)
    case 0
    then show ?thesis by (simp add: hello_world_main_def b runtime_block_on_def Let_def)
  next
    case (Suc n)
    show ?thesis
      unfolding hello_world_main_def Suc b hello_simple_def hello_chained_def Let_def async_bind.simps block_on_returns
      by (simp add: runtime_block_on_def Let_def set_current_io_state_def hello_spawn_waits [OF assms(1,2)] wf
          del: block_on_loop.simps)
  qed
qed

section \<open>udp\_echo\_demo.rs\<close>

definition with_os :: "('o \<Rightarrow> 'a \<times> 'o) \<Rightarrow> ('a \<Rightarrow> ('r, 'o thread_state) async_fn) \<Rightarrow> ('r, 'o thread_state) async_fn" where
  "with_os f k = Local (\<lambda>t. t\<lparr>os_state := snd (f (os_state t))\<rparr>) (\<lambda>t. k (fst (f (os_state t))))"

lemma interp_with_os:
  "interp A (with_os f k) s t = interp A (k (fst (f (os_state t)))) s (t\<lparr>os_state := snd (f (os_state t))\<rparr>)"
  by (simp add: with_os_def)

text \<open>\<open>send_to\<close> has no suspension point.\<close>

definition udp_send_to_fn :: "(raw_fd \<Rightarrow> u8 list \<Rightarrow> socket_addr \<Rightarrow> 'o \<Rightarrow> (std_io_error + usize) \<times> 'o)
    \<Rightarrow> raw_fd \<Rightarrow> u8 list \<Rightarrow> socket_addr \<Rightarrow> (std_io_error + usize, 'o thread_state) async_fn" where
  "udp_send_to_fn sys_send_to fd buf target = with_os (udp_send_to sys_send_to fd buf target) Return"

text \<open>The lines that the program prints about its operations.\<close>

datatype udp_report =
    BindFailed std_io_error
  | AddrFailed std_io_error
  | BoundTo socket_addr
  | SendFailed std_io_error
  | SentBytes usize
  | ReceiveFailed std_io_error
  | ReceivedFrom usize socket_addr "u8 list"
  | MessageFailed nat std_io_error
  | MessageSent nat usize
  | ResponseFailed nat std_io_error
  | ResponseReceived "u8 list"
  | UnexpectedSuccess usize
  | ExpectedError std_io_error

definition println :: "(udp_report \<Rightarrow> 'o \<Rightarrow> 'o) \<Rightarrow> udp_report \<Rightarrow> ('r, 'o thread_state) async_fn \<Rightarrow> ('r, 'o thread_state) async_fn" where
  "println print line k = with_os (\<lambda>os. ((), print line os)) (\<lambda>_. k)"

definition udp_demo_addr :: socket_addr where
  "udp_demo_addr = SocketAddrV4 0x7F000001 8081"

definition udp_invalid_addr :: socket_addr where
  "udp_invalid_addr = SocketAddrV4 0x7F000001 0"

definition udp_test_data :: "u8 list" where
  "udp_test_data = ascii ''Hello, async UDP!''"

definition udp_message :: "nat \<Rightarrow> u8 list" where
  "udp_message i = ascii (''Message '' @ decimal i)"

definition udp_numbers :: "nat list" where
  "udp_numbers = [1, 2, 3]"

text \<open>The loop of the second part over the remaining numbers; \<open>continue\<close> goes on with the next.\<close>

primrec udp_messages :: "(raw_fd \<Rightarrow> u8 list \<Rightarrow> socket_addr \<Rightarrow> 'o \<Rightarrow> (std_io_error + usize) \<times> 'o) \<Rightarrow> (udp_report \<Rightarrow> 'o \<Rightarrow> 'o)
    \<Rightarrow> raw_fd \<Rightarrow> nat list \<Rightarrow> u8 list \<Rightarrow> (unit, 'o thread_state) async_fn" where
  "udp_messages sys_send_to print socket [] buf = Return ()"
| "udp_messages sys_send_to print socket (i # is) buf =
    async_bind (udp_send_to_fn sys_send_to socket (udp_message i) udp_demo_addr) (\<lambda>r.
      case r of
        Inl e \<Rightarrow> println print (MessageFailed i e) (udp_messages sys_send_to print socket is buf)
      | Inr bytes_sent \<Rightarrow> println print (MessageSent i bytes_sent)
          (async_bind (udp_recv_from_fn socket buf) (\<lambda>(r, buf).
             case r of
               Inl e \<Rightarrow> println print (ResponseFailed i e) (udp_messages sys_send_to print socket is buf)
             | Inr (bytes_read, _) \<Rightarrow>
                 (if bytes_read \<le> length buf
                  then println print (ResponseReceived (take bytes_read buf)) (udp_messages sys_send_to print socket is buf)
                  else Panics IndexOutOfBounds))))"

definition udp_error_demo :: "(raw_fd \<Rightarrow> u8 list \<Rightarrow> socket_addr \<Rightarrow> 'o \<Rightarrow> (std_io_error + usize) \<times> 'o) \<Rightarrow> (udp_report \<Rightarrow> 'o \<Rightarrow> 'o)
    \<Rightarrow> raw_fd \<Rightarrow> (unit, 'o thread_state) async_fn" where
  "udp_error_demo sys_send_to print socket =
    async_bind (udp_send_to_fn sys_send_to socket (ascii ''Test error'') udp_invalid_addr) (\<lambda>r.
      case r of
        Inr bytes \<Rightarrow> println print (UnexpectedSuccess bytes) (Return ())
      | Inl e \<Rightarrow> println print (ExpectedError e) (Return ()))"

definition udp_demo :: "(raw_fd \<Rightarrow> u8 list \<Rightarrow> socket_addr \<Rightarrow> 'o \<Rightarrow> (std_io_error + usize) \<times> 'o) \<Rightarrow> (udp_report \<Rightarrow> 'o \<Rightarrow> 'o)
    \<Rightarrow> (raw_fd \<Rightarrow> std_io_error + socket_addr) \<Rightarrow> raw_fd \<Rightarrow> (unit, 'o thread_state) async_fn" where
  "udp_demo sys_send_to print local_addr socket =
    (case local_addr socket of
       Inl e \<Rightarrow> println print (AddrFailed e) (Return ())
     | Inr addr \<Rightarrow> println print (BoundTo addr)
         (async_bind (udp_send_to_fn sys_send_to socket udp_test_data udp_demo_addr) (\<lambda>r.
            case r of
              Inl e \<Rightarrow> println print (SendFailed e) (Return ())
            | Inr bytes_sent \<Rightarrow> println print (SentBytes bytes_sent)
                (async_bind (udp_recv_from_fn socket (replicate 1024 0)) (\<lambda>(r, buf).
                   case r of
                     Inl e \<Rightarrow> println print (ReceiveFailed e) (Return ())
                   | Inr (bytes_read, sender_addr) \<Rightarrow>
                       (if bytes_read \<le> length buf
                        then println print (ReceivedFrom bytes_read sender_addr (take bytes_read buf))
                          (async_bind (udp_messages sys_send_to print socket udp_numbers buf)
                            (\<lambda>_. udp_error_demo sys_send_to print socket))
                        else Panics IndexOutOfBounds))))))"

text \<open>\<open>main\<close>; the socket is closed on every way out of the block.\<close>

definition udp_demo_main ::
  "'b io_ops \<Rightarrow> string + 'b \<Rightarrow> (socket_addr \<Rightarrow> std_io_error + raw_fd) \<Rightarrow> (raw_fd \<Rightarrow> std_io_error + unit)
   \<Rightarrow> (raw_fd \<Rightarrow> int) \<Rightarrow> (raw_fd \<Rightarrow> std_io_error + unit)
   \<Rightarrow> (raw_fd \<Rightarrow> u8 list \<Rightarrow> socket_addr \<Rightarrow> 'o \<Rightarrow> (std_io_error + usize) \<times> 'o) \<Rightarrow> (udp_report \<Rightarrow> 'o \<Rightarrow> 'o)
   \<Rightarrow> (raw_fd \<Rightarrow> std_io_error + socket_addr) \<Rightarrow> (raw_fd \<Rightarrow> 'o \<Rightarrow> 'o) \<Rightarrow> nat
   \<Rightarrow> ('b, 'o thread_state) io_world \<Rightarrow> (unit may_panic \<times> ('b, 'o thread_state) io_world) option" where
  "udp_demo_main B new sys_bind set_nonblocking reuseaddr set_broadcast sys_send_to print local_addr sys_close fuel w =
    runtime_block_on B new (async_future B) fuel (Unresumed
      (case udp_bind sys_bind set_nonblocking reuseaddr set_broadcast udp_demo_addr of
         Inl e \<Rightarrow> println print (BindFailed e) (Return ())
       | Inr socket \<Rightarrow> drop_after (udp_demo sys_send_to print local_addr socket) (close_fd sys_close socket))) w"

subsection \<open>What it sends and receives\<close>

text \<open>What the operating system promises about receiving: the datagrams of \<open>inbox\<close> come in order, each in
  one piece with its sender, cut off at the length of the buffer.\<close>

definition datagram_contract :: "'s awaits \<Rightarrow> raw_fd \<Rightarrow> ('s \<Rightarrow> (u8 list \<times> socket_addr) list) \<Rightarrow> bool" where
  "datagram_contract A fd inbox \<longleftrightarrow>
    (\<forall>buffer s d a ds. inbox s = (d, a) # ds \<longrightarrow>
      (\<exists>b s'. A (OpUdpRecv fd buffer) s = (Inr (CUdpRecv (min (length d) (vlen buffer)) b a), s')
        \<and> inbox s' = ds \<and> vec_wf b \<and> contents b = map Some (take (vlen buffer) d)))"

text \<open>What it promises about sending and printing: \<open>sent\<close> are the datagrams in the order of the calls,
  \<open>lines\<close> what was printed, and datagrams to the address of the program are taken whole.\<close>

definition udp_os_contract :: "(raw_fd \<Rightarrow> u8 list \<Rightarrow> socket_addr \<Rightarrow> 'o \<Rightarrow> (std_io_error + usize) \<times> 'o) \<Rightarrow> (udp_report \<Rightarrow> 'o \<Rightarrow> 'o)
    \<Rightarrow> (raw_fd \<Rightarrow> 'o \<Rightarrow> 'o) \<Rightarrow> raw_fd \<Rightarrow> ('o \<Rightarrow> (u8 list \<times> socket_addr) list) \<Rightarrow> ('o \<Rightarrow> udp_report list) \<Rightarrow> bool" where
  "udp_os_contract sys_send_to print sys_close fd sent lines \<longleftrightarrow>
    (\<forall>buf a os. sent (snd (sys_send_to fd buf a os)) = sent os @ [(buf, a)]
      \<and> lines (snd (sys_send_to fd buf a os)) = lines os
      \<and> (a = udp_demo_addr \<longrightarrow> fst (sys_send_to fd buf a os) = Inr (length buf)))
    \<and> (\<forall>line os. sent (print line os) = sent os \<and> lines (print line os) = lines os @ [line])
    \<and> (\<forall>os. sent (sys_close fd os) = sent os \<and> lines (sys_close fd os) = lines os)"

text \<open>\<open>recv_from\<close> puts a datagram at the front of the caller's buffer and leaves the rest of it.\<close>

lemma pool_get_vlen: "vlen (fst (pool_get n p)) = n"
  by (simp add: pool_get_def vec_resize_len vec_zeroed_def vec_of_def split: list.split)

lemma udp_recv_datagram:
  assumes "datagram_contract A fd inbox" "inbox s = (d, a) # ds" "length d \<le> length buf"
  shows "\<exists>p' s'. udp_recv_from A fd buf p s = (Inr (Inr (length d, a)), d @ drop (length d) buf, p', s') \<and> inbox s' = ds"
proof -
  obtain b0 p0 where get: "pool_get (length buf) p = (b0, p0)" by fastforce
  with pool_get_vlen [of "length buf" p] have "vlen b0 = length buf" by simp
  with assms(1) [unfolded datagram_contract_def, rule_format, OF assms(2), of b0] assms(3) obtain b s' where
    A: "A (OpUdpRecv fd b0) s = (Inr (CUdpRecv (length d) b a), s')" and s': "inbox s' = ds"
    and b: "vec_wf b" "contents b = map Some d"
    by auto
  from arg_cong [OF b(2), of length] b(1) have "length d = vlen b" by (simp add: vec_defs)
  then have "slice_to (length d) b = Inr d"
    using b(2) by (simp add: slice_to_def as_ref_def comp_def)
  with get A s' assms(3) show ?thesis by (simp add: udp_recv_from_def Let_def)
qed

lemma interp_udp_send_to:
  "interp A (udp_send_to_fn sys_send_to fd buf target) s t
    = (Inr (fst (sys_send_to fd buf target (os_state t))), s,
       t\<lparr>os_state := snd (sys_send_to fd buf target (os_state t))\<rparr>)"
  by (simp add: udp_send_to_fn_def interp_with_os udp_send_to_def Let_def)

lemma interp_println:
  "interp A (println print line k) s t = interp A k s (t\<lparr>os_state := print line (os_state t)\<rparr>)"
  by (simp add: println_def interp_with_os)

lemma udp_os_facts:
  assumes "udp_os_contract sys_send_to print sys_close fd sent lines"
  shows "sent (snd (sys_send_to fd buf a os)) = sent os @ [(buf, a)]"
    and "lines (snd (sys_send_to fd buf a os)) = lines os"
    and "fst (sys_send_to fd buf udp_demo_addr os) = Inr (length buf)"
    and "sent (print line os) = sent os" "lines (print line os) = lines os @ [line]"
    and "sent (sys_close fd os) = sent os" "lines (sys_close fd os) = lines os"
  using assms unfolding udp_os_contract_def by blast+

lemma interp_udp_messages:
  assumes os: "udp_os_contract sys_send_to print sys_close fd sent lines"
    and inbox: "datagram_contract A fd inbox" "inbox s = ds @ rest"
    and "length ds = length is" "\<forall>d \<in> set ds. length (fst d) \<le> length buf"
  shows "\<exists>s' t'. interp A (udp_messages sys_send_to print fd is buf) s t = (Inr (), s', t')
    \<and> sent (os_state t') = sent (os_state t) @ map (\<lambda>i. (udp_message i, udp_demo_addr)) is
    \<and> lines (os_state t') = lines (os_state t)
        @ concat (map (\<lambda>(i, d). [MessageSent i (length (udp_message i)), ResponseReceived (fst d)]) (zip is ds))"
  using assms(3-5)
proof (induction "is" arbitrary: ds buf s t)
  case (Cons i "is")
  obtain d a ds' where ds: "ds = (d, a) # ds'" using Cons.prems(2) by (cases ds) auto
  let ?t1 = "t\<lparr>os_state := print (MessageSent i (length (udp_message i)))
      (snd (sys_send_to fd (udp_message i) udp_demo_addr (os_state t)))\<rparr>"
  obtain p s1 where recv: "udp_recv_from A fd buf (tl_pool t) s = (Inr (Inr (length d, a)), d @ drop (length d) buf, p, s1)"
    and s1: "inbox s1 = ds' @ rest"
    using udp_recv_datagram [OF inbox(1), of s d a "ds' @ rest" buf "tl_pool t"] Cons.prems ds by auto
  let ?t2 = "?t1\<lparr>tl_pool := p, os_state := print (ResponseReceived d) (os_state ?t1)\<rparr>"
  have step: "interp A (udp_messages sys_send_to print fd (i # is) buf) s t
      = interp A (udp_messages sys_send_to print fd is (d @ drop (length d) buf)) s1 ?t2"
    using recv by (simp add: interp_bind interp_udp_send_to interp_println interp_udp_recv_from udp_os_facts(3) [OF os])
  have "length (d @ drop (length d) buf) = length buf" using Cons.prems(3) ds by simp
  with Cons.IH [OF s1, of "d @ drop (length d) buf" ?t2] Cons.prems(2,3) ds show ?case
    unfolding step by (auto simp: udp_os_facts [OF os])
qed simp

lemma interp_udp_error_demo:
  assumes "udp_os_contract sys_send_to print sys_close fd sent lines"
  shows "\<exists>t' final. interp A (udp_error_demo sys_send_to print fd) s t = (Inr (), s, t')
    \<and> sent (os_state t') = sent (os_state t) @ [(ascii ''Test error'', udp_invalid_addr)]
    \<and> lines (os_state t') = lines (os_state t) @ [final]"
  by (cases "fst (sys_send_to fd (ascii ''Test error'') udp_invalid_addr (os_state t))")
    (auto simp: udp_error_demo_def interp_bind interp_udp_send_to interp_println udp_os_facts [OF assms])

lemma udp_test_data_length: "length udp_test_data = 17"
  by (simp add: udp_test_data_def ascii_def)

lemma udp_message_length: "i \<in> set udp_numbers \<Longrightarrow> length (udp_message i) = 9"
  by (auto simp: udp_numbers_def udp_message_def ascii_def decimal.simps)

text \<open>Up to the reception of the first datagram.\<close>

lemma interp_udp_demo_first:
  assumes os: "udp_os_contract sys_send_to print sys_close fd sent lines"
    and inbox: "datagram_contract A fd inbox" "inbox s = (dg, from_addr) # ds" "length dg \<le> 1024"
    and "local_addr fd = Inr la"
  shows "\<exists>s1 t1 buf. inbox s1 = ds \<and> length buf = 1024
    \<and> interp A (udp_demo sys_send_to print local_addr fd) s t = interp A
        (async_bind (udp_messages sys_send_to print fd udp_numbers buf) (\<lambda>_. udp_error_demo sys_send_to print fd)) s1 t1
    \<and> sent (os_state t1) = sent (os_state t) @ [(udp_test_data, udp_demo_addr)]
    \<and> lines (os_state t1) = lines (os_state t) @ [BoundTo la, SentBytes 17, ReceivedFrom (length dg) from_addr dg]"
proof -
  let ?o = "print (SentBytes 17) (snd (sys_send_to fd udp_test_data udp_demo_addr (print (BoundTo la) (os_state t))))"
  let ?buf = "dg @ drop (length dg) (replicate 1024 (0 :: u8))"
  obtain p s1 where recv: "udp_recv_from A fd (replicate 1024 0) (tl_pool t) s = (Inr (Inr (length dg, from_addr)), ?buf, p, s1)"
    and s1: "inbox s1 = ds"
    using udp_recv_datagram [OF inbox(1,2), of "replicate 1024 0" "tl_pool t"] inbox(3) by auto
  let ?t = "t\<lparr>tl_pool := p, os_state := print (ReceivedFrom (length dg) from_addr dg) ?o\<rparr>"
  have "interp A (udp_demo sys_send_to print local_addr fd) s t = interp A
      (async_bind (udp_messages sys_send_to print fd udp_numbers ?buf) (\<lambda>_. udp_error_demo sys_send_to print fd)) s1 ?t"
    using recv inbox(3) assms(5)
    by (simp add: udp_demo_def interp_bind interp_udp_send_to interp_println interp_udp_recv_from
        udp_os_facts(3) [OF os] udp_test_data_length del: drop_replicate)
  moreover have "sent (os_state ?t) = sent (os_state t) @ [(udp_test_data, udp_demo_addr)]"
    "lines (os_state ?t) = lines (os_state t) @ [BoundTo la, SentBytes 17, ReceivedFrom (length dg) from_addr dg]"
    by (simp_all add: udp_os_facts [OF os])
  moreover have "length ?buf = 1024" using inbox(3) by simp
  ultimately show ?thesis using s1 by blast
qed

lemma interp_udp_demo:
  assumes os: "udp_os_contract sys_send_to print sys_close fd sent lines"
    and inbox: "datagram_contract A fd inbox" "inbox s = (dg, from_addr) # ds @ rest" "length ds = length udp_numbers"
    and "\<forall>d \<in> set ((dg, from_addr) # ds). length (fst d) \<le> 1024" "local_addr fd = Inr la"
  shows "\<exists>s' t' final. interp A (udp_demo sys_send_to print local_addr fd) s t = (Inr (), s', t')
    \<and> sent (os_state t') = sent (os_state t) @ (udp_test_data, udp_demo_addr)
        # map (\<lambda>i. (udp_message i, udp_demo_addr)) udp_numbers @ [(ascii ''Test error'', udp_invalid_addr)]
    \<and> lines (os_state t') = lines (os_state t) @ [BoundTo la, SentBytes 17, ReceivedFrom (length dg) from_addr dg]
        @ concat (map (\<lambda>(i, d). [MessageSent i 9, ResponseReceived (fst d)]) (zip udp_numbers ds)) @ [final]"
proof -
  have "length dg \<le> 1024" using assms(5) by simp
  from interp_udp_demo_first [where t = t and s = s and local_addr = local_addr, OF os inbox(1,2) this assms(6)] obtain s1 t1 buf where
    first: "inbox s1 = ds @ rest" "length buf = 1024"
      "interp A (udp_demo sys_send_to print local_addr fd) s t = interp A
        (async_bind (udp_messages sys_send_to print fd udp_numbers buf) (\<lambda>_. udp_error_demo sys_send_to print fd)) s1 t1"
    and t1: "sent (os_state t1) = sent (os_state t) @ [(udp_test_data, udp_demo_addr)]"
      "lines (os_state t1) = lines (os_state t) @ [BoundTo la, SentBytes 17, ReceivedFrom (length dg) from_addr dg]"
    by blast
  obtain s2 t2 where msgs: "interp A (udp_messages sys_send_to print fd udp_numbers buf) s1 t1 = (Inr (), s2, t2)"
    and t2: "sent (os_state t2) = sent (os_state t1) @ map (\<lambda>i. (udp_message i, udp_demo_addr)) udp_numbers"
      "lines (os_state t2) = lines (os_state t1)
        @ concat (map (\<lambda>(i, d). [MessageSent i (length (udp_message i)), ResponseReceived (fst d)]) (zip udp_numbers ds))"
    using interp_udp_messages [OF os inbox(1) first(1) inbox(3), of buf t1] assms(5) first(2) by auto
  have nine: "map (\<lambda>(i, d). [MessageSent i (length (udp_message i)), ResponseReceived (fst d)]) (zip udp_numbers ds)
      = map (\<lambda>(i, d). [MessageSent i 9, ResponseReceived (fst d)]) (zip udp_numbers ds)"
    by (intro map_cong refl) (auto dest!: set_zip_leftD udp_message_length)
  from interp_udp_error_demo [OF os, of A s2 t2] first(3) msgs t1 t2 show ?thesis
    unfolding nine by (auto simp: interp_bind)
qed

text \<open>C11. The UDP example sends its datagrams in order and reports every datagram it receives in
  full.  Let the backend answer every operation, and let the socket be bound and deliver the
  datagrams \<open>dg\<close> and \<open>ds\<close> of at most 1024 bytes.  Then \<open>main\<close> returns without a panic; the test
  message and the three numbered messages went to its own address and the last one to port 0; and
  it printed each received datagram byte for byte, the first with its sender, although all go
  through one buffer and through recycled buffers of the pool.\<close>

theorem udp_demo_exchanges:
  assumes "io_provider B in_flight ok" "answers B I A"
    and "\<And>b. I b \<Longrightarrow> ok b \<and> in_flight b = {}" "I b"
    and bound: "udp_bind sys_bind set_nonblocking reuseaddr set_broadcast udp_demo_addr = Inr fd" "local_addr fd = Inr la"
    and os: "udp_os_contract sys_send_to print sys_close fd sent lines"
    and inbox: "datagram_contract A fd inbox" "inbox (token_counter w, b) = (dg, from_addr) # ds @ rest"
      "length ds = length udp_numbers"
    and small: "\<forall>d \<in> set ((dg, from_addr) # ds). length (fst d) \<le> 1024"
  shows "\<exists>fuel w' final. udp_demo_main B (Inr b) sys_bind set_nonblocking reuseaddr set_broadcast sys_send_to print local_addr
      sys_close fuel w = Some (Inr (), w') \<and> cur_io w' = None
    \<and> sent (os_state (io_rest w')) = sent (os_state (io_rest w)) @ (udp_test_data, udp_demo_addr)
        # map (\<lambda>i. (udp_message i, udp_demo_addr)) udp_numbers @ [(ascii ''Test error'', udp_invalid_addr)]
    \<and> lines (os_state (io_rest w')) = lines (os_state (io_rest w)) @ [BoundTo la, SentBytes 17, ReceivedFrom (length dg) from_addr dg]
        @ concat (map (\<lambda>(i, d). [MessageSent i 9, ResponseReceived (fst d)]) (zip udp_numbers ds)) @ [final]"
proof -
  obtain s t final where demo: "interp A (udp_demo sys_send_to print local_addr fd) (token_counter w, b) (io_rest w) = (Inr (), s, t)"
    and t: "sent (os_state t) = sent (os_state (io_rest w)) @ (udp_test_data, udp_demo_addr)
        # map (\<lambda>i. (udp_message i, udp_demo_addr)) udp_numbers @ [(ascii ''Test error'', udp_invalid_addr)]"
      "lines (os_state t) = lines (os_state (io_rest w)) @ [BoundTo la, SentBytes 17, ReceivedFrom (length dg) from_addr dg]
        @ concat (map (\<lambda>(i, d). [MessageSent i 9, ResponseReceived (fst d)]) (zip udp_numbers ds)) @ [final]"
    using interp_udp_demo [where t = "io_rest w" and s = "(token_counter w, b)" and local_addr = local_addr,
        OF os inbox small bound(2)] by blast
  have "interp A (drop_after (udp_demo sys_send_to print local_addr fd) (close_fd sys_close fd)) (token_counter w, b) (io_rest w)
      = (Inr (), (fst s, snd s), close_fd sys_close fd t)"
    using demo by (simp add: interp_drop_after)
  from io_provider.block_on_interp [OF assms(1-4) this] bound(1) obtain fuel w' where
    "udp_demo_main B (Inr b) sys_bind set_nonblocking reuseaddr set_broadcast sys_send_to print local_addr
      sys_close fuel w = Some (Inr (), w')" "io_rest w' = close_fd sys_close fd t" "cur_io w' = None"
    by (auto simp: udp_demo_main_def)
  with t show ?thesis
    by (intro exI [of _ fuel] exI [of _ w'] exI [of _ final] conjI) (simp_all add: close_fd_def udp_os_facts [OF os])
qed

text \<open>A socket whose datagrams are echoes of what the program sends.\<close>

definition demo_inbox :: "(u8 list \<times> socket_addr) list awaits" where
  "demo_inbox op ds =
    (case (op, ds) of
       (OpUdpRecv fd buffer, (d, a) # ds') \<Rightarrow>
         (Inr (CUdpRecv (min (length d) (vlen buffer)) (from_slice (take (vlen buffer) d)) a), ds')
     | _ \<Rightarrow> (Inl (IoErr (OsError 11)), ds))"

lemma demo_inbox_contract: "datagram_contract (served_awaits demo_inbox) fd (\<lambda>s. snd (snd s))"
  by (auto simp: datagram_contract_def served_awaits_def demo_inbox_def from_slice_def vec_defs)

definition demo_send :: "raw_fd \<Rightarrow> u8 list \<Rightarrow> socket_addr \<Rightarrow> (u8 list \<times> socket_addr) list \<times> udp_report list
    \<Rightarrow> (std_io_error + usize) \<times> (u8 list \<times> socket_addr) list \<times> udp_report list" where
  "demo_send fd buf a os =
    (if a = udp_demo_addr then Inr (length buf) else Inl (OsError 22), fst os @ [(buf, a)], snd os)"

definition demo_print :: "udp_report \<Rightarrow> (u8 list \<times> socket_addr) list \<times> udp_report list
    \<Rightarrow> (u8 list \<times> socket_addr) list \<times> udp_report list" where
  "demo_print line os = (fst os, snd os @ [line])"

lemma demo_udp_os: "udp_os_contract demo_send demo_print (\<lambda>_ os. os) fd fst snd"
  by (simp add: udp_os_contract_def demo_send_def demo_print_def)

theorem udp_demo_exchanges_witness:
  "\<exists>fuel w' final. udp_demo_main (served_backend demo_inbox)
      (Inr ([], map (\<lambda>d. (d, udp_demo_addr)) [udp_test_data, [1], [2, 3], []])) (\<lambda>_. Inr 4) (\<lambda>_. Inr ()) (\<lambda>_. 0) (\<lambda>_. Inr ())
      demo_send demo_print (\<lambda>_. Inr udp_demo_addr) (\<lambda>_ os. os) fuel
      \<lparr>io_states = [], cur_io = None, token_counter = 1, io_rest = \<lparr>tl_pool = [], os_state = ([], [])\<rparr>\<rparr> = Some (Inr (), w')
    \<and> snd (os_state (io_rest w')) = [BoundTo udp_demo_addr, SentBytes 17, ReceivedFrom 17 udp_demo_addr udp_test_data,
        MessageSent 1 9, ResponseReceived [1], MessageSent 2 9, ResponseReceived [2, 3], MessageSent 3 9, ResponseReceived [], final]"
proof -
  let ?ds = "map (\<lambda>d. (d, udp_demo_addr)) [[1], [2, 3], []] :: (u8 list \<times> socket_addr) list"
  let ?w = "\<lparr>io_states = [], cur_io = None, token_counter = 1, io_rest = \<lparr>tl_pool = [], os_state = ([], [])\<rparr>\<rparr>
    :: ((io_token \<times> op) list \<times> (u8 list \<times> socket_addr) list, ((u8 list \<times> socket_addr) list \<times> udp_report list) thread_state) io_world"
  have bound: "udp_bind (\<lambda>_. Inr 4) (\<lambda>_. Inr ()) (\<lambda>_. 0) (\<lambda>_. Inr ()) udp_demo_addr = Inr 4"
    by (simp add: udp_bind_def)
  from udp_demo_exchanges [where w = ?w and b = "([], (udp_test_data, udp_demo_addr) # ?ds)" and ds = ?ds and rest = "[]"
      and dg = udp_test_data
      and from_addr = udp_demo_addr and la = udp_demo_addr and local_addr = "\<lambda>_. Inr udp_demo_addr",
      OF served.io_provider_axioms served_answers _ _ bound _ demo_udp_os demo_inbox_contract]
  show ?thesis by (auto simp: udp_numbers_def udp_test_data_length)
qed

section \<open>async\_file\_demo.rs and file\_io\_demo.rs\<close>

definition file_test_data :: "u8 list" where
  "file_test_data = ascii ''Hello, async file I/O!''"

text \<open>From the opened file on: the read, the two assertions, and the drop of the file.\<close>

definition file_demo_read :: "(raw_fd \<Rightarrow> 'o \<Rightarrow> 'o) \<Rightarrow> raw_fd \<Rightarrow> (std_io_error + unit, 'o thread_state) async_fn" where
  "file_demo_read sys_close async_file = drop_after
    (async_bind (read_at_fn async_file 0 1024) (\<lambda>r.
       case r of
         Inl e \<Rightarrow> Return (Inl e)
       | Inr (bytes_read, data) \<Rightarrow>
           (if bytes_read \<noteq> length file_test_data then Panics (ExpectFailed ''assertion failed'')
            else case slice_to bytes_read data of
              Inl e \<Rightarrow> Panics e
            | Inr bytes \<Rightarrow>
                (if bytes = file_test_data then Return (Inr ()) else Panics (ExpectFailed ''assertion failed'')))))
    (close_fd sys_close async_file)"

definition file_demo :: "('o \<Rightarrow> (std_io_error + string) \<times> 'o) \<Rightarrow> (string \<Rightarrow> u8 list \<Rightarrow> 'o \<Rightarrow> (std_io_error + unit) \<times> 'o)
    \<Rightarrow> (string \<Rightarrow> 'o \<Rightarrow> 'o) \<Rightarrow> (string \<Rightarrow> std_io_error + raw_fd) \<Rightarrow> (raw_fd \<Rightarrow> string + u32)
    \<Rightarrow> (raw_fd \<Rightarrow> u32 \<Rightarrow> string + unit) \<Rightarrow> u32 \<Rightarrow> (raw_fd \<Rightarrow> 'o \<Rightarrow> 'o) \<Rightarrow> (std_io_error + unit, 'o thread_state) async_fn" where
  "file_demo temp_new temp_write temp_drop sys_open getfl setfl known sys_close =
    with_os temp_new (\<lambda>r.
      case r of
        Inl e \<Rightarrow> Return (Inl e)
      | Inr temp_path \<Rightarrow> drop_after
          (with_os (temp_write temp_path file_test_data) (\<lambda>r.
             case r of
               Inl e \<Rightarrow> Return (Inl e)
             | Inr _ \<Rightarrow>
                 (case file_open sys_open getfl setfl known temp_path of
                    Inl e \<Rightarrow> Return (Inl e)
                  | Inr async_file \<Rightarrow> file_demo_read sys_close async_file)))
          (\<lambda>t. t\<lparr>os_state := temp_drop temp_path (os_state t)\<rparr>))"

definition file_demo_main ::
  "'b io_ops \<Rightarrow> string + 'b \<Rightarrow> ('o \<Rightarrow> (std_io_error + string) \<times> 'o) \<Rightarrow> (string \<Rightarrow> u8 list \<Rightarrow> 'o \<Rightarrow> (std_io_error + unit) \<times> 'o)
   \<Rightarrow> (string \<Rightarrow> 'o \<Rightarrow> 'o) \<Rightarrow> (string \<Rightarrow> std_io_error + raw_fd) \<Rightarrow> (raw_fd \<Rightarrow> string + u32)
   \<Rightarrow> (raw_fd \<Rightarrow> u32 \<Rightarrow> string + unit) \<Rightarrow> u32 \<Rightarrow> (raw_fd \<Rightarrow> 'o \<Rightarrow> 'o) \<Rightarrow> nat \<Rightarrow> ('b, 'o thread_state) io_world
   \<Rightarrow> ((std_io_error + unit) may_panic \<times> ('b, 'o thread_state) io_world) option" where
  "file_demo_main B new temp_new temp_write temp_drop sys_open getfl setfl known sys_close fuel w =
    runtime_block_on B new (async_future B) fuel
      (Unresumed (file_demo temp_new temp_write temp_drop sys_open getfl setfl known sys_close)) w"

text \<open>The outcome of the program, by the number of bytes that the one read reports.\<close>

definition file_demo_outcome :: "(std_io_error + usize \<times> buffer) \<Rightarrow> (std_io_error + unit) may_panic" where
  "file_demo_outcome r =
    (case r of
       Inl e \<Rightarrow> Inr (Inl e)
     | Inr (n, data) \<Rightarrow> if n = length file_test_data then Inr (Inr ()) else Inl (ExpectFailed ''assertion failed''))"

lemma read_at_file:
  assumes "file_contract A fd content" "read_at A fd off len s = (Inr (n, data), s')"
  shows "slice_to n data = Inr (take n (drop (unat off) (content s)))"
proof -
  have "A (OpReadFile fd off len) s = (Inr (CReadFile n data), s')"
    using assms(2) by (auto simp: read_at_def split: prod.splits sum.splits completion_kind.splits)
  with assms(1) have "n \<le> vlen data" "take n (contents data) = map Some (take n (drop (unat off) (content s)))"
    unfolding file_contract_def by blast+
  then show ?thesis by (simp add: slice_to_def as_ref_def comp_def)
qed

lemma interp_file_demo_read:
  assumes "file_contract A fd content" "content s = file_test_data" "read_at A fd 0 1024 s = (r, s')"
  shows "interp A (file_demo_read sys_close fd) s t = (file_demo_outcome r, s', close_fd sys_close fd t)"
proof (cases r)
  case (Inr nd)
  obtain n data where nd: "nd = (n, data)" by fastforce
  have "slice_to n data = Inr (take n file_test_data)"
    using read_at_file [OF assms(1), of 0 1024 s n data s'] assms(2,3) Inr nd by simp
  with assms(3) Inr nd show ?thesis
    by (cases "n = length file_test_data") (simp_all add: file_demo_read_def file_demo_outcome_def interp_drop_after interp_bind interp_read_at)
qed (use assms(3) in \<open>simp add: file_demo_read_def file_demo_outcome_def interp_drop_after interp_bind interp_read_at\<close>)

text \<open>If the file that was opened holds the test data, the program succeeds exactly if its only read is
  not short; in every case, also when an assertion panics, the file is closed and the temporary
  file removed, in this order.\<close>

theorem file_demo_checks:
  assumes "io_provider B in_flight ok" "answers B I A"
    and "\<And>b. I b \<Longrightarrow> ok b \<and> in_flight b = {}" "I b"
    and temp: "temp_new (os_state (io_rest w)) = (Inr path, os1)" "temp_write path file_test_data os1 = (Inr (), os2)"
    and opened: "file_open sys_open getfl setfl known path = Inr fd"
    and disk: "file_contract A fd content" "content (token_counter w, b) = file_test_data"
    and read: "read_at A fd 0 1024 (token_counter w, b) = (r, s')"
  shows "\<exists>fuel w'. file_demo_main B (Inr b) temp_new temp_write temp_drop sys_open getfl setfl known sys_close fuel w
      = Some (file_demo_outcome r, w')
    \<and> os_state (io_rest w') = temp_drop path (sys_close fd os2)"
proof -
  have "interp A (file_demo temp_new temp_write temp_drop sys_open getfl setfl known sys_close) (token_counter w, b) (io_rest w)
      = (file_demo_outcome r, (fst s', snd s'), (io_rest w)\<lparr>os_state := temp_drop path (sys_close fd os2)\<rparr>)"
    using temp opened interp_file_demo_read [where s = "(token_counter w, b)" and sys_close = sys_close
        and t = "(io_rest w)\<lparr>os_state := os2\<rparr>", OF disk read]
    by (simp add: file_demo_def interp_with_os interp_drop_after close_fd_def)
  from io_provider.block_on_interp [OF assms(1-4) this] show ?thesis
    by (fastforce simp: file_demo_main_def)
qed

end
