(* ===== verification/Cpu_Async.thy ===== *)
theory Cpu_Async
  imports Cpu Async_Net
begin

text \<open>
  Asynchronous functions as tasks of a CPU: the event loop of \<open>src/cpu.rs\<close>, the wakers of
  \<open>src/waker.rs\<close>, the futures and the I/O state of \<open>src/io\<close> and the result channel of \<open>src/task.rs\<close>
  working together.

  A task awaits an operation, the loop reaps the completion and calls the waker, the waker puts
  the task into the run queue, and the next round polls it.  The number that stands for the payload
  of a panic is chosen by \<open>code\<close>.
\<close>

definition async_futs :: "'b io_ops \<Rightarrow> (panic \<Rightarrow> nat)
    \<Rightarrow> (('r, 'w) async_state, 'r, ('b, 'w) io_world) future_ops" where
  "async_futs B code = \<lparr>
     fo_poll = (\<lambda>wk f w. case async_poll B wk f w of (r, f', w') \<Rightarrow> (map_sum code id r, f', w', [])),
     fo_drop = (\<lambda>f w. case async_drop f w of Inl _ \<Rightarrow> (w, []) | Inr w' \<Rightarrow> (w', []))\<rparr>"

section \<open>A CPU that is left alone\<close>

text \<open>No message, no timer, no cancelled task; the handles are alive.\<close>

definition cpu_quiet :: "('m \<Rightarrow> 'f cross_cpu_message chan_view) \<Rightarrow> ('f, 'b, 'w, 'q, 'c, 'm) cpu_state \<Rightarrow> bool" where
  "cpu_quiet mview s \<longleftrightarrow> running s \<and> cancelled_tasks s = {} \<and> queued (mview (message_receiver s)) = []
    \<and> senders (mview (message_receiver s)) \<noteq> 0 \<and> wheel_wf (timer s) \<and> wheel_wakers (timer s) = {#}"

text \<open>The rest of the state: tasks, run queue, results, world, I/O state.\<close>

definition cpu_holds :: "('m \<Rightarrow> 'f cross_cpu_message chan_view) \<Rightarrow> ('q \<Rightarrow> task_id list)
    \<Rightarrow> ('f, 'b, 'w, 'q, 'c, 'm) cpu_state \<Rightarrow> (task_id \<rightharpoonup> 'f task) \<Rightarrow> task_id list \<Rightarrow> 'c chan_store
    \<Rightarrow> ('b, 'w) io_world \<Rightarrow> nat \<Rightarrow> bool" where
  "cpu_holds mview items s T rdy R w j \<longleftrightarrow> cpu_quiet mview s \<and> task_queue s = T \<and> items (cpu_ready s) = rdy
    \<and> c_results s = R \<and> c_world s = w \<and> cpu_io s = j"

abbreviation alone :: "nat \<Rightarrow> 'f cross_cpu_message list \<times> waker list" where
  "alone \<equiv> \<lambda>_. ([], [])"

lemmas cpu_holds_defs = cpu_holds_def cpu_quiet_def

locale async_cpu = cpu_messages E mview
  for E :: "(('r, 'x) async_state, 'r, 'b, 'x, 'q, 'c, 'm) cpu_env"
    and mview :: "'m \<Rightarrow> ('r, 'x) async_state cross_cpu_message chan_view" +
  fixes items :: "'q \<Rightarrow> task_id list"
    and view :: "'c \<Rightarrow> 'r task_result chan_view"
    and code :: "panic \<Rightarrow> nat"
    and in_flight :: "'b \<Rightarrow> io_token set"
    and ok :: "'b \<Rightarrow> bool"
  assumes queue: "run_queue (c_queue E) items"
    and results: "channel (c_chan E) view"
    and futs: "c_futs E = async_futs (c_io E) code"
    and provider: "io_provider (c_io E) in_flight ok"
begin

sublocale q: run_queue "c_queue E" items by (rule queue)

sublocale res: result_channel "c_chan E" view by (rule result_channel.intro [OF results])

sublocale io: io_provider "c_io E" in_flight ok by (rule provider)

lemma begin_tick:
  assumes "cpu_holds mview items s T rdy R w j"
  shows "\<exists>s2. cpu_holds mview items s2 T rdy R w j \<and> cpu_tick E (Suc n) s =
    (case cpu_run_tasks E (Suc n) s2 False of
       Some (Inr made, s3) \<Rightarrow>
         (let (completed, s4) = cpu_poll_io_completions E s3 in Some (Inr (made \<or> completed), s4))
     | r \<Rightarrow> r)"
proof -
  obtain x rx where rx: "ch_try_recv (c_msgs E) (message_receiver s) = (x, rx)" "\<forall>m. x \<noteq> RecvOk m"
    "mview rx = mview (message_receiver s)"
    using assms by (cases rule: try_recv_cases [of "message_receiver s"]) (auto simp: cpu_holds_defs)
  let ?s1 = "s\<lparr>message_receiver := rx\<rparr>"
  have s1: "process_messages E (Suc n) s = Some ?s1"
    using rx(1,2) by (cases x) auto
  have "wheel_wf (timer ?s1)" "wheel_wakers (timer ?s1) = {#}" using assms by (simp_all add: cpu_holds_defs)
  with expire_conserves [OF this(1), of "c_clock E (c_reads ?s1)" "[]"] obtain wh where
    wh: "expire (c_clock E (c_reads ?s1)) (timer ?s1) [] = Inr (wh, [])" "wheel_wf wh" "wheel_wakers wh = {#}"
    by auto
  let ?s2 = "?s1\<lparr>timer := wh, c_reads := Suc (c_reads s)\<rparr>"
  have "cpu_expire_timers E ?s1 = Inr (False, ?s2)"
    using wh(1) by (simp add: cpu_expire_timers_def cpu_wake_def)
  moreover have "cpu_holds mview items ?s2 T rdy R w j"
    using assms rx(3) wh(2,3) by (simp add: cpu_holds_defs)
  ultimately show ?thesis using s1 by (intro exI [of _ ?s2]) (simp add: cpu_tick_def)
qed

lemma end_round:
  assumes "cpu_holds mview items s T [] R w j" "poll_io_completions (c_io E) (io_states w ! j) = (pr, st, ws)"
  shows "\<exists>s4 s'. cpu_poll_io_completions E s = (pr, s4) \<and> cpu_wait E (Suc n) (cpu_interfere E ([], []) s4) = Some s'
    \<and> cpu_holds mview items s' T (woken ws) R (io_update j (\<lambda>_. st) w) j"
proof -
  let ?s4 = "cpu_wake E ws (s\<lparr>c_world := io_update j (\<lambda>_. st) w\<rparr>)"
  have p: "cpu_poll_io_completions E s = (pr, ?s4)"
    using assms by (simp add: cpu_poll_io_completions_def cpu_holds_def)
  have h: "cpu_holds mview items ?s4 T (woken ws) R (io_update j (\<lambda>_. st) w) j"
    using assms(1) by (simp add: cpu_holds_defs cpu_wake_def q.items_wake_all)
  have same: "cpu_interfere E ([], []) ?s4 = ?s4" by (simp add: cpu_interfere_def cpu_wake_def)
  obtain x rx where rx: "ch_try_recv (c_msgs E) (message_receiver ?s4) = (x, rx)" "x = RecvEmpty"
    "mview rx = mview (message_receiver ?s4)"
  proof -
    obtain x rx where r: "ch_try_recv (c_msgs E) (message_receiver ?s4) = (x, rx)" by fastforce
    then have "x = fst (view_try_recv (mview (message_receiver ?s4)))"
      "mview rx = snd (view_try_recv (mview (message_receiver ?s4)))"
      using m.fst_try_recv [of "message_receiver ?s4"] m.view_snd_try_recv [of "message_receiver ?s4"] by simp_all
    with r h that show thesis by (simp add: cpu_holds_defs view_try_recv_def)
  qed
  then have "cpu_wait E (Suc n) ?s4 = Some (?s4\<lparr>message_receiver := rx\<rparr>)"
    by (simp add: cpu_wait_def)
  moreover have "cpu_holds mview items (?s4\<lparr>message_receiver := rx\<rparr>) T (woken ws) R (io_update j (\<lambda>_. st) w) j"
    using h rx(3) by (simp add: cpu_holds_defs)
  ultimately show ?thesis using p same by auto
qed

text \<open>One round of \<open>run\<close>.\<close>

lemma round:
  assumes "cpu_holds mview items s T rdy R w j"
    and run: "\<And>s2. cpu_holds mview items s2 T rdy R w j \<Longrightarrow>
      \<exists>made s3. cpu_run_tasks E (Suc n) s2 False = Some (Inr made, s3) \<and> cpu_holds mview items s3 T' [] R' w' j"
    and "poll_io_completions (c_io E) (io_states w' ! j) = (pr, st, ws)"
  shows "\<exists>s'. (\<forall>k m. cpu_run_loop E alone (Suc n) k (Suc m) s = cpu_run_loop E alone (Suc n) (Suc k) m s')
    \<and> cpu_holds mview items s' T' (woken ws) R' (io_update j (\<lambda>_. st) w') j"
proof -
  obtain s2 where s2: "cpu_holds mview items s2 T rdy R w j" "cpu_tick E (Suc n) s =
    (case cpu_run_tasks E (Suc n) s2 False of
       Some (Inr made, s3) \<Rightarrow>
         (let (completed, s4) = cpu_poll_io_completions E s3 in Some (Inr (made \<or> completed), s4))
     | r \<Rightarrow> r)"
    using begin_tick [OF assms(1)] by blast
  obtain made s3 where s3: "cpu_run_tasks E (Suc n) s2 False = Some (Inr made, s3)" "cpu_holds mview items s3 T' [] R' w' j"
    using run [OF s2(1)] by blast
  obtain s4 s' where s4: "cpu_poll_io_completions E s3 = (pr, s4)"
    "cpu_wait E (Suc n) (cpu_interfere E ([], []) s4) = Some s'"
    "cpu_holds mview items s' T' (woken ws) R' (io_update j (\<lambda>_. st) w') j"
    using end_round [OF s3(2) assms(3)] by blast
  have "cpu_tick E (Suc n) s = Some (Inr (made \<or> pr), s4)" using s2(2) s3(1) s4(1) by simp
  moreover have "running s" using assms(1) by (simp add: cpu_holds_defs)
  ultimately show ?thesis using s4(2,3) by auto
qed

lemma run_none:
  assumes "cpu_holds mview items s T [] R w j"
  shows "\<exists>made s3. cpu_run_tasks E (Suc n) s False = Some (Inr made, s3) \<and> cpu_holds mview items s3 T [] R w j"
  using assms by (cases rule: q.pop_cases [of "cpu_ready s"]) (auto simp: cpu_holds_defs)

lemma run_pending:
  assumes "cpu_holds mview items s [i \<mapsto> t] [i] R w j"
    and "task_poll (c_futs E) (c_chan E) (TaskWaker i) t R w = Some (Inr Pending, t', R', w', [])"
  shows "\<exists>made s3. cpu_run_tasks E (Suc (Suc n)) s False = Some (Inr made, s3)
    \<and> cpu_holds mview items s3 [i \<mapsto> t'] [] R' w' j"
proof -
  obtain q where q: "q_pop (c_queue E) (cpu_ready s) = (Some i, q)" "items q = []"
    using assms(1) by (cases rule: q.pop_cases [of "cpu_ready s"]) (auto simp: cpu_holds_defs)
  let ?s1 = "s\<lparr>cpu_ready := q, task_queue := [i \<mapsto> t'], c_results := R', c_world := w'\<rparr>"
  have "cpu_poll_one E i (s\<lparr>cpu_ready := q\<rparr>) = Some (Inr True, ?s1)"
    using assms by (simp add: cpu_poll_one_def cpu_holds_defs cpu_insert_def cpu_discard_def cpu_wake_def
        del: task_poll.simps)
  moreover have "cpu_holds mview items ?s1 [i \<mapsto> t'] [] R' w' j"
    using assms(1) q(2) by (simp add: cpu_holds_defs)
  ultimately show ?thesis
    using q(1) by (cases rule: q.pop_cases [of q]) (auto simp: cpu_holds_defs q(2))
qed

lemma run_ready:
  assumes "cpu_holds mview items s [i \<mapsto> t] [i] R w j"
    and "task_poll (c_futs E) (c_chan E) (TaskWaker i) t R w = Some (Inr (Ready ()), t', R', w', [])"
    and "t_future t' = Completed"
  shows "\<exists>made s3. cpu_run_tasks E (Suc (Suc n)) s False = Some (Inr made, s3)
    \<and> cpu_holds mview items s3 Map.empty [] R' w' j"
proof -
  obtain q where q: "q_pop (c_queue E) (cpu_ready s) = (Some i, q)" "items q = []"
    using assms(1) by (cases rule: q.pop_cases [of "cpu_ready s"]) (auto simp: cpu_holds_defs)
  let ?s1 = "s\<lparr>cpu_ready := q, task_queue := Map.empty, c_results := R', c_world := w'\<rparr>"
  have "cpu_poll_one E i (s\<lparr>cpu_ready := q\<rparr>) = Some (Inr True, ?s1)"
    using assms by (simp add: cpu_poll_one_def cpu_holds_defs cpu_discard_def cpu_wake_def task_drop.simps
        del: task_poll.simps)
  moreover have "cpu_holds mview items ?s1 Map.empty [] R' w' j"
    using assms(1) q(2) by (simp add: cpu_holds_defs)
  ultimately show ?thesis
    using q(1) by (cases rule: q.pop_cases [of q]) (auto simp: cpu_holds_defs q(2))
qed

section \<open>Awaiting\<close>

lemma reap_waiting:
  assumes "at_io j b Map.empty w" "ok b" "in_flight b \<subseteq> {token}"
    and "io_wakers (io_states w ! j) token = Some wk" "drive_op (c_io E) (Suc n) token b = Some (r, b')"
  shows "\<exists>pr st ws b1. poll_io_completions (c_io E) (io_states w ! j) = (pr, st, ws) \<and> ok b1 \<and>
    (ws = [wk] \<and> b1 = b' \<and> in_flight b1 = {} \<and> at_io j b1 [token \<mapsto> r] (io_update j (\<lambda>_. st) w)
     \<or> ws = [] \<and> in_flight b1 \<subseteq> {token} \<and> at_io j b1 Map.empty (io_update j (\<lambda>_. st) w)
       \<and> io_wakers st token = Some wk \<and> drive_op (c_io E) n token b1 = Some (r, b'))"
proof -
  obtain pr st ws where reap: "poll_io_completions (c_io E) (io_states w ! j) = (pr, st, ws)" by (metis prod_cases3)
  obtain p b1 where p: "io_poll_complete (c_io E) b = (p, b1)" by fastforce
  have w: "io_backend (io_states w ! j) = b" "completed_io (io_states w ! j) = Map.empty"
    using assms(1) by (simp_all add: at_io_def)
  have st: "io_backend st = b1" "ok b1" "in_flight b1 \<subseteq> {token}"
    "completed_io st = (case p of Pending \<Rightarrow> Map.empty | Ready cs \<Rightarrow> map_of (map (\<lambda>(t, _, r). (t, r)) cs))"
    "case p of Pending \<Rightarrow> True | Ready cs \<Rightarrow> cs = [] \<or> (\<exists>op r. cs = [(token, op, r)]) \<and> in_flight b1 = {}"
    using io.reap_alone [of "io_states w ! j" token p b1] w assms(2,3) p reap by auto
  have at: "at_io j b1 (completed_io st) (io_update j (\<lambda>_. st) w)"
    using at_io_update [OF assms(1), of "\<lambda>_. st"] st(1) by simp
  show ?thesis
  proof (cases "\<exists>op r. p = Ready [(token, op, r)]")
    case True
    then have "ws = [wk]" "b1 = b'" "in_flight b1 = {}" "completed_io st = [token \<mapsto> r]"
      using reap p w assms(4,5) st(4,5) by (auto simp: poll_io_completions_def)
    with at st(2) reap show ?thesis by (auto simp del: fun_upd_apply)
  next
    case False
    then have "ws = []" "completed_io st = Map.empty" "io_wakers st token = Some wk"
      "drive_op (c_io E) n token b1 = Some (r, b')"
      using reap p w assms(4,5) st(4,5) by (auto simp: poll_io_completions_def split: poll.splits)
    with at st(2,3) reap show ?thesis by auto
  qed
qed

text \<open>A round that leaves the task waiting is followed by rounds that only reap, until the completion
  wakes the task.\<close>

lemma await_rounds:
  assumes "drive_op (c_io E) n token b = Some (r, b')" "cpu_holds mview items s T rdy R0 w0 j"
    and run: "\<And>s2. cpu_holds mview items s2 T rdy R0 w0 j \<Longrightarrow>
      \<exists>made s3. cpu_run_tasks E (Suc f) s2 False = Some (Inr made, s3) \<and> cpu_holds mview items s3 T' [] R w j"
    and "at_io j b Map.empty w" "io_wakers (io_states w ! j) token = Some (TaskWaker i)" "ok b" "in_flight b \<subseteq> {token}"
  shows "\<exists>d s' w'. (\<forall>k m. cpu_run_loop E alone (Suc f) k (d + m) s = cpu_run_loop E alone (Suc f) (k + d) m s')
    \<and> cpu_holds mview items s' T' [i] R w' j \<and> at_io j b' [token \<mapsto> r] w' \<and> ok b' \<and> in_flight b' = {}
    \<and> token_counter w' = token_counter w \<and> io_rest w' = io_rest w"
  using assms
proof (induction n arbitrary: b s T rdy R0 w0 w)
  case (Suc n)
  obtain pr st ws b1 where reap: "poll_io_completions (c_io E) (io_states w ! j) = (pr, st, ws)" "ok b1" and
    outcome: "ws = [TaskWaker i] \<and> b1 = b' \<and> in_flight b1 = {} \<and> at_io j b1 [token \<mapsto> r] (io_update j (\<lambda>_. st) w)
     \<or> ws = [] \<and> in_flight b1 \<subseteq> {token} \<and> at_io j b1 Map.empty (io_update j (\<lambda>_. st) w)
       \<and> io_wakers st token = Some (TaskWaker i) \<and> drive_op (c_io E) n token b1 = Some (r, b')"
    using reap_waiting [OF Suc.prems(4,6,7,5,1)] by blast
  obtain s1 where s1: "\<And>k m. cpu_run_loop E alone (Suc f) k (Suc m) s = cpu_run_loop E alone (Suc f) (Suc k) m s1"
    "cpu_holds mview items s1 T' (woken ws) R (io_update j (\<lambda>_. st) w) j"
    using round [OF Suc.prems(2,3) reap(1)] by auto
  from outcome show ?case
  proof
    assume "ws = [TaskWaker i] \<and> b1 = b' \<and> in_flight b1 = {} \<and> at_io j b1 [token \<mapsto> r] (io_update j (\<lambda>_. st) w)"
    then show ?thesis
      using s1 reap(2) by (intro exI [of _ 1] exI [of _ s1] exI [of _ "io_update j (\<lambda>_. st) w"])
        (auto simp add: woken_def simp del: fun_upd_apply cpu_run_loop.simps)
  next
    assume o: "ws = [] \<and> in_flight b1 \<subseteq> {token} \<and> at_io j b1 Map.empty (io_update j (\<lambda>_. st) w)
       \<and> io_wakers st token = Some (TaskWaker i) \<and> drive_op (c_io E) n token b1 = Some (r, b')"
    have holds: "cpu_holds mview items s1 T' [] R (io_update j (\<lambda>_. st) w) j" using s1(2) o by (simp add: woken_def)
    have wk: "io_wakers (io_states (io_update j (\<lambda>_. st) w) ! j) token = Some (TaskWaker i)"
      using o Suc.prems(4) by (simp add: at_io_def)
    obtain d s' w' where d: "\<And>k m. cpu_run_loop E alone (Suc f) k (d + m) s1 = cpu_run_loop E alone (Suc f) (k + d) m s'"
      and w': "cpu_holds mview items s' T' [i] R w' j" "at_io j b' [token \<mapsto> r] w'" "ok b'" "in_flight b' = {}"
      "token_counter w' = token_counter w" "io_rest w' = io_rest w"
      using Suc.IH [OF _ holds run_none _ wk reap(2)] o by (auto simp del: fun_upd_apply)
    have "cpu_run_loop E alone (Suc f) k (Suc d + m) s = cpu_run_loop E alone (Suc f) (k + Suc d) m s'" for k m
      using s1(1) [of k "d + m"] d [of "Suc k" m] by (simp del: cpu_run_loop.simps)
    with w' show ?thesis by blast
  qed
qed simp

lemma reap_nothing:
  assumes "at_io j b Map.empty w" "ok b" "in_flight b = {}"
  shows "\<exists>pr st. poll_io_completions (c_io E) (io_states w ! j) = (pr, st, [])"
proof -
  obtain p b1 where p: "io_poll_complete (c_io E) b = (p, b1)" by fastforce
  then have "p = Ready [] \<or> p = Pending"
    using io.complete_pending [OF assms(2)] assms(3) by (cases p) auto
  with p assms(1) show ?thesis by (auto simp: at_io_def poll_io_completions_def)
qed

lemma task_poll_pending:
  assumes "async_poll (c_io E) wk f w = (Inr Pending, f', w')"
  shows "task_poll (c_futs E) (c_chan E) wk \<lparr>t_id = i, t_future = Wrapped f r\<rparr> R w
    = Some (Inr Pending, \<lparr>t_id = i, t_future = Wrapped f' r\<rparr>, R, w', [])"
  using assms unfolding futs by (simp add: task_poll.simps async_futs_def)

lemma task_poll_returned:
  assumes "async_poll (c_io E) wk f w = (Inr (Ready v), Returned, w')" "wrapper_complete (c_chan E) r v R = Some R'"
  shows "task_poll (c_futs E) (c_chan E) wk \<lparr>t_id = i, t_future = Wrapped f r\<rparr> R w
    = Some (Inr (Ready ()), \<lparr>t_id = i, t_future = Completed\<rparr>, R', w', [])"
  using assms unfolding futs by (simp add: task_poll.simps async_futs_def)

text \<open>The task is in the run queue, and polling it continues with program \<open>p\<close> in world \<open>w1\<close>.\<close>

lemma runs_to_result:
  assumes ans: "answers (c_io E) I A" and quiet: "\<And>b. I b \<Longrightarrow> ok b \<and> in_flight b = {}"
    and "async_poll (c_io E) (TaskWaker i) f w = resume (c_io E) (TaskWaker i) p w1"
    and "at_io j b Map.empty w1" "I b"
    and "interp A p (token_counter w1, b) (io_rest w1) = (Inr v, (c', b'), x')"
    and "cpu_holds mview items s [i \<mapsto> \<lparr>t_id = i, t_future = Wrapped f r\<rparr>] [i] R w j"
    and chan: "chan_open view R r" "receiver_alive view R r"
  shows "\<exists>d s' R' w'. (\<forall>k m. cpu_run_loop E alone (Suc (Suc n)) k (d + m) s = cpu_run_loop E alone (Suc (Suc n)) (k + d) m s')
    \<and> cpu_holds mview items s' Map.empty [] R' w' j \<and> chan_holds view R' r [Inr v]
    \<and> token_counter w' = c' \<and> io_rest w' = x'"
  using assms(3-7)
proof (induction p arbitrary: f w w1 b s)
  case (Return v')
  have v: "v' = v" "token_counter w1 = c'" "io_rest w1 = x'" using Return.prems(4) by simp_all
  obtain ch where ch: "wrapper_complete (c_chan E) r v R = Some (store_update r (\<lambda>_. ch) R)"
    "senders (view ch) = 0" "queued (view ch) = [Inr v]"
    using res.wrapper_complete_open [OF chan(1), of v] chan(2) by auto
  let ?R = "store_update r (\<lambda>_. ch) R"
  have "task_poll (c_futs E) (c_chan E) (TaskWaker i) \<lparr>t_id = i, t_future = Wrapped f r\<rparr> R w
      = Some (Inr (Ready ()), \<lparr>t_id = i, t_future = Completed\<rparr>, ?R, w1, [])"
    using Return.prems(1) ch(1) v(1) by (intro task_poll_returned) simp_all
  from run_ready [OF _ this] have run: "\<exists>made s3. cpu_run_tasks E (Suc (Suc n)) s2 False = Some (Inr made, s3)
      \<and> cpu_holds mview items s3 Map.empty [] ?R w1 j"
    if "cpu_holds mview items s2 [i \<mapsto> \<lparr>t_id = i, t_future = Wrapped f r\<rparr>] [i] R w j" for s2
    using that by simp
  obtain pr st where "poll_io_completions (c_io E) (io_states w1 ! j) = (pr, st, [])"
    using reap_nothing [OF Return.prems(2)] quiet [OF Return.prems(3)] by blast
  from round [OF Return.prems(5) run this] obtain s' where
    "\<forall>k m. cpu_run_loop E alone (Suc (Suc n)) k (Suc m) s = cpu_run_loop E alone (Suc (Suc n)) (Suc k) m s'"
    "cpu_holds mview items s' Map.empty [] ?R (io_update j (\<lambda>_. st) w1) j"
    by (auto simp: woken_def simp del: cpu_run_loop.simps fun_upd_apply)
  moreover have "chan_holds view ?R r [Inr v]"
    using ch(2,3) chan(1) by (auto simp: chan_holds_def chan_open_def)
  ultimately show ?case
    using v(2,3) by (intro exI [of _ 1] exI [of _ s'] exI [of _ ?R] exI [of _ "io_update j (\<lambda>_. st) w1"])
      (simp del: cpu_run_loop.simps)
next
  case (Panics e)
  then show ?case by simp
next
  case (Local g k)
  let ?w = "w1\<lparr>io_rest := g (io_rest w1)\<rparr>"
  have "async_poll (c_io E) (TaskWaker i) f w = resume (c_io E) (TaskWaker i) (k (io_rest w1)) ?w"
    using Local.prems(1) by simp
  from Local.IH [OF rangeI this _ Local.prems(3) _ Local.prems(5)] Local.prems(2,4) show ?case by simp
next
  case (Awaiting op k)
  obtain r0 c1 b1 where A: "A op (token_counter w1, b) = (r0, c1, b1)" by (metis prod_cases3)
  obtain token n0 b0 w2 where res: "\<And>wk. resume (c_io E) wk (Awaiting op k) w1 = async_poll (c_io E) wk (Suspended token k) w2"
    and w2: "at_io j b0 Map.empty w2" "token_counter w2 = c1" "io_rest w2 = io_rest w1"
    and b0: "ok b0" "in_flight b0 \<subseteq> {token}" and driven: "drive_op (c_io E) n0 token b0 = Some (r0, b1)" and I: "I b1"
    using io.resume_awaiting [OF ans Awaiting.prems(3) _ _ Awaiting.prems(2) A, of k] quiet [OF Awaiting.prems(3)] by auto
  obtain w3 where w3: "async_poll (c_io E) (TaskWaker i) (Suspended token k) w2 = (Inr Pending, Suspended token k, w3)"
    "at_io j b0 Map.empty w3" "io_wakers (io_states w3 ! j) token = Some (TaskWaker i)"
    "token_counter w3 = c1" "io_rest w3 = io_rest w1"
    using await_io_pending [OF w2(1), of "TaskWaker i" token k "\<lambda>r. resume (c_io E) (TaskWaker i) (k r)"] w2(2,3) by auto
  have "task_poll (c_futs E) (c_chan E) (TaskWaker i) \<lparr>t_id = i, t_future = Wrapped f r\<rparr> R w
      = Some (Inr Pending, \<lparr>t_id = i, t_future = Wrapped (Suspended token k) r\<rparr>, R, w3, [])"
    using Awaiting.prems(1) res w3(1) by (intro task_poll_pending) (simp only:)
  note run = run_pending [OF _ this, where n = n]
  obtain d s1 w4 where d: "\<And>k m. cpu_run_loop E alone (Suc (Suc n)) k (d + m) s = cpu_run_loop E alone (Suc (Suc n)) (k + d) m s1"
    and w4: "cpu_holds mview items s1 [i \<mapsto> \<lparr>t_id = i, t_future = Wrapped (Suspended token k) r\<rparr>] [i] R w4 j"
      "at_io j b1 [token \<mapsto> r0] w4" "token_counter w4 = c1" "io_rest w4 = io_rest w1"
    using await_rounds [OF driven Awaiting.prems(5) run w3(2,3) b0] w3(4,5) by (auto simp del: fun_upd_apply)
  obtain w5 where w5: "async_poll (c_io E) (TaskWaker i) (Suspended token k) w4 = resume (c_io E) (TaskWaker i) (k r0) w5"
    "at_io j b1 Map.empty w5" "token_counter w5 = c1" "io_rest w5 = io_rest w1"
    using await_io_ready [OF w4(2), of "TaskWaker i" k "\<lambda>r. resume (c_io E) (TaskWaker i) (k r)"] w4(3,4) by auto
  have "interp A (k r0) (token_counter w5, b1) (io_rest w5) = (Inr v, (c', b'), x')"
    using Awaiting.prems(4) A w5(3,4) by simp
  from Awaiting.IH [OF rangeI w5(1,2) I this w4(1)] obtain d' s' R' w' where
    d': "\<And>k m. cpu_run_loop E alone (Suc (Suc n)) k (d' + m) s1 = cpu_run_loop E alone (Suc (Suc n)) (k + d') m s'"
    and w': "cpu_holds mview items s' Map.empty [] R' w' j" "chan_holds view R' r [Inr v]" "token_counter w' = c'" "io_rest w' = x'"
    by blast
  have "cpu_run_loop E alone (Suc (Suc n)) k (d + d' + m) s = cpu_run_loop E alone (Suc (Suc n)) (k + (d + d')) m s'" for k m
    using d [of k "d' + m"] d' [of "k + d" m] by (simp del: cpu_run_loop.simps add: add.assoc)
  with w' show ?case by blast
qed

text \<open>The state in which \<open>run\<close> begins when one task was spawned on a new CPU.\<close>

lemma spawned_alone:
  assumes "queued (mview rx) = []" "senders (mview rx) \<noteq> 0"
    and "cpu_spawn E f (cpu_new E i rx b st w k) = (h, s)"
  shows "\<exists>t R. h = join_handle_new t (next_cell st) \<and> chan_open view R (next_cell st) \<and> receiver_alive view R (next_cell st)
    \<and> cpu_holds mview items (s\<lparr>c_world := set_current_io_state (cpu_io s) (c_world s)\<rparr>)
        [t \<mapsto> \<lparr>t_id = t, t_future = Wrapped f (next_cell st)\<rparr>] [t] R
        (set_current_io_state (length (io_states w)) (w\<lparr>io_states := io_states w @ [io_state_new b]\<rparr>)) (length (io_states w))"
proof -
  let ?t = "TaskId (push_bit 32 (of_nat i))"
  let ?R = "snd (store_alloc (ch_bounded (c_chan E) 1) st)"
  have wheel: "wheel_wf (wheel_default (c_clock E k) :: waker timer_wheel)"
    "wheel_wakers (wheel_default (c_clock E k) :: waker timer_wheel) = {#}"
    by (simp_all add: wheel_default_def wheel_wf_new)
  have "h = join_handle_new ?t (next_cell st)"
    "s = (cpu_new E i rx b st w k)\<lparr>next_id := push_bit 32 (of_nat i) + 1, c_results := ?R,
      task_queue := [?t \<mapsto> task_new ?t (Wrapped f (next_cell st))], cpu_ready := q_push (c_queue E) (q_new (c_queue E)) ?t\<rparr>"
    using assms(3) by (auto simp: cpu_spawn_def cpu_new_def cpu_next_task_id_def fetch_add_def cpu_insert_def
        cpu_discard_def store_alloc_def)
  moreover have "chan_open view ?R (next_cell st)" "receiver_alive view ?R (next_cell st)"
    by (simp_all add: chan_state_defs store_alloc_def res.view_ch_bounded view_bounded_def)
  ultimately show ?thesis
    using assms(1,2) wheel by (intro exI [of _ ?t] exI [of _ ?R])
      (simp add: cpu_holds_defs cpu_new_def task_new_def q.items_push q.items_new)
qed

end

lemma async_cpu_list:
  "io_provider B in_flight ok \<Longrightarrow>
   async_cpu (list_cpu (async_futs B code) B clock) (\<lambda>v. v) (\<lambda>q. q) (\<lambda>v. v) code in_flight ok"
  by (simp add: async_cpu_def async_cpu_axioms_def cpu_messages_def run_queue_def view_channel.channel_axioms
      list_queue.seg_queue_axioms)

section \<open>Properties\<close>

text \<open>C7. A task on a CPU gets its I/O done.  Spawn an asynchronous function on a new \<open>Cpu\<close> whose backend
  keeps the contract of \<open>IoProvider\<close> and answers every operation, and let \<open>run\<close> work undisturbed.  After
  some number of rounds the join handle is ready with the value of the direct reading of the function,
  the task is gone, and the CPU still runs: every await was woken by the completion that it waited for.\<close>

theorem cpu_task_delivers:
  assumes "channel (c_msgs E) mview" "seg_queue (c_queue E) items" "channel (c_chan E) view"
    and "c_futs E = async_futs (c_io E) code" "io_provider (c_io E) in_flight ok"
    and "answers (c_io E) I A" "\<And>b. I b \<Longrightarrow> ok b \<and> in_flight b = {}" "I b"
    and "queued (mview rx) = []" "senders (mview rx) \<noteq> 0"
    and "cpu_spawn E (Unresumed p) (cpu_new E i rx b st w k) = (h, s)"
    and "interp A p (token_counter w, b) (io_rest w) = (Inr v, (c', b'), x')"
  shows "\<exists>d s'. (\<forall>m. cpu_run E alone (Suc (Suc n)) (d + m) s = cpu_run_loop E alone (Suc (Suc n)) d m s')
    \<and> fst (jh_poll (c_chan E) wk h (c_results s')) = Ready (Inr v) \<and> task_queue s' = Map.empty \<and> running s'
    \<and> token_counter (c_world s') = c' \<and> io_rest (c_world s') = x'"
proof -
  have env: "async_cpu E mview items view code in_flight ok"
    using assms(1-5) by (simp add: async_cpu_def async_cpu_axioms_def cpu_messages_def run_queue_def)
  let ?j = "length (io_states w)" and ?r = "next_cell st"
  let ?w = "set_current_io_state ?j (w\<lparr>io_states := io_states w @ [io_state_new b]\<rparr>)"
  let ?s = "s\<lparr>c_world := set_current_io_state (cpu_io s) (c_world s)\<rparr>"
  obtain t R where h: "h = join_handle_new t ?r" and R: "chan_open view R ?r" "receiver_alive view R ?r"
    and s: "cpu_holds mview items ?s [t \<mapsto> \<lparr>t_id = t, t_future = Wrapped (Unresumed p) ?r\<rparr>] [t] R ?w ?j"
    using async_cpu.spawned_alone [OF env assms(9-11)] by blast
  have w: "at_io ?j b Map.empty ?w" "token_counter ?w = token_counter w" "io_rest ?w = io_rest w"
    by (simp_all add: at_io_def set_current_io_state_def io_state_new_def)
  have "async_poll (c_io E) (TaskWaker t) (Unresumed p) ?w = resume (c_io E) (TaskWaker t) p ?w" by simp
  from async_cpu.runs_to_result [OF env assms(6,7) this w(1) assms(8) _ s R, where n = n] assms(12) w(2,3)
  obtain d s' R' w' where d: "\<And>k m. cpu_run_loop E alone (Suc (Suc n)) k (d + m) ?s = cpu_run_loop E alone (Suc (Suc n)) (k + d) m s'"
    and s': "cpu_holds mview items s' Map.empty [] R' w' ?j" "chan_holds view R' ?r [Inr v]" "token_counter w' = c'" "io_rest w' = x'"
    by (auto simp del: cpu_run_loop.simps)
  have "fst (jh_poll (c_chan E) wk h (c_results s')) = Ready (Inr v)"
    using result_channel.jh_poll_holds [OF result_channel.intro [OF assms(3)], of R' h "[Inr v]" wk] s'(1,2) h
    by (simp add: cpu_holds_def join_handle_new_def)
  moreover have "cpu_run E alone (Suc (Suc n)) (d + m) s = cpu_run_loop E alone (Suc (Suc n)) d m s'" for m
    using d [of 0 m] by (simp add: cpu_run_def)
  ultimately show ?thesis using s' by (auto simp: cpu_holds_defs)
qed

type_synonym written = "(std_io_error + unit) option"

abbreviation demo_sink_cpu :: "((written, unit) async_state, written, (io_token \<times> op) list \<times> u8 list, unit, task_id list,
    written task_result chan_view, (written, unit) async_state cross_cpu_message chan_view) cpu_env" where
  "demo_sink_cpu \<equiv> list_cpu (async_futs (served_backend demo_sink) (\<lambda>_. 1)) (served_backend demo_sink) (\<lambda>k. k)"

definition demo_sink_world :: "((io_token \<times> op) list \<times> u8 list, unit) io_world" where
  "demo_sink_world = \<lparr>io_states = [], cur_io = None, token_counter = 7, io_rest = ()\<rparr>"

theorem cpu_task_delivers_witness:
  "\<exists>d s'. (\<forall>m. cpu_run demo_sink_cpu alone 2 (d + m)
        (snd (cpu_spawn demo_sink_cpu (Unresumed (write_all_fn 5 3 [1, 2, 3, 4]))
          (cpu_new demo_sink_cpu 0 (view_bounded 1000) ([], []) store_empty demo_sink_world 0)))
      = cpu_run_loop demo_sink_cpu alone 2 d m s')
    \<and> fst (jh_poll view_channel DummyWaker (join_handle_new (TaskId 0) 0) (c_results s')) = Ready (Inr (Some (Inr ())))"
proof -
  let ?s = "cpu_spawn demo_sink_cpu (Unresumed (write_all_fn 5 3 [1, 2, 3, 4]))
    (cpu_new demo_sink_cpu 0 (view_bounded 1000) ([], []) store_empty demo_sink_world 0)"
  have h: "?s = (join_handle_new (TaskId 0) 0, snd ?s)"
    by (simp add: cpu_spawn_def cpu_new_def cpu_next_task_id_def fetch_add_def store_alloc_def store_empty_def Let_def)
  have run: "interp (served_awaits demo_sink) (write_all_fn 5 3 [1, 2, 3, 4])
      (token_counter demo_sink_world, [], []) (io_rest demo_sink_world)
      = (Inr (Some (Inr ())), (9, [], [1, 2, 3, 4]), ())"
    by (simp add: demo_sink_world_def numeral_3_eq_3 tcp_write_fn_def served_awaits_def demo_sink_def from_slice_def
        vec_of_def contents_def)
  have env: "channel (c_msgs demo_sink_cpu) (\<lambda>v. v)" "seg_queue (c_queue demo_sink_cpu) (\<lambda>q. q)"
    "channel (c_chan demo_sink_cpu) (\<lambda>v. v)" "c_futs demo_sink_cpu = async_futs (c_io demo_sink_cpu) (\<lambda>_. 1)"
    by (simp_all add: view_channel.channel_axioms list_queue.seg_queue_axioms)
  have io: "io_provider (c_io demo_sink_cpu) (\<lambda>b. set (map fst (fst b))) (\<lambda>b. distinct (map fst (fst b)))"
    "answers (c_io demo_sink_cpu) (\<lambda>b. fst b = []) (served_awaits demo_sink)"
    unfolding list_cpu_sel by (rule served.io_provider_axioms served_answers)+
  have "\<exists>d s'. (\<forall>m. cpu_run demo_sink_cpu alone (Suc (Suc 0)) (d + m) (snd ?s)
        = cpu_run_loop demo_sink_cpu alone (Suc (Suc 0)) d m s')
    \<and> fst (jh_poll (c_chan demo_sink_cpu) DummyWaker (join_handle_new (TaskId 0) 0) (c_results s'))
      = Ready (Inr (Some (Inr ()))) \<and> task_queue s' = Map.empty \<and> running s'
    \<and> token_counter (c_world s') = 9 \<and> io_rest (c_world s') = ()"
    by (rule cpu_task_delivers [OF env io _ _ _ _ h run]) (simp_all add: view_bounded_def)
  then show ?thesis unfolding numeral_2_eq_2 list_cpu_sel by blast
qed

end
