(* ===== verification/Build.thy ===== *)
theory Build
  imports Text
begin

text \<open>
  The build script \<open>build.rs\<close>: the kernel version is parsed out of the output of \<open>uname -r\<close>, which
  is an argument, and selects the I/O backend that is compiled in.
\<close>

section \<open>Parsing numbers\<close>

datatype parse_int_error = PieEmpty | InvalidDigit | PosOverflow

definition ascii_digit :: "nat \<Rightarrow> bool" where
  "ascii_digit c \<longleftrightarrow> 48 \<le> c \<and> c \<le> 57"

text \<open>\<open>u32::from_str\<close>.\<close>

primrec digits_u32 :: "nat \<Rightarrow> rstr \<Rightarrow> parse_int_error + nat" where
  "digits_u32 n [] = Inr n"
| "digits_u32 n (c # cs) =
    (if \<not> ascii_digit c then Inl InvalidDigit
     else let n' = 10 * n + (c - 48) in if n' < 2 ^ 32 then digits_u32 n' cs else Inl PosOverflow)"

definition parse_u32 :: "rstr \<Rightarrow> parse_int_error + nat" where
  "parse_u32 s =
    (case s of
       [] \<Rightarrow> Inl PieEmpty
     | c # cs \<Rightarrow> if cs = [] \<and> (c = 43 \<or> c = 45) then Inl InvalidDigit
                else if c = 43 then digits_u32 0 cs else digits_u32 0 s)"

text \<open>\<open>str::split\<close> by a predicate on characters.\<close>

primrec split_on :: "(nat \<Rightarrow> bool) \<Rightarrow> rstr \<Rightarrow> rstr list" where
  "split_on P [] = [[]]"
| "split_on P (c # cs) =
    (if P c then [] # split_on P cs
     else case split_on P cs of [] \<Rightarrow> [[c]] | p # ps \<Rightarrow> (c # p) # ps)"

section \<open>The script\<close>

datatype build_error = UnameFailed | VersionNotUtf8 | BadNumber parse_int_error | InvalidVersionFormat

definition parse_kernel_version :: "rstr \<Rightarrow> build_error + (nat \<times> nat \<times> nat)" where
  "parse_kernel_version version_str =
    (let parts = split_on (\<lambda>c. c = 46 \<or> c = 45) (trim version_str) in
     if length parts \<ge> 3 then
       (case parse_u32 (parts ! 0) of
          Inl e \<Rightarrow> Inl (BadNumber e)
        | Inr major \<Rightarrow>
            (case parse_u32 (parts ! 1) of
               Inl e \<Rightarrow> Inl (BadNumber e)
             | Inr minor \<Rightarrow>
                 (let patch_str = (case split_on (\<lambda>c. \<not> ascii_digit c) (parts ! 2) of
                        [] \<Rightarrow> lit ''0'' | p # _ \<Rightarrow> p) in
                  case parse_u32 patch_str of
                    Inl e \<Rightarrow> Inl (BadNumber e)
                  | Inr patch \<Rightarrow> Inr (major, minor, patch))))
     else Inl InvalidVersionFormat)"

text \<open>\<open>uname\<close> is the standard output of the command, or nothing when it cannot be run.\<close>

definition get_kernel_version :: "u8 list option \<Rightarrow> build_error + (nat \<times> nat \<times> nat)" where
  "get_kernel_version uname =
    (case uname of
       None \<Rightarrow> Inl UnameFailed
     | Some stdout \<Rightarrow>
         (case decode_utf8 stdout of
            None \<Rightarrow> Inl VersionNotUtf8
          | Some version_str \<Rightarrow> parse_kernel_version version_str))"

definition is_io_uring_actually_supported_on_linux :: bool where
  "is_io_uring_actually_supported_on_linux = True"

datatype target = Linux | Macos | OtherUnix | NonUnix

datatype io_backend_cfg = BackendIoUring | BackendEpoll | BackendKqueue

definition version_ge :: "nat \<times> nat \<times> nat \<Rightarrow> nat \<times> nat \<times> nat \<Rightarrow> bool" where
  "version_ge v w =
    (case (v, w) of ((a, b, c), (a', b', c')) \<Rightarrow> a' < a \<or> a' = a \<and> (b' < b \<or> b' = b \<and> c' \<le> c))"

definition build_main :: "target \<Rightarrow> u8 list option \<Rightarrow> io_backend_cfg option" where
  "build_main target uname =
    (case target of
       Linux \<Rightarrow>
         (case get_kernel_version uname of
            Inr version \<Rightarrow>
              (if version_ge version (5, 10, 0) \<and> is_io_uring_actually_supported_on_linux
               then Some BackendIoUring else Some BackendEpoll)
          | Inl _ \<Rightarrow> Some BackendEpoll)
     | Macos \<Rightarrow> Some BackendKqueue
     | OtherUnix \<Rightarrow> Some BackendEpoll
     | NonUnix \<Rightarrow> None)"

section \<open>Parsing inverts printing\<close>

lemma lit_digits: "c \<in> set (lit (decimal n)) \<Longrightarrow> ascii_digit c"
  by (auto simp: lit_def ascii_digit_def is_digit_def dest!: decimal_digits)

lemma lit_append: "lit (s @ t) = lit s @ lit t"
  by (simp add: lit_def)

lemma digits_u32_decimal: "n < 2 ^ 32 \<Longrightarrow> digits_u32 0 (lit (decimal n) @ rest) = digits_u32 n rest"
proof (induction n arbitrary: rest rule: decimal.induct)
  case (1 n)
  have d: "lit [digit (n mod 10)] = [48 + n mod 10]" by (simp add: lit_def digit_def)
  show ?case
  proof (cases "n < 10")
    case True
    then show ?thesis using d by (subst decimal.simps) (simp add: ascii_digit_def)
  next
    case False
    have "n div 10 < 2 ^ 32" using 1(2) by simp
    with 1(1) [OF False] have "digits_u32 0 (lit (decimal n) @ rest) = digits_u32 (n div 10) ((48 + n mod 10) # rest)"
      using False d by (subst decimal.simps) (simp add: lit_append)
    also have "\<dots> = digits_u32 n rest"
      using 1(2) mod_less_divisor [of 10 n] by (auto simp: ascii_digit_def Let_def)
    finally show ?thesis .
  qed
qed

lemma parse_u32_decimal:
  assumes "n < 2 ^ 32"
  shows "parse_u32 (lit (decimal n)) = Inr n"
proof -
  obtain c cs where c: "lit (decimal n) = c # cs"
    using decimal_nonempty [of n] by (cases "lit (decimal n)") (auto simp: lit_def)
  then have "ascii_digit c" using lit_digits [of c n] by simp
  then have "parse_u32 (c # cs) = digits_u32 0 (c # cs)"
    by (auto simp: parse_u32_def ascii_digit_def)
  also have "\<dots> = Inr n" using digits_u32_decimal [OF assms, of "[]"] c by simp
  finally show ?thesis using c by simp
qed

lemma split_on_ne: "split_on P s \<noteq> []"
  by (induction s) (auto split: list.splits)

lemma split_on_piece: "\<forall>c \<in> set a. \<not> P c \<Longrightarrow> split_on P (a @ s) = (a @ hd (split_on P s)) # tl (split_on P s)"
  by (induction a) (auto simp: split_on_ne split: list.splits)

lemma split_on_sep: "\<forall>c \<in> set a. \<not> P c \<Longrightarrow> P d \<Longrightarrow> split_on P (a @ d # s) = a # split_on P s"
  by (simp add: split_on_piece)

text \<open>What may follow the patch level: nothing, or text that does not begin with a digit and does not
  end in white space.\<close>

definition version_tail :: "rstr \<Rightarrow> bool" where
  "version_tail t \<longleftrightarrow> t = [] \<or> \<not> ascii_digit (hd t) \<and> \<not> whitespace (last t)"

definition version_text :: "nat \<times> nat \<times> nat \<Rightarrow> rstr \<Rightarrow> rstr" where
  "version_text v t =
    (case v of (a, b, c) \<Rightarrow> lit (decimal a) @ 46 # lit (decimal b) @ 46 # lit (decimal c) @ t)"

lemma digit_not_whitespace: "ascii_digit c \<Longrightarrow> \<not> whitespace c"
  by (auto simp: ascii_digit_def whitespace_def)

lemma lit_decimal_ne [simp]: "lit (decimal n) \<noteq> []"
  by (simp add: lit_def)

lemma trim_version:
  assumes "version_tail t"
  shows "trim (version_text v t @ [10]) = version_text v t"
proof -
  obtain a b c where v: "v = (a, b, c)" by (metis prod_cases3)
  have "ascii_digit (hd (lit (decimal a)))" "ascii_digit (last (lit (decimal c)))"
    by (simp_all add: lit_digits [OF hd_in_set] lit_digits [OF last_in_set])
  then have h: "\<not> whitespace (hd (version_text v t))" "\<not> whitespace (last (version_text v t))" "version_text v t \<noteq> []"
    using assms unfolding v version_text_def version_tail_def
    by (auto simp: digit_not_whitespace last_append)
  then have "dropWhile whitespace (version_text v t @ [10]) = version_text v t @ [10]"
    by (simp add: dropWhile_hd)
  moreover have "whitespace 10" by (simp add: whitespace_def)
  ultimately show ?thesis
    using h by (simp add: trim_def dropWhile_hd hd_rev)
qed

lemma patch_piece:
  assumes "version_tail t"
  shows "hd (split_on (\<lambda>d. \<not> ascii_digit d) (lit (decimal c) @ hd (split_on (\<lambda>d. d = 46 \<or> d = 45) t))) = lit (decimal c)"
proof -
  have "hd (split_on (\<lambda>d. d = 46 \<or> d = 45) t) = [] \<or> \<not> ascii_digit (hd (hd (split_on (\<lambda>d. d = 46 \<or> d = 45) t)))"
    using assms by (cases t) (auto simp: version_tail_def split: list.splits)
  then have "hd (split_on (\<lambda>d. \<not> ascii_digit d) (hd (split_on (\<lambda>d. d = 46 \<or> d = 45) t))) = []"
    by (cases "hd (split_on (\<lambda>d. d = 46 \<or> d = 45) t)") auto
  then show ?thesis using lit_digits by (subst split_on_piece) auto
qed

lemma parse_kernel_version_text:
  assumes "a < 2 ^ 32" "b < 2 ^ 32" "c < 2 ^ 32" "version_tail t"
  shows "parse_kernel_version (version_text (a, b, c) t @ [10]) = Inr (a, b, c)"
proof -
  let ?sep = "\<lambda>d. d = 46 \<or> d = (45 :: nat)"
  have no: "\<forall>d \<in> set (lit (decimal n)). \<not> ?sep d" for n
    by (auto simp: ascii_digit_def dest: lit_digits)
  have parts: "split_on ?sep (trim (version_text (a, b, c) t @ [10]))
      = lit (decimal a) # lit (decimal b) # (lit (decimal c) @ hd (split_on ?sep t)) # tl (split_on ?sep t)"
    unfolding trim_version [OF assms(4)]
    by (simp add: version_text_def split_on_sep no split_on_piece)
  obtain p ps where p: "split_on (\<lambda>d. \<not> ascii_digit d) (lit (decimal c) @ hd (split_on ?sep t)) = p # ps"
    using split_on_ne by (metis neq_Nil_conv)
  moreover have "p = lit (decimal c)" using patch_piece [OF assms(4), of c] p by simp
  ultimately show ?thesis
    unfolding parse_kernel_version_def parts Let_def by (simp add: assms(1-3) [THEN parse_u32_decimal])
qed

section \<open>Properties\<close>

text \<open>On Linux the script selects io_uring exactly for kernels from 5.10 on, for every release
  that \<open>uname\<close> prints as three numbers below 2 to the 32, followed by any suffix that does not begin
  with a digit, and a newline.\<close>

theorem linux_backend_selected:
  assumes "a < 2 ^ 32" "b < 2 ^ 32" "c < 2 ^ 32" "version_tail t" "list_all scalar t"
  shows "build_main Linux (Some (encode_utf8 (version_text (a, b, c) t @ [10])))
    = Some (if 5 < a \<or> a = 5 \<and> 10 \<le> b then BackendIoUring else BackendEpoll)"
proof -
  have "scalar d" if "d \<in> set (lit (decimal n))" for d n
    using lit_digits [OF that] by (auto simp: ascii_digit_def scalar_def)
  then have "list_all scalar (version_text (a, b, c) t @ [10])"
    using assms(5) by (auto simp: version_text_def list_all_iff scalar_def)
  then have "get_kernel_version (Some (encode_utf8 (version_text (a, b, c) t @ [10]))) = Inr (a, b, c)"
    unfolding get_kernel_version_def option.case decode_encode_utf8
    by (simp only: decode_encode_utf8 option.case parse_kernel_version_text [OF assms(1-4)])
  then show ?thesis
    by (auto simp: build_main_def version_ge_def is_io_uring_actually_supported_on_linux_def
        simp del: encode_utf8_append)
qed

theorem linux_backend_selected_witness:
  "build_main Linux (Some (encode_utf8 (version_text (5, 10, 0) (lit ''-8-generic'') @ [10])))
    = Some BackendIoUring"
  using linux_backend_selected [of 5 10 0 "lit ''-8-generic''"]
  by (simp add: version_tail_def lit_def ascii_digit_def scalar_def whitespace_def)

end
