(* ===== verification/Spec2Isabelle.thy ===== *)
theory Spec2Isabelle
  imports Sleep Cancel_Token Signal Runtime_Calls Uring_Kernel Epoll Http_Handlers Examples Cpu_Async Build
begin

text \<open>
  Verification of rust-miniss, an asynchronous runtime with one thread per core.

  \<^bold>\<open>The program.\<close>  User futures are polled by one of three drivers: the single-threaded \<open>Executor\<close>
  (\<open>src/executor.rs\<close>), the event loop of a \<open>Cpu\<close> (\<open>src/cpu.rs\<close>), or a core of \<open>MultiCoreRuntime\<close>
  (\<open>src/multicore.rs\<close>); \<open>Runtime::block_on\<close> polls one future on the calling thread.  A task that is
  pending is polled again when its waker puts its identifier into the ready queue.  Wakers come
  from three sources: the timer wheel (\<open>src/timer\<close>), completions of an I/O backend (\<open>src/io\<close>), which the
  driver reaps into a per-thread table that \<open>IoFuture\<close> looks into, and other tasks.  The methods of
  \<open>src/net.rs\<close>, \<open>src/fs.rs\<close> and \<open>src/http.rs\<close> submit operations and await their futures, with buffers
  from a per-thread pool (\<open>src/buffer.rs\<close>).  Threads talk through bounded channels and lock-free
  queues; \<open>src/signal.rs\<close> turns signals into shutdown messages; \<open>build.rs\<close> selects the backend.

  \<^bold>\<open>Theories and code.\<close>
  \<^item> \<open>Prelude\<close>: machine integers, \<open>poll\<close>, panics as values (\<open>may_panic\<close>), atomic counters (locale
    \<open>id_counter\<close>), shared lemmas.  \<open>Crossbeam\<close>: the queues and channels of the library that the sources
    use, as the interfaces \<open>seg_queue\<close> and \<open>channel\<close> with a list model of each.
  \<^item> \<open>Buffer\<close> is \<open>src/buffer.rs\<close>: vectors with capacity and possibly uninitialised cells, and the pool.
  \<^item> \<open>Timer\<close> is \<open>src/timer/mod.rs\<close>, \<open>id.rs\<close>, \<open>entry.rs\<close>; \<open>Sleep\<close> is \<open>sleep.rs\<close>, \<open>timeout.rs\<close>, \<open>interval.rs\<close> and the
    periodic task of \<open>src/task.rs\<close>.
  \<^item> \<open>Waker\<close> is \<open>src/waker.rs\<close> with the reference count of its vtable; \<open>Task\<close> is \<open>src/task.rs\<close>;
    \<open>Executor\<close> and \<open>Block_On\<close> are \<open>src/executor.rs\<close>; \<open>Cancel_Token\<close> is \<open>src/cancellation.rs\<close>.
  \<^item> \<open>Io\<close> is \<open>src/io/mod.rs\<close>, \<open>src/io/future.rs\<close> and the I/O state of \<open>src/cpu.rs\<close>; the trait \<open>IoProvider\<close>
    is the record \<open>io_ops\<close> and its contract the locale \<open>io_provider\<close>.  \<open>Sockaddr\<close> and \<open>Uring\<close> are
    \<open>src/io/uring.rs\<close>, \<open>Epoll\<close> is \<open>src/io/epoll.rs\<close>; both are interpretations of the locale.
  \<^item> \<open>Cpu\<close> is the event loop and the handles of \<open>src/cpu.rs\<close>, \<open>Multicore\<close> the cores and methods of
    \<open>src/multicore.rs\<close>, \<open>Runtime_Calls\<close> the interleaving of concurrent calls of these methods,
    \<open>Signal\<close> is \<open>src/signal.rs\<close>.
  \<^item> \<open>Net\<close> has the methods of \<open>src/net.rs\<close> and \<open>src/fs.rs\<close> in direct style; \<open>Async\<close> has futures as the
    compiler makes them, \<open>Async_Net\<close> the same methods in that form, and \<open>Cpu_Async\<close> such futures as the
    tasks of a CPU; \<open>Text\<close> has UTF-8 and the string
    functions of the standard library, \<open>Http\<close> and \<open>Http_Handlers\<close> are \<open>src/http.rs\<close>, \<open>Http_Echo\<close> is
    \<open>examples/http_echo.rs\<close>, and \<open>Examples\<close> has \<open>hello_world.rs\<close>, \<open>udp_echo_demo.rs\<close> and \<open>async_file_demo.rs\<close>.
  \<^item> \<open>Uring_Kernel\<close> puts the io_uring backend over a kernel that serves the entries of its ring: the
    backend then answers every operation as the kernel says, which carries \<open>write_all\<close> and the
    example server down to the entries.
  \<^item> \<open>Build\<close> is \<open>build.rs\<close>.  This theory puts both backends under the tasks of a CPU, and composes
    \<open>block_on\<close>, an asynchronous read and the ring.

  \<^bold>\<open>How state and effects are modelled.\<close>  A struct is a record, an enum a datatype, an operation a function
  that returns the changed state.  Counters and hardware integers are words, so that they wrap;
  lengths and indices are natural numbers.  A panic is a value \<open>Inl e\<close>; an error of the source is a
  value of its error type.  Thread-local cells and values behind an \<open>Arc\<close> are addresses into a store
  where sharing matters.  User futures, the operating system, \<open>mio\<close>, the ring and the tables of Unicode
  are arguments; what a theorem needs of them is a named hypothesis, shown to be satisfiable by a
  concrete instance in the theorem that follows it.  Threads interleave as the step relations
  \<open>io_step\<close> (futures and completions) and that of \<open>Runtime_Calls\<close> (atomic accesses of the methods).

  \<^bold>\<open>What is shown.\<close>
  \<^item> Scheduling: a spawned task that finishes delivers its value through its join handle, a handle is
    pending exactly while its task is alive, \<open>run\<close> ends, a panic stays with its task, cores poll
    their tasks in turn, identifiers are distinct and carry their CPU.
  \<^item> Timers: every waker that was scheduled is in the wheel, cancelled or fired, exactly once; a timer
    fires on time within one rotation, and everything fires after it; intervals do not drift.
  \<^item> I/O: no wakeup is lost in any interleaving of submissions, polls, drops and completions, for every
    backend that keeps the contract; over such a backend \<open>block_on\<close>, and the loop of a CPU for a task of
    its own, compute the direct reading of the polled methods; a read returns the bytes of the kernel; addresses survive encoding; the pool
    hands out zeroed buffers and stays bounded.
  \<^item> Protocols: \<open>write_all\<close> sends everything; parsing inverts rendering of requests; responses are framed;
    the echo handler repeats its request.
  \<^item> Whole programs: over io_uring, \<open>block_on\<close> of \<open>write_all\<close> delivers to the kernel and the example server
    serves all its clients; the UDP example reports every datagram intact; the file example closes
    and removes its file on every way out.
  \<^item> Shutdown: the broadcast happens once whatever the interleaving, cores and CPUs stop, signals
    reach every CPU, cancellation is prompt.
  \<^item> Defects: theorems state what the code does where that is not what it means to do: sleeps and
    periodic tasks that are never woken, \<open>Runtime::spawn\<close> whose tasks never run, results lost in
    \<open>is_finished\<close>, descriptors closed by the epoll backend, I/O on a core, a task lost in the race of
    spawn and shutdown, submissions dropped by a full ring, lengths cut to 32 bits, an example
    that never ends.

  \<^bold>\<open>Fuel and bounds.\<close>  A loop that need not end takes fuel and returns \<open>None\<close> without it: \<open>run\<close>, \<open>block_on\<close>,
  \<open>write_all\<close>, the loops of \<open>Cpu\<close> and of a core, \<open>accept_loop\<close>.  Termination is a theorem of its own form
  each time: some fuel gives the result, with the number of rounds where it is known (\<open>accept_loop\<close> needs
  one more than there are clients, \<open>write_all\<close> the length of the data and the number of interruptions).
  Identifier counters wrap after 2 to the 64 draws; freshness is claimed for fewer.

  \<^bold>\<open>Not modelled.\<close>  \<open>src/io/kqueue.rs\<close> does not type-check, so there is no behaviour to translate.
  \<open>src/io/epoll.rs\<close> does not compile either, for one undeclared variable, which is an argument of the
  model.  Pinning a thread to a processor and all \<open>Debug\<close> and \<open>tracing\<close> output have no effect on the
  state.  Memory orderings weaker than sequential consistency are not distinguished.  In \<open>src/config.rs\<close>
  the initial capacities of containers and the receive timeout do not occur.  The synchronous system
  calls of a program and the operations of a backend act on separate parts of the state, so that a
  datagram a program sends to itself arrives by hypothesis only.  The other examples measure time,
  wait for other threads or run under tokio; the benchmarks and the tests are drivers of the
  modelled operations.
\<close>

section \<open>Tasks of a CPU over the ring\<close>

interpretation uring_cpu: async_cpu "list_cpu (async_futs (UringBackend R) code) (UringBackend R) clock"
    "\<lambda>v. v" "\<lambda>q. q" "\<lambda>v. v" code uring_in_flight "\<lambda>_. True" for R code clock
  by (rule async_cpu_list [OF uring.io_provider_axioms])

interpretation epoll_cpu: async_cpu "list_cpu (async_futs (EpollBackend E) code) (EpollBackend E) clock"
    "\<lambda>v. v" "\<lambda>q. q" "\<lambda>v. v" code epoll_in_flight epoll_ok for E code clock
  by (rule async_cpu_list [OF epoll.io_provider_axioms])

section \<open>A read from block_on to the kernel and back\<close>

text \<open>The ring after \<open>j\<close> drains.\<close>

primrec ring_after :: "'r ring_ops \<Rightarrow> nat \<Rightarrow> 'r \<Rightarrow> 'r" where
  "ring_after R 0 r = r"
| "ring_after R (Suc j) r = ring_after R j (snd (ring_completions R r))"

lemma uring_completes_after:
  assumes "\<forall>j < k. fst (ring_completions R (ring_after R j (ring b))) = []"
    and "fst (ring_completions R (ring_after R k (ring b))) = [c]"
    and "pending_ops b (cqe_user_data c) = Some pend"
  shows "\<exists>p. completes_after (UringBackend R) k b (IoToken (cqe_user_data c)) (snd (fst (complete_op c pend p)))
    \<and> p = ur_pool b"
  using assms
proof (induction k arbitrary: b)
  case 0
  then show ?case
    using uring_poll_one [of R b c pend] by (auto simp: UringBackend_def)
next
  case (Suc k)
  let ?b = "b\<lparr>ring := snd (ring_completions R (ring b))\<rparr>"
  have "uring_poll_complete R b = (Pending, ?b)"
    using Suc.prems(1) by (intro uring_poll_idle) force
  moreover have "\<forall>j < k. fst (ring_completions R (ring_after R j (ring ?b))) = []"
    using Suc.prems(1) by force
  ultimately show ?case
    using Suc.IH [of ?b] Suc.prems(2,3) by (simp add: UringBackend_def)
qed

text \<open>C8. \<open>block_on\<close> of a file read returns the bytes of the kernel.  Take the io_uring backend of a fresh
  runtime whose ring accepts the submission, and a kernel that completes the read at any later
  drain of the completion queue.  Then \<open>Runtime::block_on\<close> on the read returns, with a buffer whose
  contents are exactly the bytes that the kernel stored, and clears the thread-local I/O state.\<close>

theorem block_on_read_returns_kernel_bytes:
  assumes pool: "pool_wf (ur_pool b)"
    and push: "\<And>e. fst (ring_push R e (ring b))"
    and sub: "uring_submit R (OpReadFile fd off n) (token_counter w) b = (tok, k', b')"
    and idle: "\<forall>j < k. fst (ring_completions R (ring_after R j (ring b'))) = []"
    and cqes: "fst (ring_completions R (ring_after R k (ring b'))) = [c]"
    and own: "cqe_user_data c = token_counter w" "cqe_result c = int (length (cqe_written c))"
      "length (cqe_written c) \<le> n"
  shows "\<exists>fuel data w'. runtime_block_on (UringBackend R) (Inr b) (method_future (UringBackend R)) fuel
      (Submit (OpReadFile fd off n)) w = Some (Inr (Inr (CReadFile (length (cqe_written c)) data)), w')
    \<and> contents data = map Some (cqe_written c) \<and> cur_io w' = None"
proof -
  obtain buf p where get: "pool_get n (ur_pool b) = (buf, p)" by (cases "pool_get n (ur_pool b)")
  let ?data = "set_len (length (cqe_written c)) (kernel_fill (cqe_written c) buf)"
  have pend: "tok = IoToken (cqe_user_data c)"
    "pending_ops b' (cqe_user_data c) = Some (PReadFile (OpReadFile fd off n) buf)"
    using uring_submit_accepted [OF push sub] get own(1) by simp_all
  have fin: "completes_after (UringBackend R) k b' tok (Inr (CReadFile (length (cqe_written c)) ?data))"
    using uring_completes_after [OF idle cqes pend(2)] pend(1) own(2) by (simp add: read_result_def Let_def)
  have "io_submit (UringBackend R) (OpReadFile fd off n) (token_counter w) b = (tok, k', b')"
    using sub by (simp add: UringBackend_def)
  note block_on_completes_io [OF this fin]
  moreover have "contents ?data = map Some (cqe_written c)"
    using contents_read pool_get_capacity [OF pool, of n] get own(3) by simp
  ultimately show ?thesis by blast
qed

theorem block_on_read_returns_kernel_bytes_witness:
  "\<exists>fuel data w'. runtime_block_on (UringBackend (demo_ring 1)) (Inr demo_uring) (method_future (UringBackend (demo_ring 1)))
      fuel (Submit (OpReadFile 3 0 4)) \<lparr>io_states = [], cur_io = None, token_counter = 1, io_rest = ()\<rparr>
      = Some (Inr (Inr (CReadFile 2 data)), w') \<and> contents data = [Some 7, Some 8]"
proof -
  let ?w = "\<lparr>io_states = [], cur_io = None, token_counter = 1, io_rest = ()\<rparr> :: (sqe list uring, unit) io_world"
  let ?c = "\<lparr>cqe_user_data = 1, cqe_result = 2, cqe_written = [7, 8], cqe_addr = SockaddrOther 0\<rparr>"
  obtain tok k' b' where sub: "uring_submit (demo_ring 1) (OpReadFile 3 0 4) (token_counter ?w) demo_uring = (tok, k', b')"
    by (metis prod_cases3)
  have "fst (ring_completions (demo_ring 1) (ring_after (demo_ring 1) 0 (ring b'))) = [?c]"
    using sub by (simp add: uring_submit_def demo_ring_def demo_uring_def io_token_new_def fetch_add_def pool_get_def)
      (auto simp: BUFFER_SIZE_def)
  moreover have "pool_wf (ur_pool demo_uring)" "\<And>e. fst (ring_push (demo_ring 1) e (ring demo_uring))"
    by (simp_all add: demo_uring_def demo_ring_def pool_wf_def)
  ultimately have "\<exists>fuel data w'. runtime_block_on (UringBackend (demo_ring 1)) (Inr demo_uring)
      (method_future (UringBackend (demo_ring 1))) fuel (Submit (OpReadFile 3 0 4)) ?w
      = Some (Inr (Inr (CReadFile (length (cqe_written ?c)) data)), w')
    \<and> contents data = map Some (cqe_written ?c) \<and> cur_io w' = None"
    by (intro block_on_read_returns_kernel_bytes [OF _ _ sub, where k = 0]) simp_all
  then show ?thesis by (auto simp: numeral_2_eq_2)
qed

end
